(* ===== verification/Prelude.thy ===== *)
theory Prelude
  imports Main "HOL-Library.Word"
begin

text \<open>
  The prelude of the development: the machine types of the Go sources, the outcome of a Go call
  (a value, a returned error, a panic, or a loop that never ends), the state-passing programs built
  from it, the big-endian encodings of \<^verbatim>\<open>encoding/binary\<close> with their round trips, and the generic
  list and word lemmas that the components share.
\<close>

unbundle bit_operations_syntax

section \<open>Machine types\<close>

type_synonym byte = "8 word"
type_synonym u16 = "16 word"
type_synonym u32 = "32 word"
type_synonym u64 = "64 word"

text \<open>A Go string is a sequence of bytes; \<open>bytes_of\<close> is a string literal.\<close>

type_synonym gostring = "byte list"

definition bytes_of :: "string \<Rightarrow> gostring" where
  "bytes_of s = map (\<lambda>c. of_nat (of_char c)) s"

named_theorems codec_simps \<open>rewrite rules that evaluate encoders against decoders\<close>
named_theorems prog_simps \<open>rewrite rules that run state-passing programs\<close>

section \<open>Outcomes of a Go call\<close>

text \<open>
  A Go call that returns \<^verbatim>\<open>(v, nil)\<close> is \<open>Ok v\<close>, one that returns a non-nil error is \<open>Err e\<close>, a run-time
  panic is \<open>Panic\<close>, and a loop that is never left is \<open>Diverge\<close>.
\<close>

datatype ('e, 'a) res = Ok 'a | Err 'e | Panic | Diverge

type_synonym ('s, 'e, 'a) prog = "'s \<Rightarrow> ('e, 'a) res \<times> 's"

definition ret :: "'a \<Rightarrow> ('s, 'e, 'a) prog" where
  "ret x = (\<lambda>s. (Ok x, s))"

definition throw :: "'e \<Rightarrow> ('s, 'e, 'a) prog" where
  "throw e = (\<lambda>s. (Err e, s))"

definition bindP :: "('s, 'e, 'a) prog \<Rightarrow> ('a \<Rightarrow> ('s, 'e, 'b) prog) \<Rightarrow> ('s, 'e, 'b) prog" where
  "bindP m f = (\<lambda>s. case m s of
      (Ok x, s') \<Rightarrow> f x s'
    | (Err e, s') \<Rightarrow> (Err e, s')
    | (Panic, s') \<Rightarrow> (Panic, s')
    | (Diverge, s') \<Rightarrow> (Diverge, s'))"

text \<open>Running a program and keeping its error as a value, as Go does with \<^verbatim>\<open>err := f()\<close>; a panic still propagates.\<close>

definition attempt :: "('s, 'e, 'a) prog \<Rightarrow> ('s, 'e, ('e, 'a) res) prog" where
  "attempt p s = (case p s of (Ok x, s') \<Rightarrow> (Ok (Ok x), s') | (Err e, s') \<Rightarrow> (Ok (Err e), s')
     | (Panic, s') \<Rightarrow> (Panic, s') | (Diverge, s') \<Rightarrow> (Diverge, s'))"

definition bindR :: "('e, 'a) res \<Rightarrow> ('a \<Rightarrow> ('e, 'b) res) \<Rightarrow> ('e, 'b) res" where
  "bindR r f = (case r of Ok x \<Rightarrow> f x | Err e \<Rightarrow> Err e | Panic \<Rightarrow> Panic | Diverge \<Rightarrow> Diverge)"

definition of_option :: "'a option \<Rightarrow> ('e, 'a) res" where
  "of_option x = (case x of Some v \<Rightarrow> Ok v | None \<Rightarrow> Panic)"

section \<open>Big-endian encodings\<close>

definition PutUint16 :: "u16 \<Rightarrow> byte list" where
  "PutUint16 v = [ucast (drop_bit 8 v), ucast v]"

definition PutUint32 :: "u32 \<Rightarrow> byte list" where
  "PutUint32 v = [ucast (drop_bit 24 v), ucast (drop_bit 16 v), ucast (drop_bit 8 v), ucast v]"

text \<open>Reading from a slice that is too short is an index panic, here \<open>None\<close>.\<close>

fun Uint16 :: "byte list \<Rightarrow> u16 option" where
  "Uint16 (b0 # b1 # _) = Some (ucast b1 OR push_bit 8 (ucast b0))"
| "Uint16 _ = None"

fun Uint32 :: "byte list \<Rightarrow> u32 option" where
  "Uint32 (b0 # b1 # b2 # b3 # _) =
     Some (ucast b3 OR push_bit 8 (ucast b2) OR push_bit 16 (ucast b1) OR push_bit 24 (ucast b0))"
| "Uint32 _ = None"

fun Uint8 :: "byte list \<Rightarrow> byte option" where
  "Uint8 (b # _) = Some b"
| "Uint8 [] = None"

text \<open>Writing a block of bytes into an array at an offset, as \<^verbatim>\<open>copy(a[i:], bs)\<close> does.\<close>

definition overwrite :: "'a list \<Rightarrow> nat \<Rightarrow> 'a list \<Rightarrow> 'a list" where
  "overwrite xs i bs = take i xs @ take (length xs - i) bs @ drop (i + length bs) xs"

section \<open>Lemmas on outcomes and programs\<close>

lemma ret_run [simp, prog_simps]: "ret x s = (Ok x, s)"
  by (simp add: ret_def)

lemma throw_run [simp, prog_simps]: "throw e s = (Err e, s)"
  by (simp add: throw_def)

lemma bindP_Ok [prog_simps]: "m s = (Ok x, s') \<Longrightarrow> bindP m f s = f x s'"
  by (simp add: bindP_def)

lemma bindP_Err [prog_simps]: "m s = (Err e, s') \<Longrightarrow> bindP m f s = (Err e, s')"
  by (simp add: bindP_def)

lemma bindP_Panic: "m s = (Panic, s') \<Longrightarrow> bindP m f s = (Panic, s')"
  by (simp add: bindP_def)

lemma bindP_assoc: "bindP (bindP m f) g = bindP m (\<lambda>x. bindP (f x) g)"
  by (rule ext) (simp add: bindP_def split: prod.splits res.splits)

lemma bindP_OkE:
  assumes "bindP m f s = (Ok y, s'')"
  obtains x s' where "m s = (Ok x, s')" "f x s' = (Ok y, s'')"
  using assms by (auto simp: bindP_def split: prod.splits res.splits)

lemma bindR_simps [simp, prog_simps]:
  "bindR (Ok x) f = f x" "bindR (Err e) f = Err e" "bindR Panic f = Panic" "bindR Diverge f = Diverge"
  by (simp_all add: bindR_def)

lemma bindR_Ok_iff: "bindR r f = Ok y \<longleftrightarrow> (\<exists>x. r = Ok x \<and> f x = Ok y)"
  by (cases r) auto

lemma of_option_simps [simp, prog_simps]:
  "of_option (Some v) = Ok v" "of_option None = Panic"
  by (simp_all add: of_option_def)

section \<open>Lemmas on encodings\<close>

lemma bit_byte_high: "8 \<le> n \<Longrightarrow> \<not> bit (b :: byte) n"
  using bit_imp_le_length by fastforce

lemma bit_u16_high: "16 \<le> n \<Longrightarrow> \<not> bit (b :: u16) n"
  using bit_imp_le_length by fastforce

lemma uint_of_nat16: "n < 65536 \<Longrightarrow> uint (of_nat n :: u16) = int n"
  by (simp add: unsigned_of_nat take_bit_nat_eq_self)

lemma unat_of_nat16: "n < 65536 \<Longrightarrow> unat (of_nat n :: u16) = n"
  by (simp add: unsigned_of_nat take_bit_nat_eq_self)

lemma uint_of_nat32: "n < 2 ^ 32 \<Longrightarrow> uint (of_nat n :: u32) = int n"
  by (simp add: unsigned_of_nat take_bit_nat_eq_self)

lemma unat_of_nat32: "n < 2 ^ 32 \<Longrightarrow> unat (of_nat n :: u32) = n"
  by (simp add: unsigned_of_nat take_bit_nat_eq_self)

lemma length_PutUint16 [simp]: "length (PutUint16 v) = 2"
  by (simp add: PutUint16_def)

lemma length_PutUint32 [simp]: "length (PutUint32 v) = 4"
  by (simp add: PutUint32_def)

lemma Uint16_Put [simp, codec_simps]: "Uint16 (PutUint16 v @ rest) = Some v"
  by (auto simp: PutUint16_def bit_simps intro!: bit_word_eqI)

lemma Uint32_word:
  fixes v :: u32
  shows "ucast (ucast v :: byte) OR push_bit 8 (ucast (ucast (drop_bit 8 v) :: byte))
    OR push_bit 16 (ucast (ucast (drop_bit 16 v) :: byte))
    OR push_bit 24 (ucast (ucast (drop_bit 24 v) :: byte)) = v" (is "?w = v")
proof (rule bit_word_eqI)
  fix n assume "n < LENGTH(32)"
  then consider "n < 8" | "8 \<le> n" "n < 16" | "16 \<le> n" "n < 24" | "24 \<le> n" "n < 32" by fastforce
  then show "bit (?w :: u32) n = bit v n"
    by cases (auto simp: bit_simps)
qed

lemma Uint32_Put [simp, codec_simps]: "Uint32 (PutUint32 v @ rest) = Some v"
  using Uint32_word[of v] by (simp add: PutUint32_def)

lemma Put16_Uint: "Uint16 bs = Some v \<Longrightarrow> PutUint16 v = take 2 bs"
  by (cases bs rule: Uint16.cases)
    (auto simp: PutUint16_def bit_simps bit_byte_high intro!: bit_word_eqI)

lemma Put32_Uint: "Uint32 bs = Some v \<Longrightarrow> PutUint32 v = take 4 bs"
  by (cases bs rule: Uint32.cases)
    (auto simp: PutUint32_def bit_simps bit_byte_high intro!: bit_word_eqI)

lemma Uint16_None: "Uint16 bs = None \<longleftrightarrow> length bs < 2"
  by (cases bs rule: Uint16.cases) auto

lemma Uint32_None: "Uint32 bs = None \<longleftrightarrow> length bs < 4"
  by (cases bs rule: Uint32.cases) auto

text \<open>
  The contract of a fixed-width encoding: what is put can be got back whatever follows, a read needs
  the full width, and the encoding is canonical. The framing lemmas of the codecs use only these.
\<close>

locale fixed_width =
  fixes put :: "'v \<Rightarrow> byte list" and get :: "byte list \<Rightarrow> 'v option" and width :: nat
  assumes get_put: "get (put v @ rest) = Some v"
    and length_put: "length (put v) = width"
    and get_None: "get bs = None \<longleftrightarrow> length bs < width"
    and put_get: "get bs = Some v \<Longrightarrow> put v = take width bs"
begin

lemma put_inj: "put v = put w \<Longrightarrow> v = w"
  using get_put[of v "[]"] get_put[of w "[]"] by simp

lemma get_exact: "length bs = width \<Longrightarrow> \<exists>v. get bs = Some v \<and> put v = bs"
  using get_None[of bs] put_get[of bs] by (cases "get bs") auto

lemma get_prefix: "width \<le> length bs \<Longrightarrow> get (take width bs) = get bs"
proof -
  assume w: "width \<le> length bs"
  then obtain v where v: "get bs = Some v" using get_None[of bs] by (cases "get bs") auto
  then have "put v = take width bs" by (rule put_get)
  then show ?thesis using get_put[of v "[]"] v by simp
qed

lemma put_prefix_unique: "put v @ xs = put w @ ys \<longleftrightarrow> v = w \<and> xs = ys"
  using get_put[of v xs] get_put[of w ys] by (metis option.inject same_append_eq)

lemma get_drop: "get (drop (length pre) (pre @ put v @ rest)) = Some v"
  by (simp add: get_put)

end

interpretation be8: fixed_width "\<lambda>b. [b]" Uint8 1
proof unfold_locales
  fix bs v show "(Uint8 bs = None) = (length bs < 1)" by (cases bs) auto
  assume "Uint8 bs = Some v" then show "[v] = take 1 bs" by (cases bs) auto
qed simp_all

interpretation be16: fixed_width PutUint16 Uint16 2
  by unfold_locales (simp_all add: Uint16_None Put16_Uint)

interpretation be32: fixed_width PutUint32 Uint32 4
  by unfold_locales (simp_all add: Uint32_None Put32_Uint)

section \<open>Lemmas on blocks and lists\<close>

lemma length_overwrite [simp]: "i \<le> length xs \<Longrightarrow> length (overwrite xs i bs) = length xs"
  by (simp add: overwrite_def)

lemma take_overwrite:
  "i + length bs \<le> length xs \<Longrightarrow> take (i + length bs) (overwrite xs i bs) = take i xs @ bs"
  by (simp add: overwrite_def)

lemma take_overwrite_before: "i \<le> length xs \<Longrightarrow> j \<le> i \<Longrightarrow> take j (overwrite xs i bs) = take j xs"
  by (simp add: overwrite_def)

lemma sum_list_update_nat:
  fixes xs :: "nat list"
  shows "i < length xs \<Longrightarrow> sum_list (xs[i := v]) + xs ! i = sum_list xs + v"
  by (induction xs arbitrary: i) (auto split: nat.splits)

lemma sum_list_update_int:
  fixes xs :: "int list"
  shows "i < length xs \<Longrightarrow> sum_list (xs[i := v]) = sum_list xs - xs ! i + v"
  by (induction xs arbitrary: i) (auto split: nat.splits)

lemma word_xor_cancel_right [simp]: "(x :: 'a::len word) XOR z = y XOR z \<longleftrightarrow> x = y"
  by (metis xor.assoc xor_self_eq xor.right_neutral)

lemma word_xor_cancel_left [simp]: "(z :: 'a::len word) XOR x = z XOR y \<longleftrightarrow> x = y"
  by (metis xor.commute word_xor_cancel_right)

lemma ucast_byte_inj: "(ucast (b :: byte) :: u32) = ucast b' \<Longrightarrow> b = b'"
proof (rule bit_word_eqI)
  fix n assume e: "(ucast b :: u32) = ucast b'" and n: "n < LENGTH(8)"
  have "bit (ucast b :: u32) n = bit (ucast b' :: u32) n" using e by simp
  then show "bit b n = bit b' n" using n by (simp add: bit_simps)
qed

end
