(* ===== verification/ByteBuf.thy ===== *)
theory ByteBuf
  imports Prelude
begin

text \<open>
  The byte buffer of \<^verbatim>\<open>pkg/remote/default_bytebuf.go\<close> and the \<^verbatim>\<open>ByteBuffer\<close> interface of
  \<^verbatim>\<open>pkg/remote/bytebuf.go\<close>. The buffer owns a backing array that grows by doubling; a slice handed out by
  \<open>Malloc\<close> keeps pointing at the array it was cut from, so every array carries a generation number \<open>arr\<close>
  and a write through a slice of an older generation is lost. The locales \<open>byte_reader\<close> and
  \<open>byte_writer\<close> are the contracts the codecs rely on; both are interpreted on this buffer.
\<close>

section \<open>State\<close>

datatype berr =
    EOF
  | Unreadable string
  | Unwritable string
  | NotEnough int int
  | ErrorsNew string
  | ProtocolError string
  | PayloadTooLarge int int
  | InvalidPayload u32 u32
  | Wrapped string berr

text \<open>\<open>buff\<close> is the backing array from the start of the slice up to its capacity, \<open>blen\<close> the slice's length.\<close>

record bbuf =
  buff :: "byte list"
  blen :: int
  arr :: nat
  readIdx :: int
  writeIdx :: int
  status :: int

record slc =
  s_arr :: nat
  s_off :: int
  s_len :: int

definition BitReadable :: int where "BitReadable = 1"

definition BitWritable :: int where "BitWritable = 2"

definition readable :: "bbuf \<Rightarrow> bool" where
  "readable b \<longleftrightarrow> status b AND BitReadable \<noteq> 0"

definition writable :: "bbuf \<Rightarrow> bool" where
  "writable b \<longleftrightarrow> status b AND BitWritable \<noteq> 0"

definition cap :: "bbuf \<Rightarrow> int" where
  "cap b = int (length (buff b))"

text \<open>
  \<^verbatim>\<open>dirtmake.Bytes(n, n)\<close> returns \<open>n\<close> bytes whose contents are not specified: the contents of the
  array of generation \<open>a\<close> are the parameter \<open>junk a\<close>.
\<close>

definition dirtmake_Bytes :: "(nat \<Rightarrow> nat \<Rightarrow> byte) \<Rightarrow> nat \<Rightarrow> int \<Rightarrow> byte list" where
  "dirtmake_Bytes junk a n = map (junk a) [0..<nat n]"

section \<open>Construction\<close>

definition newDefaultByteBuffer :: bbuf where
  "newDefaultByteBuffer = \<lparr>buff = [], blen = 0, arr = 0, readIdx = 0, writeIdx = 0, status = 0\<rparr>"

definition newReaderByteBuffer :: "bbuf \<Rightarrow> byte list \<Rightarrow> bbuf" where
  "newReaderByteBuffer b buf =
     b\<lparr>buff := buf, blen := int (length buf), arr := arr b + 1, readIdx := 0,
       writeIdx := int (length buf), status := BitReadable\<rparr>"

definition newWriterByteBuffer :: "(nat \<Rightarrow> nat \<Rightarrow> byte) \<Rightarrow> bbuf \<Rightarrow> int \<Rightarrow> bbuf" where
  "newWriterByteBuffer junk b estimatedLength =
     (let n = (if estimatedLength \<le> 0 then 256 else estimatedLength) in
      b\<lparr>buff := dirtmake_Bytes junk (arr b + 1) n, blen := n, arr := arr b + 1,
        status := BitWritable, writeIdx := 0\<rparr>)"

definition newReaderWriterByteBuffer :: "(nat \<Rightarrow> nat \<Rightarrow> byte) \<Rightarrow> bbuf \<Rightarrow> int \<Rightarrow> bbuf" where
  "newReaderWriterByteBuffer junk b estimatedLength =
     (let n = (if estimatedLength \<le> 0 then 256 else estimatedLength) in
      b\<lparr>buff := dirtmake_Bytes junk (arr b + 1) n, blen := n, arr := arr b + 1,
        readIdx := 0, writeIdx := 0, status := BitReadable OR BitWritable\<rparr>)"

section \<open>Reading\<close>

text \<open>The slice expression \<^verbatim>\<open>b.buff[lo:hi]\<close>: a panic unless \<open>0 \<le> lo \<le> hi \<le> cap\<close>.\<close>

definition slice_of :: "bbuf \<Rightarrow> int \<Rightarrow> int \<Rightarrow> byte list option" where
  "slice_of b lo hi =
     (if 0 \<le> lo \<and> lo \<le> hi \<and> hi \<le> cap b then Some (take (nat (hi - lo)) (drop (nat lo) (buff b))) else None)"

definition ReadableLen :: "bbuf \<Rightarrow> int" where
  "ReadableLen b = (if \<not> readable b then -1 else writeIdx b - readIdx b)"

definition readableCheck :: "bbuf \<Rightarrow> int \<Rightarrow> berr option" where
  "readableCheck b n =
     (if readIdx b \<ge> writeIdx b \<and> n > 0 then Some EOF
      else if ReadableLen b < n then Some (NotEnough n (ReadableLen b))
      else None)"

definition Peek :: "int \<Rightarrow> (bbuf, berr, byte list) prog" where
  "Peek n b =
     (if \<not> readable b then (Err (Unreadable ''Peek''), b)
      else case readableCheck b n of
             Some e \<Rightarrow> (Err e, b)
           | None \<Rightarrow> (of_option (slice_of b (readIdx b) (readIdx b + n)), b))"

text \<open>The read index moves even when \<open>Peek\<close> reports an error; a panic leaves the function before that.\<close>

definition Next :: "int \<Rightarrow> (bbuf, berr, byte list) prog" where
  "Next n b =
     (if \<not> readable b then (Err (Unreadable ''Next''), b)
      else case Peek n b of
             (Panic, b') \<Rightarrow> (Panic, b')
           | (r, b') \<Rightarrow> (r, b'\<lparr>readIdx := readIdx b' + n\<rparr>))"

definition Skip :: "int \<Rightarrow> (bbuf, berr, unit) prog" where
  "Skip n b =
     (if \<not> readable b then (Err (Unreadable ''Skip''), b)
      else case readableCheck b n of
             Some e \<Rightarrow> (Err e, b)
           | None \<Rightarrow> (Ok (), b\<lparr>readIdx := readIdx b + n\<rparr>))"

text \<open>\<^verbatim>\<open>copy(p, buf)\<close>: the result is the caller's slice \<open>p\<close> after the copy.\<close>

definition copy_into :: "byte list \<Rightarrow> byte list \<Rightarrow> byte list" where
  "copy_into p buf = overwrite p 0 buf"

definition Read :: "byte list \<Rightarrow> (bbuf, berr, int \<times> byte list) prog" where
  "Read p b =
     (if \<not> readable b then (Err (Unreadable ''Read''), b)
      else let pl = int (length p); rd = ReadableLen b in
           if rd = 0 then (Err EOF, b)
           else if pl \<le> rd then bindP (Next pl) (\<lambda>buf. ret (pl, copy_into p buf)) b
           else bindP (Next rd) (\<lambda>buf. ret (rd, copy_into p buf)) b)"

definition ReadString :: "int \<Rightarrow> (bbuf, berr, byte list) prog" where
  "ReadString n b =
     (if \<not> readable b then (Err (Unreadable ''ReadString''), b)
      else bindP (Next n) ret b)"

definition ReadBinary :: "byte list \<Rightarrow> (bbuf, berr, int \<times> byte list) prog" where
  "ReadBinary p b =
     (if \<not> readable b then (Err (Unreadable ''ReadBinary''), b)
      else bindP (Next (int (length p))) (\<lambda>buf. ret (int (length p), copy_into p buf)) b)"

definition ReadLen :: "bbuf \<Rightarrow> int" where
  "ReadLen b = readIdx b"

section \<open>Writing\<close>

definition writableLen :: "bbuf \<Rightarrow> int" where
  "writableLen b = (if \<not> writable b then -1 else cap b - writeIdx b)"

text \<open>
  The doubling loop of \<open>ensureWritable\<close>, on the 64-bit integers of the code and on mathematical integers. It never ends from
  capacity 0, which is \<open>None\<close>. Up to a size of 2 ^ 62 bytes, which no process can hold, the two agree (\<open>grow64_eq\<close>), and the
  buffer is modelled with the second; above it the shift overflows (\<open>grow64_overflow\<close>).
\<close>

partial_function (option) grow64 :: "64 word \<Rightarrow> 64 word \<Rightarrow> 64 word option" where
  "grow64 newCapacity minNewCapacity =
     (if newCapacity <s minNewCapacity then grow64 (push_bit 1 newCapacity) minNewCapacity else Some newCapacity)"

partial_function (option) grow :: "int \<Rightarrow> int \<Rightarrow> int option" where
  "grow newCapacity minNewCapacity =
     (if newCapacity < minNewCapacity then grow (newCapacity * 2) minNewCapacity else Some newCapacity)"

definition ensureWritable :: "(nat \<Rightarrow> nat \<Rightarrow> byte) \<Rightarrow> int \<Rightarrow> (bbuf, berr, unit) prog" where
  "ensureWritable junk minWritableBytes b =
     (if writableLen b \<ge> minWritableBytes then (Ok (), b)
      else case grow (cap b) (writeIdx b + minWritableBytes) of
             None \<Rightarrow> (Diverge, b)
           | Some newCapacity \<Rightarrow>
               (Ok (), b\<lparr>buff := copy_into (dirtmake_Bytes junk (arr b + 1) newCapacity)
                                         (take (nat (blen b)) (buff b)),
                         blen := newCapacity, arr := arr b + 1\<rparr>))"

definition Malloc :: "(nat \<Rightarrow> nat \<Rightarrow> byte) \<Rightarrow> int \<Rightarrow> (bbuf, berr, slc) prog" where
  "Malloc junk n b =
     (if \<not> writable b then (Err (Unwritable ''Malloc''), b)
      else bindP (ensureWritable junk n) (\<lambda>_ b.
             let currWIdx = writeIdx b; b' = b\<lparr>writeIdx := writeIdx b + n\<rparr> in
             case slice_of b' currWIdx (writeIdx b') of
               None \<Rightarrow> (Panic, b')
             | Some _ \<Rightarrow> (Ok \<lparr>s_arr = arr b', s_off = currWIdx, s_len = n\<rparr>, b')) b)"

text \<open>A write through a slice reaches the buffer only while the slice's array is the current one.\<close>

definition store :: "slc \<Rightarrow> byte list \<Rightarrow> bbuf \<Rightarrow> bbuf" where
  "store sl bs b =
     (if s_arr sl = arr b
      then b\<lparr>buff := overwrite (buff b) (nat (s_off sl)) (take (nat (s_len sl)) bs)\<rparr> else b)"

definition WrittenLen :: "bbuf \<Rightarrow> int" where
  "WrittenLen b = (if \<not> writable b then -1 else writeIdx b)"

text \<open>The common tail of \<open>WriteString\<close>, \<open>WriteBinary\<close> and \<open>AppendBuffer\<close>.\<close>

definition copy_at_end :: "int \<Rightarrow> byte list \<Rightarrow> (bbuf, berr, int) prog" where
  "copy_at_end n p b =
     (case slice_of b (writeIdx b) (writeIdx b + n) of
        None \<Rightarrow> (Panic, b)
      | Some _ \<Rightarrow> (Ok n, b\<lparr>buff := overwrite (buff b) (nat (writeIdx b)) (take (nat n) p),
                          writeIdx := writeIdx b + n\<rparr>))"

definition WriteString :: "(nat \<Rightarrow> nat \<Rightarrow> byte) \<Rightarrow> byte list \<Rightarrow> (bbuf, berr, int) prog" where
  "WriteString junk s b =
     (if \<not> writable b then (Err (Unwritable ''WriteString''), b)
      else bindP (ensureWritable junk (int (length s))) (\<lambda>_. copy_at_end (int (length s)) s) b)"

definition WriteBinary :: "(nat \<Rightarrow> nat \<Rightarrow> byte) \<Rightarrow> byte list \<Rightarrow> (bbuf, berr, int) prog" where
  "WriteBinary junk p b =
     (if \<not> writable b then (Err (Unwritable ''WriteBinary''), b)
      else bindP (ensureWritable junk (int (length p))) (\<lambda>_. copy_at_end (int (length p)) p) b)"

definition Write :: "(nat \<Rightarrow> nat \<Rightarrow> byte) \<Rightarrow> byte list \<Rightarrow> (bbuf, berr, int) prog" where
  "Write junk p b =
     (if \<not> writable b then (Err (Unwritable ''Write''), b) else WriteBinary junk p b)"

definition Flush :: "(bbuf, berr, unit) prog" where
  "Flush b = (if \<not> writable b then (Err (Unwritable ''Flush''), b) else (Ok (), b))"

definition zero_buf :: "bbuf \<Rightarrow> bbuf" where
  "zero_buf b = b\<lparr>status := 0, buff := [], blen := 0, arr := arr b + 1, readIdx := 0, writeIdx := 0\<rparr>"

text \<open>\<open>AppendBuffer\<close> copies what the other buffer holds and releases it; both buffers are returned.\<close>

definition AppendBuffer :: "(nat \<Rightarrow> nat \<Rightarrow> byte) \<Rightarrow> bbuf \<Rightarrow> bbuf \<Rightarrow> (berr, unit) res \<times> bbuf \<times> bbuf" where
  "AppendBuffer junk subBuf b =
     (case bindP (ensureWritable junk (writeIdx subBuf))
             (\<lambda>_. copy_at_end (writeIdx subBuf) (take (nat (blen subBuf)) (buff subBuf))) b of
        (Ok _, b') \<Rightarrow> (Ok (), b', zero_buf subBuf)
      | (Err e, b') \<Rightarrow> (Err e, b', subBuf)
      | (Panic, b') \<Rightarrow> (Panic, b', subBuf)
      | (Diverge, b') \<Rightarrow> (Diverge, b', subBuf))"

definition Bytes :: "(bbuf, berr, byte list) prog" where
  "Bytes b =
     (if \<not> writable b then (Err (Unwritable ''Bytes''), b)
      else (of_option (slice_of b 0 (writeIdx b)), b))"

definition Release :: "bbuf \<Rightarrow> bbuf" where
  "Release b = zero_buf b"

section \<open>The ByteBuffer interface\<close>

text \<open>
  The methods of \<^verbatim>\<open>remote.ByteBuffer\<close> that the codecs call, as a record of functions: other implementations
  (the netpoll and gRPC connections) are other values of this record.
\<close>

record ('s, 'sl) ByteBuffer =
  op_Next :: "int \<Rightarrow> ('s, berr, byte list) prog"
  op_Peek :: "int \<Rightarrow> ('s, berr, byte list) prog"
  op_Skip :: "int \<Rightarrow> ('s, berr, unit) prog"
  op_ReadString :: "int \<Rightarrow> ('s, berr, byte list) prog"
  op_ReadableLen :: "'s \<Rightarrow> int"
  op_ReadLen :: "'s \<Rightarrow> int"
  op_Malloc :: "int \<Rightarrow> ('s, berr, 'sl) prog"
  op_store :: "'sl \<Rightarrow> byte list \<Rightarrow> 's \<Rightarrow> 's"
  op_WrittenLen :: "'s \<Rightarrow> int"
  op_WriteString :: "byte list \<Rightarrow> ('s, berr, int) prog"
  op_WriteBinary :: "byte list \<Rightarrow> ('s, berr, int) prog"

definition default_ops :: "(nat \<Rightarrow> nat \<Rightarrow> byte) \<Rightarrow> (bbuf, slc) ByteBuffer" where
  "default_ops junk =
     \<lparr>op_Next = Next, op_Peek = Peek, op_Skip = Skip, op_ReadString = ReadString,
      op_ReadableLen = ReadableLen, op_ReadLen = ReadLen, op_Malloc = Malloc junk, op_store = store,
      op_WrittenLen = WrittenLen, op_WriteString = WriteString junk, op_WriteBinary = WriteBinary junk\<rparr>"

text \<open>\<^verbatim>\<open>ByteBufferIO.Read\<close> and \<^verbatim>\<open>ByteBufferIO.Write\<close>, over any buffer.\<close>

definition ByteBufferIO_Write :: "('s, 'sl) ByteBuffer \<Rightarrow> byte list \<Rightarrow> ('s, berr, int) prog" where
  "ByteBufferIO_Write d b = op_WriteBinary d b"

definition ByteBufferIO_Read :: "('s, 'sl) ByteBuffer \<Rightarrow> byte list \<Rightarrow> ('s, berr, int \<times> byte list) prog" where
  "ByteBufferIO_Read d b s =
     (let rd = op_ReadableLen d s in
      if rd = 0 then (Err EOF, s)
      else if int (length b) \<le> rd
           then bindP (op_Next d (int (length b))) (\<lambda>buf. ret (int (length b), copy_into b buf)) s
      else bindP (op_Next d rd) (\<lambda>buf. ret (rd, copy_into b buf)) s)"

text \<open>The contract a decoder relies on: the unread bytes are a queue.\<close>

locale byte_reader =
  fixes d :: "('s, 'sl) ByteBuffer" and rinv :: "'s \<Rightarrow> bool" and pending :: "'s \<Rightarrow> byte list"
  assumes Next_law: "rinv s \<Longrightarrow> n \<le> length (pending s) \<Longrightarrow>
      \<exists>s'. op_Next d (int n) s = (Ok (take n (pending s)), s') \<and> rinv s' \<and> pending s' = drop n (pending s)"
    and Next_short: "rinv s \<Longrightarrow> length (pending s) < n \<Longrightarrow> \<exists>e s'. op_Next d (int n) s = (Err e, s')"
    and Peek_law: "rinv s \<Longrightarrow> n \<le> length (pending s) \<Longrightarrow> op_Peek d (int n) s = (Ok (take n (pending s)), s)"
    and Peek_short: "rinv s \<Longrightarrow> length (pending s) < n \<Longrightarrow> \<exists>e. op_Peek d (int n) s = (Err e, s)"
    and Skip_law: "rinv s \<Longrightarrow> n \<le> length (pending s) \<Longrightarrow>
      \<exists>s'. op_Skip d (int n) s = (Ok (), s') \<and> rinv s' \<and> pending s' = drop n (pending s)"
    and ReadString_law: "rinv s \<Longrightarrow> n \<le> length (pending s) \<Longrightarrow>
      \<exists>s'. op_ReadString d (int n) s = (Ok (take n (pending s)), s') \<and> rinv s' \<and> pending s' = drop n (pending s)"
    and ReadString_short: "rinv s \<Longrightarrow> length (pending s) < n \<Longrightarrow> \<exists>e s'. op_ReadString d (int n) s = (Err e, s')"
    and ReadableLen_law: "rinv s \<Longrightarrow> op_ReadableLen d s = int (length (pending s))"
begin

lemma Next_append:
  assumes "rinv s" "pending s = bs @ rest"
  obtains s' where "op_Next d (int (length bs)) s = (Ok bs, s')" "rinv s'" "pending s' = rest"
  using Next_law[OF assms(1), of "length bs"] assms(2) by auto

lemma ReadString_append:
  assumes "rinv s" "pending s = bs @ rest"
  obtains s' where "op_ReadString d (int (length bs)) s = (Ok bs, s')" "rinv s'" "pending s' = rest"
  using ReadString_law[OF assms(1), of "length bs"] assms(2) by auto

text \<open>An \<^verbatim>\<open>io.Reader\<close> over the buffer hands out the unread bytes in order and stops with EOF.\<close>

lemma IO_Read:
  assumes "rinv s" "pending s \<noteq> []"
  shows "\<exists>s'. ByteBufferIO_Read d p s
            = (Ok (int (min (length p) (length (pending s))), copy_into p (take (length p) (pending s))), s')
           \<and> rinv s' \<and> pending s' = drop (length p) (pending s)"
proof (cases "length p \<le> length (pending s)")
  case True
  then obtain s' where "op_Next d (int (length p)) s = (Ok (take (length p) (pending s)), s')"
      "rinv s'" "pending s' = drop (length p) (pending s)"
    using Next_law assms(1) by blast
  with True assms show ?thesis
    by (auto simp: ByteBufferIO_Read_def ReadableLen_law bindP_Ok Let_def min_def)
next
  case False
  then obtain s' where "op_Next d (int (length (pending s))) s = (Ok (pending s), s')"
      "rinv s'" "pending s' = []"
    using Next_law[OF assms(1), of "length (pending s)"] by auto
  with False assms show ?thesis
    by (auto simp: ByteBufferIO_Read_def ReadableLen_law bindP_Ok Let_def min_def)
qed

end

fun write_all :: "('s, 'sl) ByteBuffer \<Rightarrow> byte list list \<Rightarrow> ('s, berr, unit) prog" where
  "write_all d [] s = (Ok (), s)"
| "write_all d (c # cs) s = bindP (op_WriteBinary d c) (\<lambda>_. write_all d cs) s"

text \<open>The contract an encoder relies on: what is written is appended, whatever the buffer does to its array.\<close>

locale byte_writer =
  fixes d :: "('s, 'sl) ByteBuffer" and winv :: "'s \<Rightarrow> bool" and written :: "'s \<Rightarrow> byte list"
  assumes Malloc_law: "winv s \<Longrightarrow> \<exists>sl s'. op_Malloc d (int (length bs)) s = (Ok sl, s')
      \<and> winv (op_store d sl bs s') \<and> written (op_store d sl bs s') = written s @ bs"
    and WriteString_law: "winv s \<Longrightarrow> \<exists>s'. op_WriteString d bs s = (Ok (int (length bs)), s')
      \<and> winv s' \<and> written s' = written s @ bs"
    and WriteBinary_law: "winv s \<Longrightarrow> \<exists>s'. op_WriteBinary d bs s = (Ok (int (length bs)), s')
      \<and> winv s' \<and> written s' = written s @ bs"
    and WrittenLen_law: "winv s \<Longrightarrow> op_WrittenLen d s = int (length (written s))"
begin

lemma Malloc_bind:
  assumes "winv s" "length bs = n"
  obtains sl s' where "op_Malloc d (int n) s = (Ok sl, s')" "winv (op_store d sl bs s')"
    "written (op_store d sl bs s') = written s @ bs"
  using Malloc_law[OF assms(1), of bs] assms(2) by auto

lemma write_all_law:
  "winv s \<Longrightarrow> \<exists>s'. write_all d cs s = (Ok (), s') \<and> winv s' \<and> written s' = written s @ concat cs"
proof (induction cs arbitrary: s)
  case (Cons c cs)
  obtain s1 where s1: "op_WriteBinary d c s = (Ok (int (length c)), s1)" "winv s1" "written s1 = written s @ c"
    using WriteBinary_law Cons.prems by blast
  then show ?case using Cons.IH[OF s1(2)] by (auto simp: bindP_Ok)
qed simp

end

text \<open>
  The abstract buffer is a queue of bytes; \<open>bop\<close> is one call on the buffer, \<open>bop_run\<close> runs it on the
  code's model and \<open>bop_spec\<close> on the queue.
\<close>

datatype bop = OpWrite "byte list" | OpPeek nat | OpNext nat | OpSkip nat

fun bop_run :: "(nat \<Rightarrow> nat \<Rightarrow> byte) \<Rightarrow> bop \<Rightarrow> (bbuf, berr, byte list) prog" where
  "bop_run junk (OpWrite p) b = bindP (WriteBinary junk p) (\<lambda>_. ret []) b"
| "bop_run junk (OpPeek n) b = Peek (int n) b"
| "bop_run junk (OpNext n) b = Next (int n) b"
| "bop_run junk (OpSkip n) b = bindP (Skip (int n)) (\<lambda>_. ret []) b"

fun bop_spec :: "bop \<Rightarrow> byte list \<Rightarrow> byte list \<times> byte list" where
  "bop_spec (OpWrite p) q = ([], q @ p)"
| "bop_spec (OpPeek n) q = (take n q, q)"
| "bop_spec (OpNext n) q = (take n q, drop n q)"
| "bop_spec (OpSkip n) q = ([], drop n q)"

fun bop_pre :: "bop \<Rightarrow> byte list \<Rightarrow> bool" where
  "bop_pre (OpWrite p) q = True"
| "bop_pre (OpPeek n) q = (n \<le> length q)"
| "bop_pre (OpNext n) q = (n \<le> length q)"
| "bop_pre (OpSkip n) q = (n \<le> length q)"

fun run_bops :: "(nat \<Rightarrow> nat \<Rightarrow> byte) \<Rightarrow> bop list \<Rightarrow> bbuf \<Rightarrow> (berr, byte list) res list" where
  "run_bops junk [] b = []"
| "run_bops junk (x # xs) b = (let (r, b') = bop_run junk x b in r # run_bops junk xs b')"

fun spec_bops :: "bop list \<Rightarrow> byte list \<Rightarrow> byte list list" where
  "spec_bops [] q = []"
| "spec_bops (x # xs) q = (let (r, q') = bop_spec x q in r # spec_bops xs q')"

fun pre_bops :: "bop list \<Rightarrow> byte list \<Rightarrow> bool" where
  "pre_bops [] q = True"
| "pre_bops (x # xs) q = (bop_pre x q \<and> pre_bops xs (snd (bop_spec x q)))"

section \<open>The invariant of the default buffer\<close>

definition buf_wf :: "bbuf \<Rightarrow> bool" where
  "buf_wf b \<longleftrightarrow> 0 \<le> readIdx b \<and> 0 \<le> writeIdx b \<and> writeIdx b \<le> blen b \<and> blen b \<le> cap b
     \<and> (writable b \<longrightarrow> blen b = cap b \<and> 0 < cap b)"

definition bb_rinv :: "bbuf \<Rightarrow> bool" where
  "bb_rinv b \<longleftrightarrow> buf_wf b \<and> readable b \<and> readIdx b \<le> writeIdx b"

definition bb_winv :: "bbuf \<Rightarrow> bool" where
  "bb_winv b \<longleftrightarrow> buf_wf b \<and> writable b"

definition bb_written :: "bbuf \<Rightarrow> byte list" where
  "bb_written b = take (nat (writeIdx b)) (buff b)"

definition bb_pending :: "bbuf \<Rightarrow> byte list" where
  "bb_pending b = drop (nat (readIdx b)) (bb_written b)"

lemmas bb_defs = buf_wf_def bb_rinv_def bb_winv_def bb_written_def bb_pending_def cap_def

lemma length_dirtmake [simp]: "length (dirtmake_Bytes junk a n) = nat n"
  by (simp add: dirtmake_Bytes_def)

lemma grow_done [simp]: "m \<le> c \<Longrightarrow> grow c m = Some c"
  by (simp add: grow.simps)

lemma grow_step: "c < m \<Longrightarrow> grow c m = grow (c * 2) m"
  by (subst grow.simps) simp

lemma grow_terminates:
  assumes "0 < c"
  shows "\<exists>c'. grow c m = Some c' \<and> m \<le> c' \<and> c \<le> c' \<and> (c < m \<longrightarrow> c' < 2 * m)"
  using assms
proof (induction "nat (m - c)" arbitrary: c rule: less_induct)
  case less
  show ?case
  proof (cases "c < m")
    case True
    then have "nat (m - c * 2) < nat (m - c)" "0 < c * 2" using less.prems by auto
    from less.hyps[OF this] obtain c' where
      "grow (c * 2) m = Some c'" "m \<le> c'" "c * 2 \<le> c'" "c * 2 < m \<longrightarrow> c' < 2 * m" by blast
    moreover have "c' = c * 2" if "m \<le> c * 2" using that calculation(1) by simp
    ultimately show ?thesis using True less.prems by (cases "c * 2 < m") (auto simp: grow_step)
  qed simp
qed

lemma grow_zero_diverges: "0 < m \<Longrightarrow> grow 0 m = None"
proof -
  have "c = 0 \<longrightarrow> m \<le> 0" if "grow c m = Some y" for c y
    by (rule grow.raw_induct[where P = "\<lambda>c m y. c = 0 \<longrightarrow> m \<le> 0", OF _ that])
      (auto split: if_splits)
  then show "0 < m \<Longrightarrow> grow 0 m = None" by (cases "grow 0 m") force+
qed

text \<open>The loop on 64-bit integers.\<close>

lemma sint_small: "0 \<le> x \<Longrightarrow> x < 2 ^ 63 \<Longrightarrow> sint (word_of_int x :: 64 word) = x"
  by (simp add: sint_sbintrunc' signed_take_bit_int_eq_self)

lemma grow64_eq:
  assumes "0 < c" "c < 2 ^ 63" "m \<le> 2 ^ 62" "0 \<le> m" "grow c m = Some c'"
  shows "grow64 (word_of_int c) (word_of_int m) = Some (word_of_int c') \<and> c' < 2 ^ 63"
  using assms
proof (induction "nat (m - c)" arbitrary: c rule: less_induct)
  case less
  have s: "sint (word_of_int c :: 64 word) = c" "sint (word_of_int m :: 64 word) = m"
    using less.prems by (simp_all add: sint_small)
  show ?case
  proof (cases "c < m")
    case True
    then have "grow64 (word_of_int (c * 2)) (word_of_int m) = Some (word_of_int c') \<and> c' < 2 ^ 63"
      using less.prems by (intro less.hyps) (auto simp: grow_step)
    then show ?thesis using True s
      by (subst grow64.simps) (simp add: word_sless_alt push_bit_eq_mult mult.commute)
  next
    case False
    then show ?thesis using less.prems s by (subst grow64.simps) (simp add: word_sless_alt)
  qed
qed

lemma grow64_diverges:
  assumes "\<And>c. c \<in> S \<Longrightarrow> c <s m \<and> push_bit 1 c \<in> S" "c \<in> S"
  shows "grow64 c m = None"
proof -
  have "c' \<in> S \<longrightarrow> m' \<noteq> m" if "grow64 c' m' = Some y" for c' m' y
    by (rule grow64.raw_induct[where P = "\<lambda>c' m' y. c' \<in> S \<longrightarrow> m' \<noteq> m", OF _ that])
      (use assms(1) in \<open>auto split: if_splits\<close>)
  then show ?thesis using assms(2) by (cases "grow64 c m") auto
qed

lemma grow64_zero: "0 <s m \<Longrightarrow> grow64 0 m = None"
  by (rule grow64_diverges[of "{0}"]) auto

lemma grow64_overflow:
  assumes "2 ^ 62 <s m" "k \<le> 62"
  shows "grow64 (2 ^ k) m = None"
proof (rule grow64_diverges[of "insert 0 ((\<lambda>j. 2 ^ j) ` {..63})"])
  have p: "sint (2 ^ j :: 64 word) \<le> 2 ^ 62" if "j \<le> 63" for j :: nat
  proof (cases "j = 63")
    case False
    then have "(2 :: int) ^ j \<le> 2 ^ 62" using that by (intro power_increasing) auto
    then show ?thesis using sint_small[of "2 ^ j"] by simp
  qed simp
  have m: "2 ^ 62 < sint m" using assms(1) by (simp add: word_sless_alt)
  fix c :: "64 word" assume "c \<in> insert 0 ((\<lambda>j. 2 ^ j) ` {..63})"
  then consider "c = 0" | j where "c = 2 ^ j" "j \<le> 63" by auto
  then show "c <s m \<and> push_bit 1 c \<in> insert 0 ((\<lambda>j. 2 ^ j) ` {..63})"
  proof cases
    case 2
    have "push_bit 1 c = 0" if "j = 63" using 2 that by simp
    moreover have "push_bit 1 c \<in> (\<lambda>j. 2 ^ j) ` {..63}" if "j \<noteq> 63"
      using 2 that by (intro image_eqI[of _ _ "Suc j"]) (simp_all add: push_bit_eq_mult)
    ultimately have "push_bit 1 c \<in> insert 0 ((\<lambda>j. 2 ^ j) ` {..63})" by (cases "j = 63") simp_all
    moreover have "sint c < sint m" using p[OF 2(2)] m unfolding 2(1) by linarith
    ultimately show ?thesis by (simp add: word_sless_alt)
  qed (use m in \<open>simp add: word_sless_alt\<close>)
qed (use assms(2) in auto)

lemma ensureWritable_ok:
  assumes "bb_winv b" "0 \<le> n"
  shows "\<exists>b'. ensureWritable junk n b = (Ok (), b') \<and> bb_winv b' \<and> writeIdx b' = writeIdx b
     \<and> writeIdx b' + n \<le> cap b' \<and> bb_written b' = bb_written b \<and> status b' = status b
     \<and> readIdx b' = readIdx b"
proof (cases "writableLen b \<ge> n")
  case True
  with assms show ?thesis by (auto simp: ensureWritable_def bb_defs writableLen_def)
next
  case False
  from assms have c: "0 < cap b" "0 \<le> writeIdx b" "writeIdx b \<le> cap b" "blen b = cap b"
    by (auto simp: bb_defs)
  obtain c' where c': "grow (cap b) (writeIdx b + n) = Some c'" "writeIdx b + n \<le> c'" "cap b \<le> c'"
    using grow_terminates[OF c(1)] by blast
  with False c assms show ?thesis
    by (auto simp: ensureWritable_def bb_defs copy_into_def overwrite_def min_def writable_def)
qed

lemma slice_of_Some: "0 \<le> lo \<Longrightarrow> lo \<le> hi \<Longrightarrow> hi \<le> cap b \<Longrightarrow>
    slice_of b lo hi = Some (take (nat (hi - lo)) (drop (nat lo) (buff b)))"
  by (simp add: slice_of_def)

lemma copy_at_end_ok:
  assumes "bb_winv b" "writeIdx b + int (length p) \<le> cap b"
  shows "\<exists>b'. copy_at_end (int (length p)) p b = (Ok (int (length p)), b') \<and> bb_winv b'
     \<and> bb_written b' = bb_written b @ p \<and> readIdx b' = readIdx b \<and> status b' = status b"
  using assms
  by (auto simp: copy_at_end_def slice_of_def bb_defs writable_def nat_add_distrib take_overwrite
      overwrite_def)

lemma WriteBinary_ok:
  assumes "bb_winv b"
  shows "\<exists>b'. WriteBinary junk p b = (Ok (int (length p)), b') \<and> bb_winv b' \<and> bb_written b' = bb_written b @ p
     \<and> readIdx b' = readIdx b \<and> status b' = status b"
proof -
  obtain b1 where b1: "ensureWritable junk (int (length p)) b = (Ok (), b1)" "bb_winv b1"
      "writeIdx b1 + int (length p) \<le> cap b1" "bb_written b1 = bb_written b"
      "status b1 = status b" "readIdx b1 = readIdx b"
    using ensureWritable_ok[OF assms, of "int (length p)" junk] by auto
  show ?thesis
    using copy_at_end_ok[OF b1(2,3)] b1(1,4-6) assms by (auto simp: WriteBinary_def bindP_Ok bb_winv_def)
qed

lemma WriteString_eq_WriteBinary:
  "writable b \<Longrightarrow> WriteString junk p b = WriteBinary junk p b"
  by (simp add: WriteString_def WriteBinary_def)

lemma Malloc_ok:
  assumes "bb_winv b" "0 \<le> n"
  shows "\<exists>sl b'. Malloc junk n b = (Ok sl, b') \<and> bb_winv b' \<and> s_arr sl = arr b'
    \<and> s_off sl = int (length (bb_written b)) \<and> s_len sl = n \<and> writeIdx b' = int (length (bb_written b)) + n
    \<and> take (length (bb_written b)) (buff b') = bb_written b"
proof -
  obtain b1 where b1: "ensureWritable junk n b = (Ok (), b1)" "bb_winv b1"
      "writeIdx b1 + n \<le> cap b1" "bb_written b1 = bb_written b"
    using ensureWritable_ok[OF assms, of junk] by auto
  have "int (length (bb_written b)) = writeIdx b1"
    unfolding b1(4)[symmetric] using b1(2) by (auto simp: bb_defs)
  moreover have "take (nat (writeIdx b1)) (buff b1) = bb_written b" using b1(4) by (simp add: bb_written_def)
  ultimately show ?thesis
    using b1 assms by (auto simp: Malloc_def bindP_Ok Let_def slice_of_def bb_defs writable_def)
qed

lemma store_last:
  assumes "bb_winv b" "s_arr sl = arr b" "s_off sl = int k" "s_len sl = int (length bs)"
    "writeIdx b = int (k + length bs)"
  shows "bb_winv (store sl bs b) \<and> bb_written (store sl bs b) = take k (buff b) @ bs"
  using assms by (auto simp: store_def bb_defs writable_def overwrite_def take_overwrite nat_add_distrib)

interpretation bbw: byte_writer "default_ops junk" bb_winv bb_written for junk
proof unfold_locales
  fix s bs assume w: "bb_winv s"
  then show wb: "\<exists>s'. op_WriteBinary (default_ops junk) bs s = (Ok (int (length bs)), s') \<and> bb_winv s'
      \<and> bb_written s' = bb_written s @ bs"
    using WriteBinary_ok[OF w, of junk bs] by (auto simp: default_ops_def)
  from w wb show "\<exists>s'. op_WriteString (default_ops junk) bs s = (Ok (int (length bs)), s') \<and> bb_winv s'
      \<and> bb_written s' = bb_written s @ bs"
    by (simp add: default_ops_def WriteString_eq_WriteBinary bb_winv_def[of s])
  from w show "op_WrittenLen (default_ops junk) s = int (length (bb_written s))"
    by (auto simp: default_ops_def WrittenLen_def bb_defs)
  obtain sl b' where m: "Malloc junk (int (length bs)) s = (Ok sl, b')" "bb_winv b'" "s_arr sl = arr b'"
     "s_off sl = int (length (bb_written s))" "s_len sl = int (length bs)"
     "writeIdx b' = int (length (bb_written s)) + int (length bs)"
     "take (length (bb_written s)) (buff b') = bb_written s"
    using Malloc_ok[OF w, of "int (length bs)" junk] by auto
  with store_last[of b' sl "length (bb_written s)" bs]
  show "\<exists>sl s'. op_Malloc (default_ops junk) (int (length bs)) s = (Ok sl, s') \<and>
      bb_winv (op_store (default_ops junk) sl bs s') \<and>
      bb_written (op_store (default_ops junk) sl bs s') = bb_written s @ bs"
    by (auto simp: default_ops_def)
qed

lemma length_bb_pending: "bb_rinv b \<Longrightarrow> int (length (bb_pending b)) = writeIdx b - readIdx b"
  by (auto simp: bb_defs)

lemma bb_slice:
  assumes "bb_rinv b" "n \<le> length (bb_pending b)"
  shows "slice_of b (readIdx b) (readIdx b + int n) = Some (take n (bb_pending b))"
proof -
  from assms have "readIdx b + int n \<le> writeIdx b" using length_bb_pending by force
  with assms(1) show ?thesis
    by (auto simp: slice_of_def bb_defs take_drop nat_add_distrib min_def)
qed

lemma readableCheck_None: "bb_rinv b \<Longrightarrow> n \<le> length (bb_pending b) \<Longrightarrow> readableCheck b (int n) = None"
  using length_bb_pending[of b] by (auto simp: readableCheck_def ReadableLen_def bb_rinv_def)

lemma readableCheck_Some:
  "bb_rinv b \<Longrightarrow> int (length (bb_pending b)) < n \<Longrightarrow> \<exists>e. readableCheck b n = Some e"
  using length_bb_pending[of b] by (auto simp: readableCheck_def ReadableLen_def bb_rinv_def)

lemma advance:
  assumes "bb_rinv b" "n \<le> length (bb_pending b)"
  shows "bb_rinv (b\<lparr>readIdx := readIdx b + int n\<rparr>)
       \<and> bb_pending (b\<lparr>readIdx := readIdx b + int n\<rparr>) = drop n (bb_pending b)"
  using assms length_bb_pending[OF assms(1)]
  by (auto simp: bb_defs readable_def writable_def nat_add_distrib add.commute)

lemma Peek_ok: "bb_rinv b \<Longrightarrow> n \<le> length (bb_pending b) \<Longrightarrow> Peek (int n) b = (Ok (take n (bb_pending b)), b)"
  by (simp add: Peek_def readableCheck_None bb_slice bb_rinv_def[of b])

lemma Next_ok: "bb_rinv b \<Longrightarrow> n \<le> length (bb_pending b) \<Longrightarrow>
    Next (int n) b = (Ok (take n (bb_pending b)), b\<lparr>readIdx := readIdx b + int n\<rparr>)"
  by (simp add: Next_def Peek_ok bb_rinv_def[of b])

lemma Peek_err: "bb_rinv b \<Longrightarrow> int (length (bb_pending b)) < n \<Longrightarrow> \<exists>e. Peek n b = (Err e, b)"
  using readableCheck_Some[of b n] by (auto simp: Peek_def bb_rinv_def)

lemma Next_err: "bb_rinv b \<Longrightarrow> int (length (bb_pending b)) < n \<Longrightarrow>
    \<exists>e. Next n b = (Err e, b\<lparr>readIdx := readIdx b + n\<rparr>)"
  using Peek_err[of b n] by (auto simp: Next_def bb_rinv_def)

lemma ReadString_ok: "bb_rinv b \<Longrightarrow> n \<le> length (bb_pending b) \<Longrightarrow>
    ReadString (int n) b = (Ok (take n (bb_pending b)), b\<lparr>readIdx := readIdx b + int n\<rparr>)"
  using Next_ok[of b n] by (simp add: ReadString_def bindP_Ok bb_rinv_def[of b])

lemma ReadString_err: "bb_rinv b \<Longrightarrow> int (length (bb_pending b)) < n \<Longrightarrow> \<exists>e b'. ReadString n b = (Err e, b')"
  using Next_err[of b n] by (auto simp: ReadString_def bindP_Err bb_rinv_def)

interpretation bbr: byte_reader "default_ops junk" bb_rinv bb_pending for junk
proof unfold_locales
  fix s :: bbuf and n :: nat assume r: "bb_rinv s"
  show "op_ReadableLen (default_ops junk) s = int (length (bb_pending s))"
    using r length_bb_pending[OF r] by (simp add: default_ops_def ReadableLen_def bb_rinv_def)
  { assume n: "n \<le> length (bb_pending s)"
    show "\<exists>s'. op_Next (default_ops junk) (int n) s = (Ok (take n (bb_pending s)), s') \<and> bb_rinv s'
        \<and> bb_pending s' = drop n (bb_pending s)"
      using advance[OF r n] Next_ok[OF r n] by (auto simp: default_ops_def)
    show "op_Peek (default_ops junk) (int n) s = (Ok (take n (bb_pending s)), s)"
      using Peek_ok[OF r n] by (simp add: default_ops_def)
    show "\<exists>s'. op_Skip (default_ops junk) (int n) s = (Ok (), s') \<and> bb_rinv s'
        \<and> bb_pending s' = drop n (bb_pending s)"
      using advance[OF r n] r readableCheck_None[OF r n] by (auto simp: default_ops_def Skip_def bb_rinv_def)
    show "\<exists>s'. op_ReadString (default_ops junk) (int n) s = (Ok (take n (bb_pending s)), s') \<and> bb_rinv s'
        \<and> bb_pending s' = drop n (bb_pending s)"
      using advance[OF r n] ReadString_ok[OF r n] by (auto simp: default_ops_def) }
  { assume n: "length (bb_pending s) < n"
    then show "\<exists>e s'. op_Next (default_ops junk) (int n) s = (Err e, s')"
      using Next_err[OF r, of "int n"] by (auto simp: default_ops_def)
    from n show "\<exists>e. op_Peek (default_ops junk) (int n) s = (Err e, s)"
      using Peek_err[OF r, of "int n"] by (simp add: default_ops_def)
    from n show "\<exists>e s'. op_ReadString (default_ops junk) (int n) s = (Err e, s')"
      using ReadString_err[OF r, of "int n"] by (simp add: default_ops_def) }
qed

lemma bop_simulation:
  assumes "bb_rinv b" "bb_winv b" "bop_pre x (bb_pending b)"
  shows "\<exists>b'. bop_run junk x b = (Ok (fst (bop_spec x (bb_pending b))), b') \<and> bb_rinv b' \<and> bb_winv b'
    \<and> bb_pending b' = snd (bop_spec x (bb_pending b))"
proof (cases x)
  case (OpWrite p)
  obtain b' where b': "WriteBinary junk p b = (Ok (int (length p)), b')" "bb_winv b'"
    "bb_written b' = bb_written b @ p" "readIdx b' = readIdx b" "status b' = status b"
    using WriteBinary_ok[OF assms(2)] by blast
  have "nat (readIdx b) \<le> length (bb_written b)" "int (length (bb_written b')) = writeIdx b'"
    using assms(1) b'(2) by (auto simp: bb_defs)
  with b' assms(1) show ?thesis
    by (auto simp: OpWrite bindP_Ok bb_pending_def bb_rinv_def readable_def bb_winv_def)
next
  case (OpPeek n)
  with assms show ?thesis by (auto simp: Peek_ok)
next
  case (OpNext n)
  with assms advance[OF assms(1), of n] show ?thesis by (auto simp: Next_ok bb_defs writable_def)
next
  case (OpSkip n)
  with assms advance[OF assms(1), of n] readableCheck_None[OF assms(1), of n] show ?thesis
    by (auto simp: Skip_def bindP_def bb_defs readable_def writable_def)
qed

lemma run_bops_spec:
  "bb_rinv b \<Longrightarrow> bb_winv b \<Longrightarrow> pre_bops xs (bb_pending b) \<Longrightarrow>
    run_bops junk xs b = map Ok (spec_bops xs (bb_pending b))"
proof (induction xs arbitrary: b)
  case (Cons x xs)
  then obtain b' where "bop_run junk x b = (Ok (fst (bop_spec x (bb_pending b))), b')" "bb_rinv b'" "bb_winv b'"
    "bb_pending b' = snd (bop_spec x (bb_pending b))"
    using bop_simulation[of b x] by auto
  with Cons.IH[of b'] Cons.prems show ?case by (simp add: split_beta)
qed simp

lemma bit_status [simp]:
  "(1 :: int) AND 1 \<noteq> 0" "(2 :: int) AND 2 \<noteq> 0" "((1 :: int) OR 2) AND 1 \<noteq> 0" "((1 :: int) OR 2) AND 2 \<noteq> 0"
  by simp_all

lemma new_rw: "bb_rinv (newReaderWriterByteBuffer junk b n) \<and> bb_winv (newReaderWriterByteBuffer junk b n)
    \<and> bb_pending (newReaderWriterByteBuffer junk b n) = []"
  by (auto simp: newReaderWriterByteBuffer_def bb_defs readable_def writable_def BitReadable_def BitWritable_def Let_def)

lemma new_w: "0 \<le> readIdx b \<Longrightarrow> bb_winv (newWriterByteBuffer junk b n) \<and> bb_written (newWriterByteBuffer junk b n) = []"
  by (auto simp: newWriterByteBuffer_def bb_defs writable_def BitWritable_def Let_def)

lemma new_r: "bb_rinv (newReaderByteBuffer b bs) \<and> bb_pending (newReaderByteBuffer b bs) = bs"
  by (auto simp: newReaderByteBuffer_def bb_defs readable_def writable_def BitReadable_def BitWritable_def)

lemma Bytes_ok: "bb_winv b \<Longrightarrow> Bytes b = (Ok (bb_written b), b)"
  by (auto simp: Bytes_def slice_of_def bb_defs)

lemma Malloc_stale: "s_arr sl \<noteq> arr b \<Longrightarrow> store sl bs b = b"
  by (simp add: store_def)

section \<open>Properties\<close>

text \<open>C19. A read-write buffer is a FIFO byte queue: any sequence of writes, peeks, reads and skips within the
  bytes available returns exactly what the abstract queue returns, for every initial size and however
  often the backing array is regrown with unspecified contents.\<close>

theorem buffer_refines_queue:
  assumes "pre_bops ops []"
  shows "run_bops junk ops (newReaderWriterByteBuffer junk b n) = map Ok (spec_bops ops [])"
  using run_bops_spec[of "newReaderWriterByteBuffer junk b n" ops junk] new_rw[of junk b n] assms by auto

theorem buffer_refines_queue_witness:
  "pre_bops [OpWrite [1, 2, 3], OpPeek 2, OpNext 1, OpWrite [4], OpSkip 1, OpNext 2] []
   \<and> run_bops (\<lambda>_ _. 7) [OpWrite [1, 2, 3], OpPeek 2, OpNext 1, OpWrite [4], OpSkip 1, OpNext 2]
       (newReaderWriterByteBuffer (\<lambda>_ _. 7) newDefaultByteBuffer 2)
     = [Ok [], Ok [1, 2], Ok [1], Ok [], Ok [], Ok [3, 4]]"
  using buffer_refines_queue[of "[OpWrite [1, 2, 3], OpPeek 2, OpNext 1, OpWrite [4], OpSkip 1, OpNext 2]"
      "\<lambda>_ _. 7" newDefaultByteBuffer 2] by simp

text \<open>Writing chunks to a fresh writer and asking for its bytes gives their concatenation: no write is lost,
  reordered or rejected, the growth loop always ends, and unspecified bytes never show.\<close>

lemma writer_concatenates:
  "\<exists>b'. write_all (default_ops junk) chunks (newWriterByteBuffer junk newDefaultByteBuffer n) = (Ok (), b')
      \<and> Bytes b' = (Ok (concat chunks), b') \<and> WrittenLen b' = int (length (concat chunks))"
proof -
  have w: "bb_winv (newWriterByteBuffer junk newDefaultByteBuffer n)"
    "bb_written (newWriterByteBuffer junk newDefaultByteBuffer n) = []"
    using new_w[of newDefaultByteBuffer junk n] by (auto simp: newDefaultByteBuffer_def)
  then obtain b' where "write_all (default_ops junk) chunks (newWriterByteBuffer junk newDefaultByteBuffer n) = (Ok (), b')"
    "bb_winv b'" "bb_written b' = concat chunks" using bbw.write_all_law[OF w(1)] by fastforce
  then show ?thesis using Bytes_ok[of b'] bbw.WrittenLen_law[of b'] by (auto simp: default_ops_def)
qed

text \<open>C35. For a writable buffer, whose capacity is positive, and a size of at most 2 ^ 62 bytes, the growth loop on 64-bit
  integers ends; the buffer then has the capacity the loop found, keeps the bytes written, has the requested room, and
  stays below twice the size needed. The two bounds are sharp: from capacity 0 the loop never ends, and a capacity
  that is a power of two never grows beyond 2 ^ 62.\<close>

theorem ensureWritable_grows:
  assumes "bb_winv b" and "0 \<le> n" and "cap b < writeIdx b + n" and "writeIdx b + n \<le> 2 ^ 62"
  shows "(\<exists>b'. grow64 (word_of_int (cap b)) (word_of_int (writeIdx b + n)) = Some (word_of_int (cap b'))
           \<and> ensureWritable junk n b = (Ok (), b') \<and> bb_winv b' \<and> bb_written b' = bb_written b
           \<and> writeIdx b + n \<le> cap b' \<and> cap b' < 2 * (writeIdx b + n))
     \<and> (\<forall>m. 0 <s m \<longrightarrow> grow64 0 m = None) \<and> (\<forall>k m. k \<le> 62 \<and> 2 ^ 62 <s m \<longrightarrow> grow64 (2 ^ k) m = None)"
proof -
  obtain b' where b': "ensureWritable junk n b = (Ok (), b')" "bb_winv b'" "writeIdx b + n \<le> cap b'"
    "bb_written b' = bb_written b"
    using ensureWritable_ok[OF assms(1,2), of junk] by auto
  have w: "0 < cap b" "writable b" "0 \<le> writeIdx b" using assms(1) by (auto simp: bb_defs)
  obtain c where c: "grow (cap b) (writeIdx b + n) = Some c" "c < 2 * (writeIdx b + n)" "cap b \<le> c"
    using grow_terminates[OF w(1), of "writeIdx b + n"] assms(3) by blast
  have "grow64 (word_of_int (cap b)) (word_of_int (writeIdx b + n)) = Some (word_of_int c)"
    using grow64_eq[OF w(1) _ assms(4) _ c(1)] assms(2-4) w(3) by simp
  moreover have "cap b' = c"
    using b'(1) assms(3) w c by (auto simp: ensureWritable_def writableLen_def cap_def copy_into_def)
  ultimately show ?thesis using b' c(2) grow64_zero grow64_overflow by auto
qed

theorem ensureWritable_grows_witness:
  "let b = newWriterByteBuffer (\<lambda>_ _. 0) newDefaultByteBuffer 3 in
   \<exists>b'. ensureWritable (\<lambda>_ _. 0) 10 b = (Ok (), b') \<and> cap b' < 2 * (writeIdx b + 10)"
  using ensureWritable_grows[of "newWriterByteBuffer (\<lambda>_ _. 0) newDefaultByteBuffer 3" 10 "\<lambda>_ _. 0"]
    new_w[of newDefaultByteBuffer "\<lambda>_ _. 0" 3]
  by (auto simp: newWriterByteBuffer_def newDefaultByteBuffer_def cap_def Let_def)

text \<open>Asking \<open>Next\<close> for more than is left fails but still moves the read index: the buffer then reports a
  negative readable length and every later \<open>Read\<close> panics on an inverted slice.\<close>

lemma Next_overrun_poisons:
  assumes "bb_rinv b" and "ReadableLen b < n"
  shows "\<exists>e b'. Next n b = (Err e, b') \<and> ReadableLen b' = ReadableLen b - n \<and> ReadableLen b' < 0
           \<and> (\<forall>p. Read p b' = (Panic, b'))"
proof -
  have len: "int (length (bb_pending b)) = ReadableLen b"
    using bbr.ReadableLen_law[OF assms(1)] by (simp add: default_ops_def)
  obtain e where e: "Next n b = (Err e, b\<lparr>readIdx := readIdx b + n\<rparr>)"
    using Next_err[OF assms(1)] len assms(2) by auto
  have r: "readable b" "0 \<le> readIdx b" "readIdx b \<le> writeIdx b" using assms(1) by (auto simp: bb_defs)
  let ?b = "b\<lparr>readIdx := readIdx b + n\<rparr>"
  have rl: "ReadableLen ?b = ReadableLen b - n" using r(1) by (simp add: ReadableLen_def readable_def)
  have "Next (ReadableLen ?b) ?b = (Panic, ?b)"
    using r assms(2) rl by (simp add: Next_def Peek_def readableCheck_def slice_of_def readable_def ReadableLen_def)
  then have "Read p ?b = (Panic, ?b)" for p
    using r(1) rl assms(2) by (simp add: Read_def Let_def readable_def bindP_Panic)
  with e rl assms(2) show ?thesis by auto
qed

lemma Next_overrun_poisons_example:
  "\<exists>e b'. Next 3 (newReaderByteBuffer newDefaultByteBuffer [1, 2]) = (Err e, b') \<and> Read [0] b' = (Panic, b')"
  using Next_overrun_poisons[of "newReaderByteBuffer newDefaultByteBuffer [1, 2]" 3]
    new_r[of newDefaultByteBuffer "[1, 2]"]
  by (auto simp: newReaderByteBuffer_def ReadableLen_def readable_def BitReadable_def)

text \<open>The growth loop of \<open>AppendBuffer\<close>, which does not check writability, never ends on a buffer without
  capacity: appending a non-empty buffer to a released one hangs.\<close>

lemma AppendBuffer_released_hangs:
  assumes "0 < writeIdx sub"
  shows "AppendBuffer junk sub (Release b) = (Diverge, Release b, sub)"
  using assms by (simp add: AppendBuffer_def Release_def zero_buf_def ensureWritable_def writableLen_def
      writable_def cap_def grow_zero_diverges bindP_def)

lemma AppendBuffer_released_hangs_example:
  "AppendBuffer (\<lambda>_ _. 0) (newReaderByteBuffer newDefaultByteBuffer [1]) (Release newDefaultByteBuffer)
   = (Diverge, Release newDefaultByteBuffer, newReaderByteBuffer newDefaultByteBuffer [1])"
  by (rule AppendBuffer_released_hangs) (simp add: newReaderByteBuffer_def)

end
