(* ===== verification/Codec.thy ===== *)
theory Codec
  imports ByteBuf
begin

text \<open>
  The wire helpers and the default codec of \<^verbatim>\<open>pkg/remote/codec\<close>: fixed-width and length-prefixed values
  (\<^verbatim>\<open>bytebuf_util.go\<close>), the mesh header and its key-value section (\<^verbatim>\<open>header_codec.go\<close>), sequence and message
  type checks (\<^verbatim>\<open>util.go\<close>), payload checksums (\<^verbatim>\<open>validate.go\<close>), and encoding, protocol sniffing and decoding
  (\<^verbatim>\<open>default_codec.go\<close>). Everything is over an arbitrary \<^verbatim>\<open>ByteBuffer\<close>; TTHeader encoding and decoding
  belong to another module and are parameters.
\<close>

section \<open>Fixed-width and length-prefixed values\<close>

definition Size32 :: int where "Size32 = 4"

definition Size16 :: int where "Size16 = 2"

definition pure_res :: "('e, 'a) res \<Rightarrow> ('s, 'e, 'a) prog" where
  "pure_res r = (\<lambda>s. (r, s))"

definition ReadUint32 :: "('s, 'sl) ByteBuffer \<Rightarrow> ('s, berr, u32) prog" where
  "ReadUint32 d = bindP (op_Next d Size32) (\<lambda>buf. pure_res (of_option (Uint32 buf)))"

definition PeekUint32 :: "('s, 'sl) ByteBuffer \<Rightarrow> ('s, berr, u32) prog" where
  "PeekUint32 d = bindP (op_Peek d Size32) (\<lambda>buf. pure_res (of_option (Uint32 buf)))"

definition ReadUint16 :: "('s, 'sl) ByteBuffer \<Rightarrow> ('s, berr, u16) prog" where
  "ReadUint16 d = bindP (op_Next d Size16) (\<lambda>buf. pure_res (of_option (Uint16 buf)))"

definition WriteUint32 :: "('s, 'sl) ByteBuffer \<Rightarrow> u32 \<Rightarrow> ('s, berr, unit) prog" where
  "WriteUint32 d val = bindP (op_Malloc d Size32) (\<lambda>buf s. (Ok (), op_store d buf (PutUint32 val) s))"

definition WriteUint16 :: "('s, 'sl) ByteBuffer \<Rightarrow> u16 \<Rightarrow> ('s, berr, unit) prog" where
  "WriteUint16 d val = bindP (op_Malloc d Size16) (\<lambda>buf s. (Ok (), op_store d buf (PutUint16 val) s))"

definition WriteByte :: "('s, 'sl) ByteBuffer \<Rightarrow> byte \<Rightarrow> ('s, berr, unit) prog" where
  "WriteByte d val = bindP (op_Malloc d 1) (\<lambda>buf s. (Ok (), op_store d buf [val] s))"

definition Bytes2Uint32 :: "byte list \<Rightarrow> (berr, u32) res" where
  "Bytes2Uint32 bytes = (if length bytes < 4 then Err EOF else of_option (Uint32 bytes))"

text \<open>An offset into a slice is a position the callers have already read up to, so it is a \<open>nat\<close>.\<close>

definition Bytes2Uint16 :: "byte list \<Rightarrow> nat \<Rightarrow> (berr, u16) res" where
  "Bytes2Uint16 bytes off =
     (if int (length bytes) - int off < 2 then Err EOF else of_option (Uint16 (drop off bytes)))"

definition Bytes2Uint8 :: "byte list \<Rightarrow> nat \<Rightarrow> (berr, byte) res" where
  "Bytes2Uint8 bytes off =
     (if int (length bytes) - int off < 1 then Err EOF else of_option (Uint8 (drop off bytes)))"

definition codec_ReadString :: "('s, 'sl) ByteBuffer \<Rightarrow> ('s, berr, gostring \<times> int) prog" where
  "codec_ReadString d =
     bindP (ReadUint32 d) (\<lambda>strLen.
       if strLen = 0 then throw (ErrorsNew ''invalid string length in ReadString'')
       else bindP (op_ReadString d (uint strLen)) (\<lambda>str. ret (str, uint strLen + Size32)))"

definition codec_WriteString :: "('s, 'sl) ByteBuffer \<Rightarrow> gostring \<Rightarrow> ('s, berr, int) prog" where
  "codec_WriteString d val =
     bindP (WriteUint32 d (of_nat (length val))) (\<lambda>_.
       bindP (op_WriteString d val) (\<lambda>n. ret (n + 4)))"

definition WriteString2BLen :: "('s, 'sl) ByteBuffer \<Rightarrow> gostring \<Rightarrow> ('s, berr, int) prog" where
  "WriteString2BLen d val =
     bindP (WriteUint16 d (of_nat (length val))) (\<lambda>_.
       bindP (op_WriteString d val) (\<lambda>n. ret (n + 2)))"

definition ReadString2BLen :: "byte list \<Rightarrow> nat \<Rightarrow> (berr, gostring \<times> nat) res" where
  "ReadString2BLen bytes off =
     bindR (Bytes2Uint16 bytes off) (\<lambda>length16.
       let strLen = unat length16; off = off + 2 in
       if int (length bytes) - int off < int strLen then Err EOF
       else Ok (take strLen (drop off bytes), strLen + 2))"

section \<open>The key-value section\<close>

text \<open>
  \<open>readStrKVInfo\<close> returns its result together with the index and the map, both of which it updates
  in place: an error leaves the entries read before it in the map.
\<close>

fun readKVs :: "nat \<Rightarrow> byte list \<Rightarrow> nat \<Rightarrow> (gostring \<rightharpoonup> gostring) \<Rightarrow>
    (berr, bool) res \<times> nat \<times> (gostring \<rightharpoonup> gostring)" where
  "readKVs 0 buf idx info = (Ok True, idx, info)"
| "readKVs (Suc i) buf idx info =
     (case ReadString2BLen buf idx of
        Ok (key, n) \<Rightarrow>
          (case ReadString2BLen buf (idx + n) of
             Ok (val, n') \<Rightarrow> readKVs i buf (idx + n + n') (info(key \<mapsto> val))
           | Err e \<Rightarrow> (Err (Wrapped ''error reading str kv info'' e), idx + n, info)
           | Panic \<Rightarrow> (Panic, idx + n, info)
           | Diverge \<Rightarrow> (Diverge, idx + n, info))
      | Err e \<Rightarrow> (Err (Wrapped ''error reading str kv info'' e), idx, info)
      | Panic \<Rightarrow> (Panic, idx, info)
      | Diverge \<Rightarrow> (Diverge, idx, info))"

definition readStrKVInfo :: "nat \<Rightarrow> byte list \<Rightarrow> (gostring \<rightharpoonup> gostring) \<Rightarrow>
    (berr, bool) res \<times> nat \<times> (gostring \<rightharpoonup> gostring)" where
  "readStrKVInfo idx buf info =
     (case Bytes2Uint16 buf idx of
        Ok kvSize \<Rightarrow>
          if kvSize \<le> 0 then (Ok False, idx + 2, info) else readKVs (unat kvSize) buf (idx + 2) info
      | Err e \<Rightarrow> (Err (Wrapped ''error reading str kv info size'' e), idx + 2, info)
      | Panic \<Rightarrow> (Panic, idx, info)
      | Diverge \<Rightarrow> (Diverge, idx, info))"

section \<open>Messages\<close>

datatype rpc_role = Client | Server

datatype payload_codec = Thrift | Protobuf | Hessian2

text \<open>
  What the codecs read and write of a \<^verbatim>\<open>remote.Message\<close> and the \<^verbatim>\<open>rpcinfo\<close> behind it. The flags \<open>has_from\<close>,
  \<open>has_to\<close>, \<open>has_remote\<close>, \<open>has_setter\<close>, \<open>has_cfg\<close> and \<open>has_stats\<close> tell whether the corresponding conversion to
  a mutable interface succeeds.
\<close>

record message =
  m_role :: rpc_role
  m_type :: int
  m_payloadLen :: int
  m_strInfo :: "gostring \<rightharpoonup> gostring"
  m_intInfo :: "u16 \<rightharpoonup> gostring"
  m_flags :: "u16 option"
  m_mesh :: bool
  m_seqID :: u32
  m_proto :: int
  m_codec :: payload_codec
  m_svcName :: gostring
  m_fromAddr :: gostring
  m_fromService :: gostring
  m_fromMethod :: gostring
  m_toAddr :: gostring
  m_toService :: gostring
  m_toMethod :: gostring
  m_sendSize :: u64
  m_recvSize :: u64
  has_from :: bool
  has_to :: bool
  has_remote :: bool
  has_setter :: bool
  has_cfg :: bool
  has_stats :: bool

definition PurePayload :: int where "PurePayload = 0"

definition TTHeader :: int where "TTHeader = 2"

definition Framed :: int where "Framed = 4"

definition TTHeaderFramed :: int where "TTHeaderFramed = TTHeader OR Framed"

definition Call :: int where "Call = 1"

definition Reply :: int where "Reply = 2"

definition Exception :: int where "Exception = 3"

definition Oneway :: int where "Oneway = 4"

definition Stream :: int where "Stream = 5"

text \<open>A map lookup of a missing key gives the empty string.\<close>

definition get0 :: "('k \<rightharpoonup> gostring) \<Rightarrow> 'k \<Rightarrow> gostring" where
  "get0 m k = (case m k of Some v \<Rightarrow> v | None \<Rightarrow> [])"

definition HeaderTransRemoteAddr :: gostring where "HeaderTransRemoteAddr = bytes_of ''rip''"

definition HeaderIDLServiceName :: gostring where "HeaderIDLServiceName = bytes_of ''isn''"

definition LogID :: u16 where "LogID = 2"

definition FromService :: u16 where "FromService = 3"

definition ToService :: u16 where "ToService = 6"

definition ToMethod :: u16 where "ToMethod = 9"

definition FromMethod :: u16 where "FromMethod = 20"

definition fillBasicInfoOfTTHeader :: "message \<Rightarrow> message" where
  "fillBasicInfoOfTTHeader msg =
     (if m_role msg = Server then
        let msg = (if has_from msg then
                     let v = get0 (m_strInfo msg) HeaderTransRemoteAddr;
                         msg = (if v \<noteq> [] then msg\<lparr>m_fromAddr := v\<rparr> else msg);
                         w = get0 (m_intInfo msg) FromService
                     in (if w \<noteq> [] then msg\<lparr>m_fromService := w\<rparr> else msg)
                   else msg)
        in (if has_setter msg then
              (case m_strInfo msg HeaderIDLServiceName of
                 Some svcName \<Rightarrow> msg\<lparr>m_svcName := svcName\<rparr>
               | None \<Rightarrow> msg)
            else msg)
      else if has_remote msg then
        let v = get0 (m_strInfo msg) HeaderTransRemoteAddr in
        (if v \<noteq> [] then msg\<lparr>m_toAddr := v\<rparr> else msg)
      else msg)"

definition SetOrCheckSeqID :: "u32 \<Rightarrow> message \<Rightarrow> (berr, unit) res \<times> message" where
  "SetOrCheckSeqID seqID msg =
     (if m_type msg = Call \<or> m_type msg = Oneway then
        (if has_setter msg then (Ok (), msg\<lparr>m_seqID := seqID\<rparr>)
         else (Err (ErrorsNew ''the interface Invocation does not implement InvocationSetter''), msg))
      else if m_type msg = Reply then
        (if m_seqID msg \<noteq> seqID then (Err (ErrorsNew ''out of order sequence response''), msg) else (Ok (), msg))
      else (Ok (), msg))"

definition UpdateMsgType :: "u32 \<Rightarrow> message \<Rightarrow> (berr, unit) res \<times> message" where
  "UpdateMsgType msgType msg =
     (let mt = sint msgType in
      if mt = m_type msg then (Ok (), msg)
      else if m_role msg = Server then
        (if mt \<noteq> Call \<and> mt \<noteq> Oneway \<and> mt \<noteq> Stream
         then (Err (ErrorsNew ''server side, invalid message type''), msg)
         else (Ok (), msg\<lparr>m_type := mt\<rparr>))
      else
        (if mt \<noteq> Reply \<and> mt \<noteq> Exception \<and> mt \<noteq> Stream
         then (Err (ErrorsNew ''client side, invalid message type''), msg)
         else (Ok (), msg\<lparr>m_type := mt\<rparr>)))"

section \<open>Programs over a buffer and a message\<close>

type_synonym ('s, 'a) cprog = "('s \<times> message, berr, 'a) prog"

definition onBuf :: "('s, berr, 'a) prog \<Rightarrow> ('s, 'a) cprog" where
  "onBuf p = (\<lambda>(s, m). case p s of (r, s') \<Rightarrow> (r, (s', m)))"

definition onMsg :: "(message \<Rightarrow> message) \<Rightarrow> ('s, unit) cprog" where
  "onMsg f = (\<lambda>(s, m). (Ok (), (s, f m)))"

definition withMsg :: "(message \<Rightarrow> ('s, 'a) cprog) \<Rightarrow> ('s, 'a) cprog" where
  "withMsg f = (\<lambda>(s, m). f m (s, m))"

text \<open>\<^verbatim>\<open>if err != nil { return wrap(err) }\<close>\<close>

definition wrapErr :: "(berr \<Rightarrow> berr) \<Rightarrow> ('s, berr, 'a) prog \<Rightarrow> ('s, berr, 'a) prog" where
  "wrapErr w p = (\<lambda>s. case p s of (Err e, s') \<Rightarrow> (Err (w e), s') | (r, s') \<Rightarrow> (r, s'))"

section \<open>Headers\<close>

record EncodeParam =
  e_Flags :: u16
  e_SeqID :: u32
  e_IntInfo :: "u16 \<rightharpoonup> gostring"
  e_StrInfo :: "gostring \<rightharpoonup> gostring"

record DecodeParam =
  d_Flags :: u16
  d_SeqID :: u32
  d_IntInfo :: "u16 \<rightharpoonup> gostring"
  d_StrInfo :: "gostring \<rightharpoonup> gostring"
  d_PayloadLen :: int

text \<open>
  What the codec uses of the module \<^verbatim>\<open>gopkg/protocol/ttheader\<close>, as parameters: its magic numbers and its
  \<^verbatim>\<open>Encode\<close> (which returns the slice of the total length field, or nil) and \<^verbatim>\<open>Decode\<close>.
\<close>

record ('s, 'sl) ttheader =
  TTHeaderMagic :: u32
  MeshHeaderMagic :: u32
  tt_Encode :: "EncodeParam \<Rightarrow> ('s, berr, 'sl option) prog"
  tt_Decode :: "('s, berr, DecodeParam) prog"

definition MagicMask :: u32 where "MagicMask = 0xffff0000"

definition ThriftV1Magic :: u32 where "ThriftV1Magic = 0x80010000"

definition ProtobufV1Magic :: u32 where "ProtobufV1Magic = 0x90010000"

definition getFlags :: "message \<Rightarrow> u16" where
  "getFlags msg = (case m_flags msg of Some f \<Rightarrow> f | None \<Rightarrow> 0)"

definition setFlags :: "u16 \<Rightarrow> message \<Rightarrow> message" where
  "setFlags flags msg = (if m_type msg = Call then msg\<lparr>m_flags := Some flags\<rparr> else msg)"

definition ttHeader_encode :: "('s, 'sl) ttheader \<Rightarrow> ('s, 'sl option) cprog" where
  "ttHeader_encode tt = withMsg (\<lambda>msg.
     wrapErr (Wrapped ''protocol'') (onBuf (tt_Encode tt
       \<lparr>e_Flags = getFlags msg, e_SeqID = m_seqID msg, e_IntInfo = m_intInfo msg, e_StrInfo = m_strInfo msg\<rparr>)))"

text \<open>\<^verbatim>\<open>PutTransIntInfo\<close> and \<^verbatim>\<open>PutTransStrInfo\<close> add the decoded entries to the message's maps.\<close>

definition ttHeader_decode :: "('s, 'sl) ttheader \<Rightarrow> ('s, unit) cprog" where
  "ttHeader_decode tt =
     bindP (wrapErr (Wrapped ''protocol'') (onBuf (tt_Decode tt))) (\<lambda>param.
       onMsg (\<lambda>msg.
         let msg = setFlags (d_Flags param) msg;
             msg = snd (SetOrCheckSeqID (d_SeqID param) msg);
             msg = msg\<lparr>m_intInfo := m_intInfo msg ++ d_IntInfo param\<rparr>;
             msg = msg\<lparr>m_strInfo := m_strInfo msg ++ d_StrInfo param\<rparr>;
             msg = fillBasicInfoOfTTHeader msg
         in msg\<lparr>m_payloadLen := d_PayloadLen param\<rparr>))"

text \<open>The sniffing predicates; a flag buffer that is too short is an index panic.\<close>

definition magic_at :: "nat \<Rightarrow> byte list \<Rightarrow> u32 \<Rightarrow> bool option" where
  "magic_at off flagBuf magic = map_option (\<lambda>w. w AND MagicMask = magic) (Uint32 (drop off flagBuf))"

definition IsTTHeader :: "('s, 'sl) ttheader \<Rightarrow> byte list \<Rightarrow> bool option" where
  "IsTTHeader tt flagBuf = magic_at 4 flagBuf (TTHeaderMagic tt)"

definition isMeshHeader :: "('s, 'sl) ttheader \<Rightarrow> byte list \<Rightarrow> bool option" where
  "isMeshHeader tt flagBuf = magic_at 0 flagBuf (MeshHeaderMagic tt)"

definition isProtobufKitex :: "byte list \<Rightarrow> bool option" where
  "isProtobufKitex flagBuf = magic_at 4 flagBuf ProtobufV1Magic"

definition isThriftBinary :: "byte list \<Rightarrow> bool option" where
  "isThriftBinary flagBuf = magic_at 0 flagBuf ThriftV1Magic"

definition isThriftFramedBinary :: "byte list \<Rightarrow> bool option" where
  "isThriftFramedBinary flagBuf = magic_at 4 flagBuf ThriftV1Magic"

definition meshHeader_decode :: "('s, 'sl) ttheader \<Rightarrow> ('s, 'sl) ByteBuffer \<Rightarrow> ('s, unit) cprog" where
  "meshHeader_decode tt d =
     bindP (wrapErr (Wrapped ''meshHeader read header meta failed'') (onBuf (op_Next d Size32))) (\<lambda>headerMeta.
     bindP (pure_res (of_option (isMeshHeader tt headerMeta))) (\<lambda>is_mesh.
       if \<not> is_mesh then throw (ProtocolError ''not MeshHeader protocol'')
       else
         bindP (pure_res (of_option (Uint16 (drop 2 headerMeta)))) (\<lambda>headerLen.
         bindP (wrapErr (Wrapped ''meshHeader read header buf failed'') (onBuf (op_Next d (uint headerLen)))) (\<lambda>headerInfo.
           \<lambda>(s, m).
             (case readStrKVInfo 0 headerInfo (m_strInfo m) of
                (r, idx, info) \<Rightarrow>
                  (let m' = m\<lparr>m_strInfo := info\<rparr> in
                   case r of
                     Ok _ \<Rightarrow> (Ok (), (s, fillBasicInfoOfTTHeader m'))
                   | Err e \<Rightarrow> (Err (Wrapped ''meshHeader read kv info failed'' e), (s, m'))
                   | Panic \<Rightarrow> (Panic, (s, m'))
                   | Diverge \<Rightarrow> (Diverge, (s, m'))))))))"

section \<open>Payload checks\<close>

definition checkPayloadSize :: "int \<Rightarrow> int \<Rightarrow> (berr, unit) res" where
  "checkPayloadSize payloadLen maxSize =
     (if maxSize > 0 \<and> payloadLen > 0 \<and> payloadLen > maxSize
      then Err (PayloadTooLarge payloadLen maxSize) else Ok ())"

text \<open>The common end of \<open>checkPayload\<close>: the size check, then the protocol is recorded in the configuration.\<close>

definition finish_check :: "int \<Rightarrow> int \<Rightarrow> payload_codec \<Rightarrow> ('s, unit) cprog" where
  "finish_check maxPayloadSize transProto codecType = withMsg (\<lambda>msg.
     bindP (pure_res (checkPayloadSize (m_payloadLen msg) maxPayloadSize)) (\<lambda>_.
       onMsg (\<lambda>msg. if has_cfg msg then msg\<lparr>m_proto := transProto, m_codec := codecType\<rparr> else msg)))"

text \<open>The two framed branches: the length is recorded and the length field skipped.\<close>

definition framed_check :: "('s, 'sl) ByteBuffer \<Rightarrow> byte list \<Rightarrow> bool \<Rightarrow> int \<Rightarrow> payload_codec \<Rightarrow> ('s, unit) cprog" where
  "framed_check d flagBuf isTTHeader maxPayloadSize codecType =
     bindP (pure_res (of_option (Uint32 flagBuf))) (\<lambda>payloadLen.
     bindP (onMsg (\<lambda>msg. msg\<lparr>m_payloadLen := uint payloadLen\<rparr>)) (\<lambda>_.
     bindP (onBuf (op_Skip d Size32)) (\<lambda>_.
       finish_check maxPayloadSize (if isTTHeader then TTHeaderFramed else Framed) codecType)))"

definition checkPayload :: "('s, 'sl) ByteBuffer \<Rightarrow> byte list \<Rightarrow> bool \<Rightarrow> int \<Rightarrow> ('s, unit) cprog" where
  "checkPayload d flagBuf isTTHeader maxPayloadSize =
     bindP (pure_res (of_option (isThriftBinary flagBuf))) (\<lambda>thrift.
       if thrift then finish_check maxPayloadSize (if isTTHeader then TTHeader else PurePayload) Thrift
       else bindP (pure_res (of_option (isThriftFramedBinary flagBuf))) (\<lambda>framed.
         if framed then framed_check d flagBuf isTTHeader maxPayloadSize Thrift
         else bindP (pure_res (of_option (isProtobufKitex flagBuf))) (\<lambda>protobuf.
           if protobuf then framed_check d flagBuf isTTHeader maxPayloadSize Protobuf
           else bindP (pure_res (of_option (Uint32 flagBuf))) (\<lambda>first4Bytes.
                bindP (pure_res (of_option (Uint32 (drop 4 flagBuf)))) (\<lambda>second4Bytes.
                  throw (InvalidPayload first4Bytes second4Bytes))))))"

text \<open>A payload validator (\<^verbatim>\<open>codec/validate.go\<close>): its key, and its generate and validate functions.\<close>

record validator =
  pv_crc :: bool
  pv_Key :: gostring
  pv_Generate :: "byte list \<Rightarrow> (berr, bool \<times> gostring) res"
  pv_Validate :: "gostring \<Rightarrow> byte list \<Rightarrow> (berr, bool) res"

definition getValidatorKey :: "validator \<Rightarrow> gostring" where
  "getValidatorKey pv = (if pv_crc pv then pv_Key pv else bytes_of ''PV_'' @ pv_Key pv)"

definition maxPayloadChecksumLength :: nat where "maxPayloadChecksumLength = 4096"

definition payloadChecksumGenerate :: "validator \<Rightarrow> byte list \<Rightarrow> ('s, unit) cprog" where
  "payloadChecksumGenerate pv outboundPayload =
     bindP (wrapErr (Wrapped ''generate failed'') (pure_res (pv_Generate pv outboundPayload))) (\<lambda>(need, value).
       if need then
         (if length value > maxPayloadChecksumLength
          then throw (ErrorsNew ''payload checksum value exceeds the limit'')
          else onMsg (\<lambda>msg. msg\<lparr>m_strInfo := (m_strInfo msg)(getValidatorKey pv \<mapsto> value)\<rparr>))
       else ret ())"

definition fillRPCInfoBeforeValidate :: "message \<Rightarrow> message" where
  "fillRPCInfoBeforeValidate msg =
     (if m_role msg \<noteq> Server then msg
      else
        let set = (\<lambda>k upd msg. let v = get0 (m_intInfo msg) k in if v \<noteq> [] then upd v msg else msg);
            msg = (if has_from msg then
                     set FromMethod (\<lambda>v. m_fromMethod_update (\<lambda>_. v))
                       (set FromService (\<lambda>v. m_fromService_update (\<lambda>_. v)) msg)
                   else msg)
        in (if has_to msg then
              set ToService (\<lambda>v. m_toService_update (\<lambda>_. v))
                (set ToMethod (\<lambda>v. m_toMethod_update (\<lambda>_. v)) msg)
            else msg))"

definition payloadChecksumValidate :: "validator \<Rightarrow> ('s, 'sl) ByteBuffer \<Rightarrow> ('s, unit) cprog" where
  "payloadChecksumValidate pv d =
     bindP (onMsg fillRPCInfoBeforeValidate) (\<lambda>_. withMsg (\<lambda>msg.
       let expectedValue = get0 (m_strInfo msg) (getValidatorKey pv) in
       bindP (onBuf (op_Peek d (m_payloadLen msg))) (\<lambda>payload.
       bindP (wrapErr (Wrapped ''validation failed'') (pure_res (pv_Validate pv expectedValue payload))) (\<lambda>pass.
         if \<not> pass then throw (ErrorsNew ''validation failed'') else ret ()))))"

text \<open>
  The CRC-32C validator. \<^verbatim>\<open>crc32.Update\<close> with the Castagnoli table computes the reflected CRC with
  polynomial \<^verbatim>\<open>0x82f63b78\<close>, bit by bit here, between two complements; the checksum is sent as hex digits.
\<close>

definition castagnoli :: u32 where "castagnoli = 0x82f63b78"

definition crc_bit :: "u32 \<Rightarrow> u32" where
  "crc_bit c = (if bit c 0 then drop_bit 1 c XOR castagnoli else drop_bit 1 c)"

definition crc_byte :: "byte \<Rightarrow> u32 \<Rightarrow> u32" where
  "crc_byte b c = (crc_bit ^^ 8) (c XOR ucast b)"

definition crc32_Update :: "u32 \<Rightarrow> byte list \<Rightarrow> u32" where
  "crc32_Update crc p = NOT (fold crc_byte p (NOT crc))"

definition hex_digit :: "byte \<Rightarrow> byte" where
  "hex_digit b = (if b < 10 then b + 48 else b + 87)"

definition hex_EncodeToString :: "byte list \<Rightarrow> gostring" where
  "hex_EncodeToString bs = concat (map (\<lambda>b. [hex_digit (drop_bit 4 b), hex_digit (b AND 15)]) bs)"

definition getCRC32C :: "byte list \<Rightarrow> gostring" where
  "getCRC32C payload = hex_EncodeToString (PutUint32 (crc32_Update 0 payload))"

definition crc_Validate :: "gostring \<Rightarrow> byte list \<Rightarrow> (berr, bool) res" where
  "crc_Validate expectedValue inputPayload =
     (if expectedValue = [] then Ok True
      else if getCRC32C inputPayload \<noteq> expectedValue then Err (ProtocolError ''invalid data'')
      else Ok True)"

definition crcPayloadValidator :: validator where
  "crcPayloadValidator =
     \<lparr>pv_crc = True, pv_Key = bytes_of ''crc32c'',
      pv_Generate = (\<lambda>outPayload. Ok (True, getCRC32C outPayload)), pv_Validate = crc_Validate\<rparr>"

section \<open>The default codec\<close>

record codec_config =
  MaxSize :: int
  PayloadValidator :: "validator option"

text \<open>
  \<open>marshal\<close> and \<open>unmarshal\<close> stand for the payload codec registered for the message
  (\<^verbatim>\<open>remote.GetPayloadCodec\<close> followed by its \<^verbatim>\<open>Marshal\<close> or \<^verbatim>\<open>Unmarshal\<close>). The deferred function that records
  the size runs on every way out.
\<close>

definition deferred :: "('s \<Rightarrow> message \<Rightarrow> message) \<Rightarrow> ('s, 'a) cprog \<Rightarrow> ('s, 'a) cprog" where
  "deferred f p = (\<lambda>st. case p st of (r, (s, m)) \<Rightarrow> (r, (s, f s m)))"

definition EncodePayload :: "('s, 'sl) ByteBuffer \<Rightarrow> codec_config \<Rightarrow> ('s, unit) cprog \<Rightarrow> ('s, unit) cprog" where
  "EncodePayload d c marshal =
     deferred (\<lambda>s m. if has_stats m then m\<lparr>m_sendSize := of_int (op_WrittenLen d s)\<rparr> else m)
     (\<lambda>(s0, m0). (let headerLen = op_WrittenLen d s0; tp = m_proto m0 in
        bindP (if tp AND Framed = Framed then bindP (onBuf (op_Malloc d Size32)) (\<lambda>sl. ret (Some sl)) else ret None)
        (\<lambda>framedLenField.
          let headerLen = (if tp AND Framed = Framed then headerLen + Size32 else headerLen) in
          bindP marshal (\<lambda>_.
          bindP (\<lambda>(s, m).
            (case framedLenField of
               Some sl \<Rightarrow>
                 (let payloadLen = op_WrittenLen d s - headerLen in
                  (Ok payloadLen, (op_store d sl (PutUint32 (of_int payloadLen)) s, m)))
             | None \<Rightarrow>
                 (if m_codec m = Protobuf
                  then (Err (ProtocolError ''protobuf just support framed trans proto''), (s, m))
                  else (Ok 0, (s, m))))) (\<lambda>payloadLen (s, m).
            (let payloadLen = (if tp AND TTHeader = TTHeader then op_WrittenLen d s - Size32 else payloadLen) in
             (checkPayloadSize payloadLen (MaxSize c), (s, m))))))) (s0, m0))"

text \<open>Filling the total length field of a TTHeader after the payload is in place.\<close>

definition fillTotalLen :: "('s, 'sl) ByteBuffer \<Rightarrow> 'sl option \<Rightarrow> ('s, unit) cprog" where
  "fillTotalLen d totalLenField =
     (case totalLenField of
        None \<Rightarrow> throw (ProtocolError ''no buffer allocated for the header length field'')
      | Some sl \<Rightarrow> (\<lambda>(s, m). (Ok (), (op_store d sl (PutUint32 (of_int (op_WrittenLen d s - Size32))) s, m))))"

text \<open>
  With a validator the payload is first encoded into a separate netpoll link buffer, a package outside this
  repository: its operations, the empty buffer and what \<^verbatim>\<open>getWrittenBytes\<close> (\<^verbatim>\<open>Flush\<close>, then
  \<^verbatim>\<open>Bytes\<close>) returns are the parameters of \<open>payload_out\<close>; \<open>WriteDirect\<close> is present where the outer buffer
  implements \<^verbatim>\<open>NocopyWrite\<close>. A failing copy of the payload still fills the length field before the error is returned.
\<close>

record ('p, 'psl) payload_out =
  po_ops :: "('p, 'psl) ByteBuffer"
  po_new :: 'p
  po_Flush :: "('p, berr, unit) prog"
  po_Bytes :: "'p \<Rightarrow> byte list"

definition getWrittenBytes :: "('p, 'psl) payload_out \<Rightarrow> ('p, berr, byte list) prog" where
  "getWrittenBytes po = bindP (po_Flush po) (\<lambda>_ p. (Ok (po_Bytes po p), p))"

definition encodeMetaAndPayloadWithPayloadValidator ::
  "('s, 'sl) ttheader \<Rightarrow> ('s, 'sl) ByteBuffer \<Rightarrow> (byte list \<Rightarrow> ('s, berr, unit) prog) option \<Rightarrow> ('p, 'psl) payload_out
   \<Rightarrow> codec_config \<Rightarrow> ('p, unit) cprog \<Rightarrow> ('s, unit) cprog" where
  "encodeMetaAndPayloadWithPayloadValidator tt d writeDirect po c me_EncodePayload = (\<lambda>(s, m).
     (case bindP me_EncodePayload (\<lambda>_. onBuf (getWrittenBytes po)) (po_new po, m) of (r, (_, m)) \<Rightarrow>
        bindP (pure_res r) (\<lambda>payload.
        bindP (case PayloadValidator c of Some pv \<Rightarrow> payloadChecksumGenerate pv payload | None \<Rightarrow> ret ()) (\<lambda>_.
        bindP (onMsg (\<lambda>msg. msg\<lparr>m_payloadLen := int (length payload)\<rparr>)) (\<lambda>_.
        bindP (ttHeader_encode tt) (\<lambda>totalLenField.
        bindP (attempt (case writeDirect of
                 Some wd \<Rightarrow> onBuf (wd payload)
               | None \<Rightarrow> onBuf (bindP (op_WriteBinary d payload) (\<lambda>_. ret ())))) (\<lambda>werr.
        bindP (fillTotalLen d totalLenField) (\<lambda>_. pure_res werr)))))) (s, m)))"

definition EncodeMetaAndPayload ::
  "('s, 'sl) ttheader \<Rightarrow> ('s, 'sl) ByteBuffer \<Rightarrow> (byte list \<Rightarrow> ('s, berr, unit) prog) option \<Rightarrow> ('p, 'psl) payload_out
   \<Rightarrow> codec_config \<Rightarrow> ('s, unit) cprog \<Rightarrow> ('p, unit) cprog \<Rightarrow> ('s, unit) cprog" where
  "EncodeMetaAndPayload tt d writeDirect po c me_EncodePayload me_EncodePayload' = withMsg (\<lambda>msg.
     let tp = m_proto msg in
     if PayloadValidator c \<noteq> None \<and> tp AND TTHeader = TTHeader
     then encodeMetaAndPayloadWithPayloadValidator tt d writeDirect po c me_EncodePayload'
     else
       bindP (if tp AND TTHeader = TTHeader then ttHeader_encode tt else ret None) (\<lambda>totalLenField.
       bindP me_EncodePayload (\<lambda>_.
         if tp AND TTHeader = TTHeader then fillTotalLen d totalLenField else ret ())))"

definition Encode ::
  "('s, 'sl) ttheader \<Rightarrow> ('s, 'sl) ByteBuffer \<Rightarrow> (byte list \<Rightarrow> ('s, berr, unit) prog) option \<Rightarrow> ('p, 'psl) payload_out
   \<Rightarrow> codec_config \<Rightarrow> ('s, unit) cprog \<Rightarrow> ('p, unit) cprog \<Rightarrow> ('s, unit) cprog" where
  "Encode tt d writeDirect po c marshal marshal' =
     EncodeMetaAndPayload tt d writeDirect po c (EncodePayload d c marshal) (EncodePayload (po_ops po) c marshal')"

definition DecodeMeta :: "('s, 'sl) ttheader \<Rightarrow> ('s, 'sl) ByteBuffer \<Rightarrow> codec_config \<Rightarrow> ('s, unit) cprog" where
  "DecodeMeta tt d c =
     bindP (wrapErr (Wrapped ''default codec read failed'') (onBuf (op_Peek d (2 * Size32)))) (\<lambda>flagBuf.
     bindP (pure_res (of_option (IsTTHeader tt flagBuf))) (\<lambda>isTTHeader.
       if isTTHeader then
         bindP (ttHeader_decode tt) (\<lambda>_.
         bindP (wrapErr (Wrapped ''ttheader read payload first 8 byte failed'') (onBuf (op_Peek d (2 * Size32)))) (\<lambda>flagBuf.
         bindP (case PayloadValidator c of Some pv \<Rightarrow> payloadChecksumValidate pv d | None \<Rightarrow> ret ()) (\<lambda>_.
           checkPayload d flagBuf True (MaxSize c))))
       else bindP (pure_res (of_option (isMeshHeader tt flagBuf))) (\<lambda>is_mesh.
         if is_mesh then
           bindP (onMsg (\<lambda>msg. msg\<lparr>m_mesh := True\<rparr>)) (\<lambda>_.
           bindP (meshHeader_decode tt d) (\<lambda>_.
           bindP (wrapErr (Wrapped ''meshHeader read payload first 8 byte failed'') (onBuf (op_Peek d (2 * Size32)))) (\<lambda>flagBuf.
             checkPayload d flagBuf False (MaxSize c))))
         else checkPayload d flagBuf False (MaxSize c))))"

definition DecodePayload :: "('s, 'sl) ByteBuffer \<Rightarrow> ('s, unit) cprog \<Rightarrow> ('s, unit) cprog" where
  "DecodePayload d unmarshal =
     deferred (\<lambda>s m. if has_stats m then m\<lparr>m_recvSize := of_int (op_ReadLen d s)\<rparr> else m)
     (\<lambda>(s0, m0). (let hasRead = op_ReadLen d s0 in
        bindP unmarshal (\<lambda>_ (s, m).
          (Ok (), (s, if m_payloadLen m = 0 then m\<lparr>m_payloadLen := op_ReadLen d s - hasRead\<rparr> else m)))) (s0, m0))"

definition Decode :: "('s, 'sl) ttheader \<Rightarrow> ('s, 'sl) ByteBuffer \<Rightarrow> codec_config \<Rightarrow> ('s, unit) cprog \<Rightarrow> ('s, unit) cprog" where
  "Decode tt d c unmarshal = bindP (DecodeMeta tt d c) (\<lambda>_. DecodePayload d unmarshal)"

section \<open>Laws of the wire helpers\<close>

lemma pure_res_run [simp, prog_simps]: "pure_res r s = (r, s)"
  by (simp add: pure_res_def)

lemmas size_defs = Size32_def Size16_def

text \<open>The wire forms of the length-prefixed strings.\<close>

definition enc4 :: "gostring \<Rightarrow> byte list" where
  "enc4 v = PutUint32 (of_nat (length v)) @ v"

definition enc2 :: "gostring \<Rightarrow> byte list" where
  "enc2 v = PutUint16 (of_nat (length v)) @ v"

definition enc_kvs :: "(gostring \<times> gostring) list \<Rightarrow> byte list" where
  "enc_kvs kvs = concat (map (\<lambda>(k, v). enc2 k @ enc2 v) kvs)"

definition add_kvs :: "(gostring \<times> gostring) list \<Rightarrow> (gostring \<rightharpoonup> gostring) \<Rightarrow> (gostring \<rightharpoonup> gostring)" where
  "add_kvs kvs info = fold (\<lambda>(k, v) m. m(k \<mapsto> v)) kvs info"

definition short_kvs :: "(gostring \<times> gostring) list \<Rightarrow> bool" where
  "short_kvs kvs = list_all (\<lambda>(k, v). length k < 65536 \<and> length v < 65536) kvs"

context byte_reader
begin

lemma ReadUint32_law:
  assumes "rinv s" "pending s = PutUint32 v @ rest"
  shows "\<exists>s'. ReadUint32 d s = (Ok v, s') \<and> rinv s' \<and> pending s' = rest"
proof -
  obtain s' where "op_Next d 4 s = (Ok (PutUint32 v), s')" "rinv s'" "pending s' = rest"
    using Next_append[OF assms] by auto
  then show ?thesis using Uint32_Put[of v "[]"] by (simp add: ReadUint32_def size_defs bindP_Ok)
qed

lemma ReadUint16_law:
  assumes "rinv s" "pending s = PutUint16 v @ rest"
  shows "\<exists>s'. ReadUint16 d s = (Ok v, s') \<and> rinv s' \<and> pending s' = rest"
proof -
  obtain s' where "op_Next d 2 s = (Ok (PutUint16 v), s')" "rinv s'" "pending s' = rest"
    using Next_append[OF assms] by auto
  then show ?thesis using Uint16_Put[of v "[]"] by (simp add: ReadUint16_def size_defs bindP_Ok)
qed

lemma codec_ReadString_law:
  assumes "rinv s" "pending s = enc4 v @ rest" "v \<noteq> []" "length v < 2 ^ 32"
  shows "\<exists>s'. codec_ReadString d s = (Ok (v, int (length v) + 4), s') \<and> rinv s' \<and> pending s' = rest"
proof -
  let ?n = "of_nat (length v) :: u32"
  have n: "uint ?n = int (length v)" "?n \<noteq> 0"
    using assms(3,4) by (simp_all add: unsigned_of_nat take_bit_nat_eq_self word_of_nat_eq_0_iff nat_dvd_not_less)
  obtain s1 where s1: "ReadUint32 d s = (Ok ?n, s1)" "rinv s1" "pending s1 = v @ rest"
    using ReadUint32_law[OF assms(1), of ?n "v @ rest"] assms(2) by (auto simp: enc4_def)
  obtain s' where "op_ReadString d (int (length v)) s1 = (Ok v, s')" "rinv s'" "pending s' = rest"
    using ReadString_append[OF s1(2,3)] by auto
  with s1 n show ?thesis by (simp add: codec_ReadString_def bindP_Ok size_defs)
qed

end

context byte_writer
begin

lemma WriteUint32_law:
  assumes "winv s"
  shows "\<exists>s'. WriteUint32 d v s = (Ok (), s') \<and> winv s' \<and> written s' = written s @ PutUint32 v"
  using Malloc_law[OF assms, of "PutUint32 v"] by (auto simp: WriteUint32_def size_defs bindP_def)

lemma WriteUint16_law:
  assumes "winv s"
  shows "\<exists>s'. WriteUint16 d v s = (Ok (), s') \<and> winv s' \<and> written s' = written s @ PutUint16 v"
  using Malloc_law[OF assms, of "PutUint16 v"] by (auto simp: WriteUint16_def size_defs bindP_def)

lemma WriteByte_law:
  assumes "winv s"
  shows "\<exists>s'. WriteByte d v s = (Ok (), s') \<and> winv s' \<and> written s' = written s @ [v]"
  using Malloc_law[OF assms, of "[v]"] by (auto simp: WriteByte_def size_defs bindP_def)

lemma codec_WriteString_law:
  assumes "winv s"
  shows "\<exists>s'. codec_WriteString d v s = (Ok (int (length v) + 4), s') \<and> winv s' \<and> written s' = written s @ enc4 v"
proof -
  obtain s1 where s1: "WriteUint32 d (of_nat (length v)) s = (Ok (), s1)" "winv s1"
    "written s1 = written s @ PutUint32 (of_nat (length v))" using WriteUint32_law[OF assms] by blast
  then show ?thesis using WriteString_law[OF s1(2), of v]
    by (auto simp: codec_WriteString_def bindP_def enc4_def)
qed

lemma WriteString2BLen_law:
  assumes "winv s"
  shows "\<exists>s'. WriteString2BLen d v s = (Ok (int (length v) + 2), s') \<and> winv s' \<and> written s' = written s @ enc2 v"
proof -
  obtain s1 where s1: "WriteUint16 d (of_nat (length v)) s = (Ok (), s1)" "winv s1"
    "written s1 = written s @ PutUint16 (of_nat (length v))" using WriteUint16_law[OF assms] by blast
  then show ?thesis using WriteString_law[OF s1(2), of v]
    by (auto simp: WriteString2BLen_def bindP_def enc2_def)
qed

end

section \<open>Laws of the key-value section\<close>

lemma ReadString2BLen_enc2:
  assumes "length v < 65536"
  shows "ReadString2BLen (pre @ enc2 v @ rest) (length pre) = Ok (v, length v + 2)"
proof -
  have "unat (of_nat (length v) :: u16) = length v" "uint (of_nat (length v) :: u16) = int (length v)"
    using assms by (simp_all add: unsigned_of_nat take_bit_nat_eq_self)
  then show ?thesis by (simp add: ReadString2BLen_def Bytes2Uint16_def enc2_def Let_def)
qed

lemma length_enc2 [simp]: "length (enc2 v) = length v + 2"
  by (simp add: enc2_def)

lemma readKVs_enc:
  "short_kvs kvs \<Longrightarrow> readKVs (length kvs) (pre @ enc_kvs kvs @ rest) (length pre) info
     = (Ok True, length pre + length (enc_kvs kvs), add_kvs kvs info)"
proof (induction kvs arbitrary: pre info)
  case (Cons kv kvs)
  obtain k v where kv: "kv = (k, v)" by (cases kv)
  with Cons.prems have len: "length k < 65536" "length v < 65536" "short_kvs kvs"
    by (auto simp: short_kvs_def)
  let ?tail = "enc_kvs kvs @ rest"
  have k: "ReadString2BLen (pre @ enc2 k @ enc2 v @ ?tail) (length pre) = Ok (k, length k + 2)"
    using ReadString2BLen_enc2[OF len(1), of pre "enc2 v @ ?tail"] by simp
  have v: "ReadString2BLen (pre @ enc2 k @ enc2 v @ ?tail) (length pre + (length k + 2)) = Ok (v, length v + 2)"
    using ReadString2BLen_enc2[OF len(2), of "pre @ enc2 k" ?tail] by (simp add: add.assoc)
  have "readKVs (length kvs) (pre @ enc2 k @ enc2 v @ ?tail) (length pre + (length k + 2) + (length v + 2)) (info(k \<mapsto> v))
      = (Ok True, length pre + (length k + 2) + (length v + 2) + length (enc_kvs kvs), add_kvs kvs (info(k \<mapsto> v)))"
    using Cons.IH[OF len(3), of "pre @ enc2 k @ enc2 v" "info(k \<mapsto> v)"] by (simp add: add_ac fun_upd_def)
  with k v show ?case by (simp add: kv enc_kvs_def add_kvs_def add_ac)
qed (simp add: enc_kvs_def add_kvs_def)

lemma readStrKVInfo_enc:
  assumes "short_kvs kvs" "length kvs < 65536"
  shows "readStrKVInfo 0 (PutUint16 (of_nat (length kvs)) @ enc_kvs kvs @ rest) info
     = (Ok (kvs \<noteq> []), 2 + length (enc_kvs kvs), add_kvs kvs info)"
proof -
  let ?n = "of_nat (length kvs) :: u16"
  have n: "unat ?n = length kvs" using assms(2) by (simp add: unsigned_of_nat take_bit_nat_eq_self)
  have z: "?n \<le> 0 \<longleftrightarrow> kvs = []" using n by (auto simp: word_le_nat_alt)
  show ?thesis
    using readKVs_enc[OF assms(1), of "PutUint16 ?n" rest info] n z
    by (auto simp: readStrKVInfo_def Bytes2Uint16_def enc_kvs_def add_kvs_def numeral_2_eq_2)
qed

lemma Bytes2Uint16_cases: "Bytes2Uint16 bs off = Err EOF \<or> (\<exists>v. Bytes2Uint16 bs off = Ok v \<and> off + 2 \<le> length bs)"
  using Uint16_None[of "drop off bs"] by (cases "Uint16 (drop off bs)") (auto simp: Bytes2Uint16_def)

lemma ReadString2BLen_cases:
  "ReadString2BLen bs off = Err EOF \<or> (\<exists>v n. ReadString2BLen bs off = Ok (v, n) \<and> off + n \<le> length bs)"
proof (cases "Bytes2Uint16 bs off = Err EOF")
  case False
  then obtain v where v: "Bytes2Uint16 bs off = Ok v" "off + 2 \<le> length bs" using Bytes2Uint16_cases by blast
  have "int (unat v) = uint v" by simp
  with v show ?thesis
    by (cases "int (length bs) - int (off + 2) < uint v")
      (auto simp: ReadString2BLen_def Let_def simp del: of_nat_unat)
qed (simp add: ReadString2BLen_def)

lemma readKVs_safe:
  "idx \<le> length buf \<Longrightarrow> \<exists>r idx' info'. readKVs i buf idx info = (r, idx', info')
     \<and> (r = Ok True \<or> (\<exists>e. r = Err e)) \<and> idx' \<le> length buf"
proof (induction i arbitrary: idx info)
  case (Suc i)
  show ?case
    using ReadString2BLen_cases[of buf idx]
  proof (elim disjE exE conjE)
    fix k n assume k: "ReadString2BLen buf idx = Ok (k, n)" "idx + n \<le> length buf"
    show ?thesis
      using ReadString2BLen_cases[of buf "idx + n"]
      by (elim disjE exE conjE) (use k Suc.IH in auto)
  qed (use Suc.prems in auto)
qed simp

end
