(* ===== verification/CodecProps.thy ===== *)
theory CodecProps
  imports Codec
begin

text \<open>
  Correctness of the default codec: round trips of the wire helpers over the default buffer, safety of the
  key-value reader on arbitrary bytes, error detection of the CRC validator, the framed encoding and
  what happens to its length field when the buffer regrows, and protocol sniffing.
\<close>

section \<open>The checksum\<close>

lemma drop_bit_1_inj:
  fixes c c' :: u32
  assumes "drop_bit 1 c = drop_bit 1 c'" "bit c 0 = bit c' 0"
  shows "c = c'"
proof (rule bit_word_eqI)
  fix n assume "n < LENGTH(32)"
  show "bit c n = bit c' n"
  proof (cases n)
    case (Suc m)
    have "bit (drop_bit 1 c) m = bit (drop_bit 1 c') m" using assms(1) by simp
    then show ?thesis by (simp add: Suc bit_simps)
  qed (use assms(2) in simp)
qed

lemma crc_bit_top: "bit (crc_bit c) 31 = bit c 0"
  using bit_imp_le_length[of c 32] by (auto simp: crc_bit_def castagnoli_def bit_simps)

lemma crc_bit_inj: "crc_bit c = crc_bit c' \<Longrightarrow> c = c'"
proof -
  assume e: "crc_bit c = crc_bit c'"
  then have b: "bit c 0 = bit c' 0" using crc_bit_top[of c] crc_bit_top[of c'] by simp
  with e have "drop_bit 1 c = drop_bit 1 c'" by (auto simp: crc_bit_def split: if_splits)
  with b show ?thesis by (rule drop_bit_1_inj[rotated])
qed

lemma crc_bits_inj: "(crc_bit ^^ n) c = (crc_bit ^^ n) c' \<Longrightarrow> c = c'"
  by (induction n) (auto dest: crc_bit_inj)

lemma crc_byte_inj_state: "crc_byte b c = crc_byte b c' \<Longrightarrow> c = c'"
  by (auto simp: crc_byte_def dest!: crc_bits_inj)

lemma crc_byte_inj_byte: "crc_byte b c = crc_byte b' c \<Longrightarrow> b = b'"
  by (auto simp: crc_byte_def dest!: crc_bits_inj ucast_byte_inj)

lemma fold_crc_inj: "fold crc_byte p c = fold crc_byte p c' \<Longrightarrow> c = c'"
  by (induction p arbitrary: c c') (auto dest: crc_byte_inj_state)

lemma crc32_corrupt_byte:
  "b \<noteq> b' \<Longrightarrow> crc32_Update crc (xs @ b # ys) \<noteq> crc32_Update crc (xs @ b' # ys)"
  by (auto simp: crc32_Update_def dest!: fold_crc_inj crc_byte_inj_byte)

lemma hex_digit_inj:
  assumes "b < 16" "b' < 16" "hex_digit b = hex_digit b'"
  shows "b = b'"
  using assms by (auto simp: hex_digit_def word_less_nat_alt unat_arith_simps split: if_splits)

lemma low_nibble: "(b :: byte) AND 15 = take_bit 4 b"
  by (simp add: take_bit_eq_mask mask_eq_exp_minus_1)

lemma nibble_bounds: "drop_bit 4 (b :: byte) < 16" "b AND 15 < 16"
proof -
  have "unat b < 256" using unsigned_less[of b] by simp
  then show "drop_bit 4 b < 16" by (simp add: word_less_nat_alt unat_drop_bit_eq drop_bit_eq_div unat_div)
  have "take_bit 4 (unat b) < 2 ^ 4" by (rule take_bit_nat_less_exp)
  then show "b AND 15 < 16" by (simp add: low_nibble word_less_nat_alt unsigned_take_bit_eq)
qed

lemma nibbles_inj: "drop_bit 4 (b :: byte) = drop_bit 4 b' \<Longrightarrow> b AND 15 = b' AND 15 \<Longrightarrow> b = b'"
  unfolding low_nibble by (metis bits_ident)

lemma hex_inj: "hex_EncodeToString xs = hex_EncodeToString ys \<Longrightarrow> xs = ys"
proof (induction xs arbitrary: ys)
  case Nil then show ?case by (cases ys) (auto simp: hex_EncodeToString_def)
next
  case (Cons x xs)
  then obtain y ys' where ys: "ys = y # ys'" by (cases ys) (auto simp: hex_EncodeToString_def)
  with Cons.prems have "hex_digit (drop_bit 4 x) = hex_digit (drop_bit 4 y)"
    "hex_digit (x AND 15) = hex_digit (y AND 15)" "hex_EncodeToString xs = hex_EncodeToString ys'"
    by (auto simp: hex_EncodeToString_def)
  then show ?case using Cons.IH nibbles_inj hex_digit_inj nibble_bounds ys by metis
qed

lemma getCRC32C_corrupt: "b \<noteq> b' \<Longrightarrow> getCRC32C (xs @ b # ys) \<noteq> getCRC32C (xs @ b' # ys)"
  using crc32_corrupt_byte[of b b' 0 xs ys] by (auto simp: getCRC32C_def dest!: hex_inj be32.put_inj)

lemma getCRC32C_nonempty: "getCRC32C p \<noteq> []"
  by (simp add: getCRC32C_def hex_EncodeToString_def PutUint32_def)

text \<open>C32. The CRC validator accepts a payload with the checksum it generated for it and rejects every payload in
  which one byte was changed.\<close>

theorem crc_detects_corruption:
  assumes "b' \<noteq> b"
  shows "\<exists>value. pv_Generate crcPayloadValidator (xs @ b # ys) = Ok (True, value)
      \<and> pv_Validate crcPayloadValidator value (xs @ b # ys) = Ok True
      \<and> (\<exists>e. pv_Validate crcPayloadValidator value (xs @ b' # ys) = Err e)"
  using getCRC32C_corrupt[OF assms] getCRC32C_nonempty
  by (auto simp: crcPayloadValidator_def crc_Validate_def)

theorem crc_detects_corruption_witness:
  "(8 :: byte) \<noteq> 7 \<and> (\<exists>value. pv_Generate crcPayloadValidator [1, 7, 3] = Ok (True, value)
      \<and> (\<exists>e. pv_Validate crcPayloadValidator value [1, 8, 3] = Err e))"
  using crc_detects_corruption[of 8 7 "[1]" "[3]"] by auto

section \<open>Strings and key-value sections\<close>

text \<open>Round trip of the four-byte-length strings over the default buffer: what \<open>WriteString\<close> appends,
  \<open>ReadString\<close> reads back with the same size, leaving the bytes that follow unread.\<close>

lemma string_round_trip:
  assumes "v \<noteq> []" and "length v < 2 ^ 32"
  shows "\<exists>w r. codec_WriteString (default_ops junk) v (newWriterByteBuffer junk newDefaultByteBuffer n)
              = (Ok (int (length v) + 4), w)
      \<and> codec_ReadString (default_ops junk') (newReaderByteBuffer b (bb_written w @ rest))
              = (Ok (v, int (length v) + 4), r)
      \<and> bb_pending r = rest"
proof -
  have w0: "bb_winv (newWriterByteBuffer junk newDefaultByteBuffer n)"
    "bb_written (newWriterByteBuffer junk newDefaultByteBuffer n) = []"
    using new_w[of newDefaultByteBuffer junk n] by (auto simp: newDefaultByteBuffer_def)
  obtain w where w: "codec_WriteString (default_ops junk) v (newWriterByteBuffer junk newDefaultByteBuffer n)
      = (Ok (int (length v) + 4), w)" "bb_written w = enc4 v"
    using bbw.codec_WriteString_law[OF w0(1), of junk v] w0(2) by auto
  have r0: "bb_rinv (newReaderByteBuffer b (bb_written w @ rest))"
    "bb_pending (newReaderByteBuffer b (bb_written w @ rest)) = enc4 v @ rest"
    using new_r[of b "bb_written w @ rest"] w(2) by auto
  show ?thesis using bbr.codec_ReadString_law[OF r0 assms, of junk'] w(1) by blast
qed

lemma string_round_trip_example:
  "\<exists>w r. codec_WriteString (default_ops (\<lambda>_ _. 0)) [104, 105] (newWriterByteBuffer (\<lambda>_ _. 0) newDefaultByteBuffer 3)
              = (Ok 6, w)
      \<and> codec_ReadString (default_ops (\<lambda>_ _. 0)) (newReaderByteBuffer newDefaultByteBuffer (bb_written w @ [9]))
              = (Ok ([104, 105], 6), r) \<and> bb_pending r = [9]"
  using string_round_trip[of "[104, 105]" "\<lambda>_ _. 0" 3 "\<lambda>_ _. 0" newDefaultByteBuffer "[9]"] by simp

text \<open>\<open>WriteString\<close> accepts the empty string, but \<open>ReadString\<close> rejects what it wrote.\<close>

lemma empty_string_rejected:
  "\<exists>w r. codec_WriteString (default_ops junk) [] (newWriterByteBuffer junk newDefaultByteBuffer n) = (Ok 4, w)
      \<and> codec_ReadString (default_ops junk') (newReaderByteBuffer b (bb_written w @ rest))
         = (Err (ErrorsNew ''invalid string length in ReadString''), r)"
proof -
  have w0: "bb_winv (newWriterByteBuffer junk newDefaultByteBuffer n)"
    "bb_written (newWriterByteBuffer junk newDefaultByteBuffer n) = []"
    using new_w[of newDefaultByteBuffer junk n] by (auto simp: newDefaultByteBuffer_def)
  obtain w where w: "codec_WriteString (default_ops junk) [] (newWriterByteBuffer junk newDefaultByteBuffer n) = (Ok 4, w)"
    "bb_written w = PutUint32 0"
    using bbw.codec_WriteString_law[OF w0(1), of junk "[]"] w0(2) by (auto simp: enc4_def)
  have r0: "bb_rinv (newReaderByteBuffer b (bb_written w @ rest))"
    "bb_pending (newReaderByteBuffer b (bb_written w @ rest)) = PutUint32 0 @ rest"
    using new_r[of b "bb_written w @ rest"] w(2) by auto
  show ?thesis using bbr.ReadUint32_law[OF r0, of junk'] w(1) by (auto simp: codec_ReadString_def bindP_def)
qed

text \<open>C34. Reading a key-value section terminates on arbitrary bytes with a value or an error, never a panic, and
  never claims to have read past the end of the header.\<close>

theorem readStrKVInfo_safe:
  "\<exists>r idx info'. readStrKVInfo 0 buf info = (r, idx, info')
     \<and> ((\<exists>has. r = Ok has \<and> idx \<le> length buf) \<or> (\<exists>e. r = Err e))"
proof (cases "Bytes2Uint16 buf 0 = Err EOF")
  case False
  then obtain v where v: "Bytes2Uint16 buf 0 = Ok v" "2 \<le> length buf" using Bytes2Uint16_cases[of buf 0] by auto
  show ?thesis using readKVs_safe[OF v(2), of "unat v" info] v by (auto simp: readStrKVInfo_def numeral_2_eq_2)
qed (simp add: readStrKVInfo_def)

section \<open>The mesh header\<close>

lemma onBuf_run: "p s = (r, s') \<Longrightarrow> onBuf p (s, m) = (r, (s', m))"
  by (simp add: onBuf_def)

lemma wrapErr_Ok: "p s = (Ok x, s') \<Longrightarrow> wrapErr w p s = (Ok x, s')"
  by (simp add: wrapErr_def)

lemma wrapErr_Err: "p s = (Err e, s') \<Longrightarrow> wrapErr w p s = (Err (w e), s')"
  by (simp add: wrapErr_def)

lemma onMsg_run [simp, prog_simps]: "onMsg f (s, m) = (Ok (), (s, f m))"
  by (simp add: onMsg_def)

lemma withMsg_run [simp, prog_simps]: "withMsg f (s, m) = f m (s, m)"
  by (simp add: withMsg_def)

text \<open>The layout of a mesh header: magic, size of what follows, number of entries, entries.\<close>

definition mesh_wire :: "u32 \<Rightarrow> (gostring \<times> gostring) list \<Rightarrow> byte list" where
  "mesh_wire magic kvs =
     take 2 (PutUint32 magic) @ PutUint16 (of_nat (2 + length (enc_kvs kvs)))
       @ PutUint16 (of_nat (length kvs)) @ enc_kvs kvs"

lemma Uint32_halves:
  "Uint32 (take 2 (PutUint32 hi) @ PutUint16 lo @ rest) = Some ((hi AND 0xffff0000) OR ucast lo)"
proof -
  have "ucast (ucast lo :: byte) OR (push_bit 8 (ucast (ucast (drop_bit 8 lo) :: byte)) OR
      (push_bit 16 (ucast (ucast (drop_bit 16 hi) :: byte)) OR push_bit 24 (ucast (ucast (drop_bit 24 hi) :: byte))))
      = (hi AND 0xffff0000) OR ucast lo" (is "?w = ?r")
  proof (rule bit_word_eqI)
    fix n assume "n < LENGTH(32)"
    then consider "n < 8" | "8 \<le> n" "n < 16" | "16 \<le> n" "n < 24" | "24 \<le> n" "n < 32" by fastforce
    moreover have m: "(0xffff0000 :: u32) = push_bit 16 (mask 16)" by (simp add: mask_eq_exp_minus_1 push_bit_eq_mult)
    ultimately show "bit (?w :: u32) n = bit ?r n"
      unfolding m by cases (auto simp: bit_simps bit_u16_high)
  qed
  then show ?thesis by (simp add: PutUint32_def PutUint16_def)
qed

lemma MagicMask_halves:
  fixes lo :: u16
  shows "((hi AND 0xffff0000) OR ucast lo) AND 0xffff0000 = hi AND (0xffff0000 :: u32)"
proof (rule bit_word_eqI)
  fix n assume "n < LENGTH(32)"
  have m: "(0xffff0000 :: u32) = push_bit 16 (mask 16)" by (simp add: mask_eq_exp_minus_1 push_bit_eq_mult)
  show "bit (((hi AND 0xffff0000) OR ucast lo) AND 0xffff0000) n = bit (hi AND (0xffff0000 :: u32)) n"
    unfolding m by (cases "n < 16") (auto simp: bit_simps bit_u16_high)
qed

lemma isMeshHeader_wire:
  "MeshHeaderMagic tt AND MagicMask = MeshHeaderMagic tt \<Longrightarrow>
   isMeshHeader tt (take 2 (PutUint32 (MeshHeaderMagic tt)) @ PutUint16 lo) = Some True"
  using Uint32_halves[of "MeshHeaderMagic tt" lo "[]"] MagicMask_halves[of "MeshHeaderMagic tt" lo]
  by (simp add: isMeshHeader_def magic_at_def MagicMask_def)

context byte_reader
begin

lemma meshHeader_decode_law:
  assumes "rinv s" "pending s = mesh_wire (MeshHeaderMagic tt) kvs @ payload"
    and "MeshHeaderMagic tt AND MagicMask = MeshHeaderMagic tt"
    and "short_kvs kvs" "length kvs < 65536" "2 + length (enc_kvs kvs) < 65536"
  shows "\<exists>s'. meshHeader_decode tt d (s, m)
        = (Ok (), (s', fillBasicInfoOfTTHeader (m\<lparr>m_strInfo := add_kvs kvs (m_strInfo m)\<rparr>)))
      \<and> rinv s' \<and> pending s' = payload"
proof -
  let ?lo = "of_nat (2 + length (enc_kvs kvs)) :: u16"
  let ?meta = "take 2 (PutUint32 (MeshHeaderMagic tt)) @ PutUint16 ?lo"
  let ?info = "PutUint16 (of_nat (length kvs)) @ enc_kvs kvs"
  have lo: "uint ?lo = int (length ?info)"
    using uint_of_nat16[OF assms(6)] by simp
  have len: "int (length ?meta) = Size32" by (simp add: size_defs)
  obtain s1 where s1: "op_Next d Size32 s = (Ok ?meta, s1)" "rinv s1" "pending s1 = ?info @ payload"
    using Next_append[OF assms(1), of ?meta "?info @ payload"] assms(2) unfolding len
    by (auto simp: mesh_wire_def)
  obtain s2 where s2: "op_Next d (uint ?lo) s1 = (Ok ?info, s2)" "rinv s2" "pending s2 = payload"
    using Next_append[OF s1(2,3)] unfolding lo by auto
  have "Uint16 (drop 2 ?meta) = Some ?lo" using Uint16_Put[of ?lo "[]"] by simp
  moreover have "readStrKVInfo 0 ?info (m_strInfo m) = (Ok (kvs \<noteq> []), 2 + length (enc_kvs kvs), add_kvs kvs (m_strInfo m))"
    using readStrKVInfo_enc[OF assms(4,5), of "[]"] by simp
  ultimately show ?thesis
    using s1(1) s2 isMeshHeader_wire[OF assms(3), of ?lo]
    by (simp add: meshHeader_decode_def bindP_def onBuf_def wrapErr_def Let_def del: of_nat_add)
qed

end

text \<open>C33. Decoding a mesh header adds exactly the entries it carries to the message, the last of several equal keys
  winning, and leaves exactly the payload unread.\<close>

theorem meshHeader_decodes_wire:
  assumes "MeshHeaderMagic tt AND MagicMask = MeshHeaderMagic tt"
    and "short_kvs kvs" and "length kvs < 65536" and "2 + length (enc_kvs kvs) < 65536"
  shows "\<exists>r. meshHeader_decode tt (default_ops junk)
            (newReaderByteBuffer b (mesh_wire (MeshHeaderMagic tt) kvs @ payload), m)
         = (Ok (), (r, fillBasicInfoOfTTHeader (m\<lparr>m_strInfo := m_strInfo m ++ map_of (rev kvs)\<rparr>)))
       \<and> bb_pending r = payload"
proof -
  have "add_kvs kvs info = info ++ map_of (rev kvs)" for info :: "gostring \<rightharpoonup> gostring"
    by (induction kvs arbitrary: info) (auto simp: add_kvs_def map_add_def fun_upd_def intro!: ext split: option.splits)
  moreover have "bb_rinv (newReaderByteBuffer b (mesh_wire (MeshHeaderMagic tt) kvs @ payload))"
    "bb_pending (newReaderByteBuffer b (mesh_wire (MeshHeaderMagic tt) kvs @ payload))
       = mesh_wire (MeshHeaderMagic tt) kvs @ payload"
    using new_r by auto
  ultimately show ?thesis
    using bbr.meshHeader_decode_law[OF _ _ assms, of _ payload junk m] by fastforce
qed

text \<open>The magic numbers the TTHeader protocol documents, with no header codec attached; used by the witnesses.\<close>

definition po_plain :: "(bbuf, slc) payload_out" where
  "po_plain = \<lparr>po_ops = default_ops (\<lambda>_ _. 9), po_new = newWriterByteBuffer (\<lambda>_ _. 9) newDefaultByteBuffer 64,
     po_Flush = ret (), po_Bytes = bb_written\<rparr>"

definition tt_plain :: "('s, 'sl) ttheader" where
  "tt_plain = \<lparr>TTHeaderMagic = 0x10000000, MeshHeaderMagic = 0xFFAF0000,
     tt_Encode = (\<lambda>_. throw EOF), tt_Decode = throw EOF\<rparr>"

definition msg_plain :: message where
  "msg_plain = \<lparr>m_role = Server, m_type = 1, m_payloadLen = 0, m_strInfo = Map.empty, m_intInfo = Map.empty,
     m_flags = None, m_mesh = False, m_seqID = 0, m_proto = 4, m_codec = Thrift, m_svcName = [], m_fromAddr = [],
     m_fromService = [], m_fromMethod = [], m_toAddr = [], m_toService = [], m_toMethod = [], m_sendSize = 0,
     m_recvSize = 0, has_from = True, has_to = True, has_remote = True, has_setter = True, has_cfg = True,
     has_stats = True\<rparr>"

theorem meshHeader_decodes_wire_witness:
  "\<exists>r m'. meshHeader_decode tt_plain (default_ops (\<lambda>_ _. 0))
            (newReaderByteBuffer newDefaultByteBuffer (mesh_wire 0xFFAF0000 [([114], [49]), ([105], [50])] @ [5]), msg_plain)
         = (Ok (), (r, m')) \<and> m_strInfo m' [105] = Some [50] \<and> bb_pending r = [5]"
  using meshHeader_decodes_wire[of tt_plain "[([114], [49]), ([105], [50])]" "\<lambda>_ _. 0" newDefaultByteBuffer "[5]" msg_plain]
  by (auto simp: tt_plain_def MagicMask_def short_kvs_def enc_kvs_def fillBasicInfoOfTTHeader_def msg_plain_def
      get0_def Let_def HeaderIDLServiceName_def HeaderTransRemoteAddr_def bytes_of_def)

section \<open>Framed encoding\<close>

text \<open>A payload codec that writes the payload in chunks.\<close>

definition marshal_chunks :: "('s, 'sl) ByteBuffer \<Rightarrow> byte list list \<Rightarrow> ('s, unit) cprog" where
  "marshal_chunks d chunks = onBuf (write_all d chunks)"

lemma WriteBinary_room:
  assumes "bb_winv b" "writeIdx b + int (length p) \<le> cap b"
  shows "\<exists>b'. WriteBinary junk p b = (Ok (int (length p)), b') \<and> bb_winv b' \<and> bb_written b' = bb_written b @ p
    \<and> arr b' = arr b \<and> cap b' = cap b"
proof -
  have "ensureWritable junk (int (length p)) b = (Ok (), b)" "writable b"
    using assms by (auto simp: ensureWritable_def writableLen_def bb_winv_def)
  then have "WriteBinary junk p b = copy_at_end (int (length p)) p b"
    by (simp add: WriteBinary_def bindP_def)
  moreover have "arr (snd (copy_at_end (int (length p)) p b)) = arr b"
    "cap (snd (copy_at_end (int (length p)) p b)) = cap b"
    using assms by (auto simp: copy_at_end_def cap_def bb_defs split: option.splits)
  ultimately show ?thesis using copy_at_end_ok[OF assms] by force
qed

lemma write_all_room:
  "bb_winv b \<Longrightarrow> writeIdx b + int (length (concat cs)) \<le> cap b \<Longrightarrow>
    \<exists>b'. write_all (default_ops junk) cs b = (Ok (), b') \<and> bb_winv b' \<and> bb_written b' = bb_written b @ concat cs
      \<and> arr b' = arr b \<and> cap b' = cap b"
proof (induction cs arbitrary: b)
  case (Cons c cs)
  obtain b1 where b1: "WriteBinary junk c b = (Ok (int (length c)), b1)" "bb_winv b1"
    "bb_written b1 = bb_written b @ c" "arr b1 = arr b" "cap b1 = cap b"
    using WriteBinary_room[of b c junk] Cons.prems by auto
  have "writeIdx b1 = writeIdx b + int (length c)"
    using bbw.WrittenLen_law[OF b1(2), of junk] bbw.WrittenLen_law[OF Cons.prems(1), of junk] b1(2,3) Cons.prems(1)
    by (simp add: default_ops_def WrittenLen_def bb_winv_def)
  then show ?case using Cons.IH[OF b1(2)] b1 Cons.prems(2) by (auto simp: bindP_def default_ops_def)
qed simp

lemma written_store:
  assumes "bb_winv b" "s_arr sl = arr b" "s_off sl = int (length pre)" "s_len sl = int (length bs)"
    "bb_written b = pre @ old @ rest" "length old = length bs"
  shows "bb_written (store sl bs b) = pre @ bs @ rest \<and> bb_winv (store sl bs b)"
proof -
  let ?k = "length pre" and ?w = "nat (writeIdx b)"
  have st: "store sl bs b = b\<lparr>buff := overwrite (buff b) ?k bs\<rparr>"
    using assms(2-4) by (simp add: store_def)
  have le: "?w \<le> length (buff b)" using assms(1) by (auto simp: bb_defs)
  then have "length (bb_written b) = ?w" by (simp add: bb_written_def)
  then have w: "?w = ?k + length bs + length rest" using assms(5,6) by simp
  have b: "buff b = (pre @ old @ rest) @ drop ?w (buff b)"
    using assms(5) unfolding bb_written_def by (metis append_take_drop_id)
  have "overwrite (buff b) ?k bs = (pre @ bs @ rest) @ drop ?w (buff b)"
    by (subst b) (use le w assms(6) in \<open>simp add: overwrite_def\<close>)
  then have "bb_written (store sl bs b) = pre @ bs @ rest" using w by (simp add: st bb_written_def)
  moreover have "bb_winv (store sl bs b)"
    using assms(1) le w by (auto simp: st bb_winv_def buf_wf_def cap_def writable_def)
  ultimately show ?thesis by simp
qed

lemma Malloc_room:
  assumes "bb_winv b" "0 \<le> n" "writeIdx b + n \<le> cap b"
  shows "Malloc junk n b = (Ok \<lparr>s_arr = arr b, s_off = writeIdx b, s_len = n\<rparr>, b\<lparr>writeIdx := writeIdx b + n\<rparr>)"
    and "bb_winv (b\<lparr>writeIdx := writeIdx b + n\<rparr>)"
    and "\<exists>old. length old = nat n \<and> bb_written (b\<lparr>writeIdx := writeIdx b + n\<rparr>) = bb_written b @ old"
proof -
  have "ensureWritable junk n b = (Ok (), b)" "writable b"
    using assms by (auto simp: ensureWritable_def writableLen_def bb_winv_def)
  then show "Malloc junk n b = (Ok \<lparr>s_arr = arr b, s_off = writeIdx b, s_len = n\<rparr>, b\<lparr>writeIdx := writeIdx b + n\<rparr>)"
    using assms by (auto simp: Malloc_def bindP_def Let_def slice_of_def cap_def bb_defs)
  show "bb_winv (b\<lparr>writeIdx := writeIdx b + n\<rparr>)"
    using assms by (auto simp: bb_winv_def buf_wf_def writable_def cap_def)
  show "\<exists>old. length old = nat n \<and> bb_written (b\<lparr>writeIdx := writeIdx b + n\<rparr>) = bb_written b @ old"
    using assms by (intro exI[of _ "take (nat n) (drop (nat (writeIdx b)) (buff b))"])
      (auto simp: bb_defs nat_add_distrib take_add)
qed

definition set_sent :: "message \<Rightarrow> bbuf \<Rightarrow> message" where
  "set_sent m b = (if has_stats m then m\<lparr>m_sendSize := of_int (WrittenLen b)\<rparr> else m)"

lemma EncodePayload_room:
  assumes "bb_winv b" "m_proto m = Framed" "MaxSize c \<le> 0 \<or> int (length (concat chunks)) \<le> MaxSize c"
    and "writeIdx b + 4 + int (length (concat chunks)) \<le> cap b"
  shows "\<exists>b'. EncodePayload (default_ops junk) c (marshal_chunks (default_ops junk) chunks) (b, m)
           = (Ok (), (b', set_sent m b')) \<and> bb_winv b'
         \<and> bb_written b' = bb_written b @ PutUint32 (of_nat (length (concat chunks))) @ concat chunks"
proof -
  let ?sl = "\<lparr>s_arr = arr b, s_off = writeIdx b, s_len = 4\<rparr>" and ?b1 = "b\<lparr>writeIdx := writeIdx b + 4\<rparr>"
  have m1: "Malloc junk 4 b = (Ok ?sl, ?b1)" and m2: "bb_winv ?b1"
    using Malloc_room(1,2)[OF assms(1)] assms(4) by auto
  obtain old where old: "length old = 4" "bb_written ?b1 = bb_written b @ old"
    using Malloc_room(3)[OF assms(1), of 4] assms(4) by auto
  obtain b2 where b2: "write_all (default_ops junk) chunks ?b1 = (Ok (), b2)" "bb_winv b2"
      "bb_written b2 = (bb_written b @ old) @ concat chunks" "arr b2 = arr b"
    using write_all_room[OF m2, of chunks junk] assms(4) old(2) by (auto simp: cap_def)
  let ?len = "PutUint32 (of_int (int (length (concat chunks))))"
  have wl: "WrittenLen x = int (length (bb_written x))" if "bb_winv x" for x
    using bbw.WrittenLen_law[OF that] by (simp add: default_ops_def)
  have wi: "writeIdx b = int (length (bb_written b))" using assms(1) by (auto simp: bb_defs)
  have st: "bb_written (store ?sl ?len b2) = bb_written b @ ?len @ concat chunks \<and> bb_winv (store ?sl ?len b2)"
    by (rule written_store[where old = old]) (use b2 old wi in auto)
  have "WrittenLen b2 - (WrittenLen b + 4) = int (length (concat chunks))"
    using wl[OF b2(2)] wl[OF assms(1)] b2(3) old(1) by simp
  moreover have "checkPayloadSize (int (length (concat chunks))) (MaxSize c) = Ok ()"
    using assms(3) by (auto simp: checkPayloadSize_def)
  ultimately have "EncodePayload (default_ops junk) c (marshal_chunks (default_ops junk) chunks) (b, m)
       = (Ok (), (store ?sl ?len b2, set_sent m (store ?sl ?len b2)))"
    using assms(2) m1 b2(1)
    by (simp add: EncodePayload_def deferred_def marshal_chunks_def onBuf_def bindP_def default_ops_def
        Framed_def TTHeader_def size_defs Let_def set_sent_def del: of_int_diff)
  with st show ?thesis by auto
qed

text \<open>A payload of one of the two codecs the framed protocol carries, known by its first two bytes.\<close>

definition payload_of :: "payload_codec \<Rightarrow> byte list \<Rightarrow> bool" where
  "payload_of pc p \<longleftrightarrow> pc = Thrift \<and> magic_at 0 p ThriftV1Magic = Some True \<or> pc = Protobuf \<and> magic_at 0 p ProtobufV1Magic = Some True"

lemma payload_of_length: "payload_of pc p \<Longrightarrow> 4 \<le> length p"
  using Uint32_None[of p] by (auto simp: payload_of_def magic_at_def not_less[symmetric])

lemma payload_of_take: "payload_of pc p \<Longrightarrow> payload_of pc (take 4 p)"
  using payload_of_length[of pc p] be32.get_prefix[of p] by (simp add: payload_of_def magic_at_def)

lemma checkPayload_framed:
  assumes "rinv s" "byte_reader d rinv pending" "pending s = PutUint32 n @ payload"
    "n AND MagicMask \<noteq> ThriftV1Magic" "payload_of pc payload" "has_cfg m"
  shows "\<exists>s'. checkPayload d (PutUint32 n @ take 4 payload) False mx (s, m)
      = (if 0 < mx \<and> mx < uint n then (Err (PayloadTooLarge (uint n) mx), (s', m\<lparr>m_payloadLen := uint n\<rparr>))
         else (Ok (), (s', m\<lparr>m_payloadLen := uint n, m_proto := Framed, m_codec := pc\<rparr>))) \<and> pending s' = payload"
proof -
  obtain s' where s': "op_Skip d 4 s = (Ok (), s')" "rinv s'" "pending s' = payload"
    using byte_reader.Skip_law[OF assms(2,1), of 4] assms(3) by auto
  have p: "payload_of pc (take 4 payload)" using payload_of_take[OF assms(5)] .
  have d: "drop 4 (PutUint32 n @ take 4 payload) = take 4 payload" by simp
  have "checkPayload d (PutUint32 n @ take 4 payload) False mx (s, m) = framed_check d (PutUint32 n @ take 4 payload) False mx pc (s, m)"
    using p assms(4) by (auto simp: payload_of_def checkPayload_def isThriftBinary_def isThriftFramedBinary_def isProtobufKitex_def
        magic_at_def d ThriftV1Magic_def ProtobufV1Magic_def bindP_def)
  then show ?thesis using s' assms(6) by (auto simp: bindP_def framed_check_def finish_check_def onBuf_def size_defs checkPayloadSize_def)
qed

lemma small_no_magic: "k < 2 ^ 31 \<Longrightarrow> 2 ^ 31 \<le> x \<Longrightarrow> (of_nat k :: u32) AND MagicMask \<noteq> x"
proof -
  assume k: "k < 2 ^ 31" and x: "2 ^ 31 \<le> x"
  have "(of_nat k :: u32) AND MagicMask \<le> of_nat k" by (rule word_and_le2)
  moreover have "(of_nat k :: u32) < 2 ^ 31" using k by (simp add: word_less_nat_alt unat_of_nat)
  ultimately show ?thesis using x by auto
qed

text \<open>C20. A framed message survives the trip when the buffer need not regrow. Into a default buffer with room for the
  length field and the payload, \<open>Encode\<close> puts a Thrift or Protobuf payload that is within the sender's size limit;
  \<open>DecodeMeta\<close> on these bytes recognises the frame, the codec and the length the sender counted, and leaves exactly the
  payload to read - or, when the payload exceeds the receiver's own limit, fails with that error. The payload starts with
  the magic number of its codec and is shorter than 2 ^ 31 bytes; the magic numbers of the header module are its
  documented ones, and the receiving message has a configuration to record the protocol in.\<close>

theorem framed_round_trip:
  assumes "m_proto m = Framed" and "4 + int (length (concat chunks)) \<le> n"
    and "MaxSize c \<le> 0 \<or> int (length (concat chunks)) \<le> MaxSize c"
    and "length (concat chunks) < 2 ^ 31" and "payload_of pc (concat chunks)"
    and "TTHeaderMagic tt = 0x10000000" and "MeshHeaderMagic tt = 0xFFAF0000" and "has_cfg m'"
  shows "\<exists>w r m1.
      Encode tt (default_ops junk) wd po c (marshal_chunks (default_ops junk) chunks) marshal'
         (newWriterByteBuffer junk newDefaultByteBuffer n, m) = (Ok (), (w, m1))
    \<and> DecodeMeta tt (default_ops junk) c' (newReaderByteBuffer b (bb_written w), m')
        = (if 0 < MaxSize c' \<and> MaxSize c' < int (length (concat chunks))
           then (Err (PayloadTooLarge (int (length (concat chunks))) (MaxSize c')),
                 (r, m'\<lparr>m_payloadLen := int (length (concat chunks))\<rparr>))
           else (Ok (), (r, m'\<lparr>m_payloadLen := int (length (concat chunks)), m_proto := Framed, m_codec := pc\<rparr>)))
    \<and> bb_pending r = concat chunks"
proof -
  let ?p = "concat chunks" and ?b = "newWriterByteBuffer junk newDefaultByteBuffer n"
  let ?n = "of_nat (length ?p) :: u32"
  have w0: "bb_winv ?b" "bb_written ?b = []"
    using new_w[of newDefaultByteBuffer junk n] by (auto simp: newDefaultByteBuffer_def)
  have "writeIdx ?b + 4 + int (length ?p) \<le> cap ?b"
    using assms(2) by (simp add: newWriterByteBuffer_def cap_def Let_def)
  from EncodePayload_room[OF w0(1) assms(1,3) this, of junk] obtain w where
    w: "EncodePayload (default_ops junk) c (marshal_chunks (default_ops junk) chunks) (?b, m) = (Ok (), (w, set_sent m w))"
      "bb_written w = PutUint32 ?n @ ?p" using w0(2) by auto
  have enc: "Encode tt (default_ops junk) wd po c (marshal_chunks (default_ops junk) chunks) marshal' (?b, m)
      = (Ok (), (w, set_sent m w))"
    using w(1) assms(1) by (simp add: Encode_def EncodeMetaAndPayload_def Framed_def TTHeader_def bindP_def Let_def)
  let ?r = "newReaderByteBuffer b (bb_written w)"
  have r: "bb_rinv ?r" "bb_pending ?r = PutUint32 ?n @ ?p" using new_r[of b "bb_written w"] w(2) by auto
  have peek: "op_Peek (default_ops junk) 8 ?r = (Ok (PutUint32 ?n @ take 4 ?p), ?r)"
    using bbr.Peek_law[OF r(1), of 8 junk] r(2) payload_of_length[OF assms(5)] by simp
  have "?n AND MagicMask \<noteq> MeshHeaderMagic tt" and nt: "?n AND MagicMask \<noteq> ThriftV1Magic"
    using small_no_magic[OF assms(4)] by (simp_all add: assms(7) ThriftV1Magic_def)
  moreover have "magic_at 0 (take 4 ?p) (TTHeaderMagic tt) = Some False"
    using payload_of_take[OF assms(5)] by (auto simp: payload_of_def magic_at_def assms(6) ThriftV1Magic_def ProtobufV1Magic_def)
  ultimately have tt: "IsTTHeader tt (PutUint32 ?n @ take 4 ?p) = Some False"
      "isMeshHeader tt (PutUint32 ?n @ take 4 ?p) = Some False"
    by (simp_all add: IsTTHeader_def isMeshHeader_def magic_at_def)
  have u: "uint ?n = int (length ?p)" using uint_of_nat32[of "length ?p"] assms(4) by simp
  have "DecodeMeta tt (default_ops junk) c' (?r, m')
      = checkPayload (default_ops junk) (PutUint32 ?n @ take 4 ?p) False (MaxSize c') (?r, m')"
    using peek tt by (simp add: DecodeMeta_def bindP_def wrapErr_def onBuf_def size_defs)
  with checkPayload_framed[OF r(1) bbr.byte_reader_axioms r(2) nt assms(5,8), of junk "MaxSize c'", unfolded u] enc
  show ?thesis by metis
qed

theorem framed_round_trip_witness:
  "\<exists>w r m1.
      Encode tt_plain (default_ops (\<lambda>_ _. 9)) None po_plain \<lparr>MaxSize = 6, PayloadValidator = None\<rparr>
         (marshal_chunks (default_ops (\<lambda>_ _. 9)) [[0x80, 1, 0, 1], [65, 66]]) (ret ())
         (newWriterByteBuffer (\<lambda>_ _. 9) newDefaultByteBuffer 10, msg_plain) = (Ok (), (w, m1))
    \<and> DecodeMeta tt_plain (default_ops (\<lambda>_ _. 9)) \<lparr>MaxSize = 0, PayloadValidator = None\<rparr>
         (newReaderByteBuffer newDefaultByteBuffer (bb_written w), msg_plain)
        = (Ok (), (r, msg_plain\<lparr>m_payloadLen := 6, m_proto := Framed, m_codec := Thrift\<rparr>))
    \<and> bb_pending r = [0x80, 1, 0, 1, 65, 66]"
  using framed_round_trip[of msg_plain "[[0x80, 1, 0, 1], [65, 66]]" 10 "\<lparr>MaxSize = 6, PayloadValidator = None\<rparr>" Thrift
      tt_plain msg_plain "\<lambda>_ _. 9" None po_plain "ret ()" "\<lparr>MaxSize = 0, PayloadValidator = None\<rparr>" newDefaultByteBuffer]
  by (simp add: msg_plain_def Framed_def tt_plain_def ThriftV1Magic_def MagicMask_def magic_at_def payload_of_def)

text \<open>
  The limit holds for frames only: a bare Thrift payload carries no length, and is accepted whatever the limit, however
  many bytes follow.
\<close>

lemma bare_payload_unlimited:
  assumes "magic_at 0 flagBuf ThriftV1Magic = Some True" "m_payloadLen m = 0" "has_cfg m"
  shows "checkPayload d flagBuf False maxSize (s, m) = (Ok (), (s, m\<lparr>m_proto := PurePayload, m_codec := Thrift\<rparr>))"
  using assms by (simp add: checkPayload_def isThriftBinary_def finish_check_def bindP_def checkPayloadSize_def)

text \<open>C38. The length field is cut from the array before the payload is written: when writing the payload regrows
  the buffer, filling the field has no effect and the message starts with four unspecified bytes.\<close>

theorem framed_length_lost_on_regrow:
  assumes "m_proto m = Framed" and "MaxSize c \<le> 0" and "4 \<le> n" and "n < 4 + int (length p)"
  shows "\<exists>w m1. EncodePayload (default_ops junk) c (marshal_chunks (default_ops junk) [p])
            (newWriterByteBuffer junk newDefaultByteBuffer n, m) = (Ok (), (w, m1))
       \<and> Bytes w = (Ok (map (junk 1) [0..<4] @ p), w)"
proof -
  let ?b = "newWriterByteBuffer junk newDefaultByteBuffer n"
  let ?sl = "\<lparr>s_arr = arr ?b, s_off = writeIdx ?b, s_len = 4\<rparr>" and ?b1 = "?b\<lparr>writeIdx := writeIdx ?b + 4\<rparr>"
  have b: "writeIdx ?b = 0" "cap ?b = n" "arr ?b = 1" "buff ?b = map (junk 1) [0..<nat n]"
    using assms(3) by (auto simp: newWriterByteBuffer_def cap_def Let_def newDefaultByteBuffer_def dirtmake_Bytes_def)
  have w0: "bb_winv ?b" using new_w[of newDefaultByteBuffer junk n] by (simp add: newDefaultByteBuffer_def)
  have m: "Malloc junk 4 ?b = (Ok ?sl, ?b1)" "bb_winv ?b1"
    using Malloc_room(1,2)[OF w0, of 4] assms(3) b by auto
  have wr: "writable ?b1" using m(2) by (simp add: bb_winv_def)
  obtain b2 where b2: "WriteBinary junk p ?b1 = (Ok (int (length p)), b2)" "bb_winv b2"
    "bb_written b2 = bb_written ?b1 @ p" using WriteBinary_ok[OF m(2)] by blast
  have "bb_written ?b1 = map (junk 1) [0..<4]" using b assms(3) by (simp add: bb_written_def take_map)
  moreover have "arr b2 = 2"
  proof -
    have "\<not> writableLen ?b1 \<ge> int (length p)" using b wr assms(4) by (simp add: writableLen_def cap_def)
    with b2(1) b wr show ?thesis
      by (auto simp: WriteBinary_def bindP_def ensureWritable_def copy_at_end_def split: option.splits)
  qed
  then have "store ?sl x b2 = b2" for x using b by (simp add: store_def)
  moreover have "write_all (default_ops junk) [p] ?b1 = (Ok (), b2)"
    using b2(1) by (simp add: bindP_def default_ops_def)
  ultimately show ?thesis
    using m(1) b2 Bytes_ok[OF b2(2)] assms(1,2)
    by (simp add: EncodePayload_def deferred_def marshal_chunks_def onBuf_def bindP_def default_ops_def
        Framed_def TTHeader_def size_defs Let_def checkPayloadSize_def)
qed

theorem framed_length_lost_on_regrow_witness:
  "\<exists>w m1. EncodePayload (default_ops (\<lambda>_ _. 7)) \<lparr>MaxSize = 0, PayloadValidator = None\<rparr>
            (marshal_chunks (default_ops (\<lambda>_ _. 7)) [[1, 2, 3]])
            (newWriterByteBuffer (\<lambda>_ _. 7) newDefaultByteBuffer 5, msg_plain) = (Ok (), (w, m1))
       \<and> Bytes w = (Ok [7, 7, 7, 7, 1, 2, 3], w)"
  using framed_length_lost_on_regrow[of msg_plain "\<lparr>MaxSize = 0, PayloadValidator = None\<rparr>" 5 "[1, 2, 3]" "\<lambda>_ _. 7"]
  by (simp add: msg_plain_def Framed_def upt_rec)

end
