(* ===== verification/GrpcFrame.thy ===== *)
theory GrpcFrame
  imports ByteBuf
begin

text \<open>
  The HTTP/2 framing layer of \<^verbatim>\<open>pkg/remote/trans/nphttp2/grpc/grpcframe\<close>: the frame writer
  (\<^verbatim>\<open>frame_writer.go\<close>), the frame parsers (\<^verbatim>\<open>frame_parser.go\<close>) and the framer's read side with the HEADERS /
  CONTINUATION order check and header-block assembly (\<^verbatim>\<open>frame_reader.go\<close>). Frame types, flags and error codes
  are the numbers of RFC 7540. The netpoll reader, the HPACK decoder and the \<^verbatim>\<open>httpguts\<close> predicates are parameters.
\<close>

section \<open>Wire constants\<close>

definition FrameData :: byte where "FrameData = 0"
definition FrameHeaders :: byte where "FrameHeaders = 1"
definition FramePriority :: byte where "FramePriority = 2"
definition FrameRSTStream :: byte where "FrameRSTStream = 3"
definition FrameSettings :: byte where "FrameSettings = 4"
definition FramePushPromise :: byte where "FramePushPromise = 5"
definition FramePing :: byte where "FramePing = 6"
definition FrameGoAway :: byte where "FrameGoAway = 7"
definition FrameWindowUpdate :: byte where "FrameWindowUpdate = 8"
definition FrameContinuation :: byte where "FrameContinuation = 9"

definition FlagEndStream :: byte where "FlagEndStream = 1"
definition FlagAck :: byte where "FlagAck = 1"
definition FlagEndHeaders :: byte where "FlagEndHeaders = 4"
definition FlagPadded :: byte where "FlagPadded = 8"
definition FlagPriority :: byte where "FlagPriority = 0x20"

definition ErrCodeProtocol :: u32 where "ErrCodeProtocol = 1"
definition ErrCodeFlowControl :: u32 where "ErrCodeFlowControl = 3"
definition ErrCodeFrameSize :: u32 where "ErrCodeFrameSize = 6"
definition ErrCodeCompression :: u32 where "ErrCodeCompression = 9"

definition SettingInitialWindowSize :: u16 where "SettingInitialWindowSize = 4"

lemmas frame_types = FrameData_def FrameHeaders_def FramePriority_def FrameRSTStream_def FrameSettings_def
  FramePushPromise_def FramePing_def FrameGoAway_def FrameWindowUpdate_def FrameContinuation_def

lemmas frame_flags = FlagEndStream_def FlagAck_def FlagEndHeaders_def FlagPadded_def FlagPriority_def

section \<open>Frames\<close>

record frame_header =
  fh_Type :: byte
  fh_Flags :: byte
  fh_Length :: u32
  fh_StreamID :: u32

record priority_param =
  StreamDep :: u32
  Exclusive :: bool
  Weight :: byte

definition prio0 :: priority_param where
  "prio0 = \<lparr>StreamDep = 0, Exclusive = False, Weight = 0\<rparr>"

type_synonym header_field = "gostring \<times> gostring"

datatype frame =
    DataFrame frame_header "byte list"
  | HeadersFrame frame_header priority_param "byte list"
  | PriorityFrame frame_header priority_param
  | RSTStreamFrame frame_header u32
  | SettingsFrame frame_header "byte list"
  | PushPromiseFrame frame_header u32 "byte list"
  | PingFrame frame_header "byte list"
  | GoAwayFrame frame_header u32 u32 "byte list"
  | WindowUpdateFrame frame_header u32
  | ContinuationFrame frame_header "byte list"
  | UnknownFrame frame_header "byte list"
  | MetaHeadersFrame frame_header priority_param "header_field list" bool

fun Header :: "frame \<Rightarrow> frame_header" where
  "Header (DataFrame fh _) = fh"
| "Header (HeadersFrame fh _ _) = fh"
| "Header (PriorityFrame fh _) = fh"
| "Header (RSTStreamFrame fh _) = fh"
| "Header (SettingsFrame fh _) = fh"
| "Header (PushPromiseFrame fh _ _) = fh"
| "Header (PingFrame fh _) = fh"
| "Header (GoAwayFrame fh _ _ _) = fh"
| "Header (WindowUpdateFrame fh _) = fh"
| "Header (ContinuationFrame fh _) = fh"
| "Header (UnknownFrame fh _) = fh"
| "Header (MetaHeadersFrame fh _ _ _) = fh"

text \<open>\<^verbatim>\<open>connError\<close> is internal to the parsers; \<^verbatim>\<open>ReadFrame\<close> turns it into a \<open>ConnectionError\<close>.\<close>

datatype h2err =
    connError u32 string
  | ConnectionError u32
  | StreamError u32 u32
  | ErrUnexpectedEOF
  | ErrFrameTooLarge
  | errStreamID
  | errDepStreamID
  | errIllegalIncrement
  | errIllegalMeta
  | ReaderError berr
  | WriterError string

definition Has :: "byte \<Rightarrow> byte \<Rightarrow> bool" where
  "Has f v \<longleftrightarrow> f AND v = v"

section \<open>Writing frames\<close>

text \<open>
  \<open>wbuf\<close> is the frame under construction; \<open>f_out\<close> records the blocks passed to the underlying writer, one per
  frame; \<open>f_wfail\<close> is the underlying writer's answer to a block.
\<close>

record framer_w =
  reuseWriteBuffer :: bool
  wbuf :: "byte list"
  AllowIllegalWrites :: bool
  f_out :: "byte list list"
  f_wfail :: "byte list \<Rightarrow> string option"

definition validStreamIDOrZero :: "u32 \<Rightarrow> bool" where
  "validStreamIDOrZero streamID \<longleftrightarrow> streamID AND 0x80000000 = 0"

definition validStreamID :: "u32 \<Rightarrow> bool" where
  "validStreamID streamID \<longleftrightarrow> streamID \<noteq> 0 \<and> streamID AND 0x80000000 = 0"

definition Put24 :: "u32 \<Rightarrow> byte list" where
  "Put24 n = [ucast (drop_bit 16 n), ucast (drop_bit 8 n), ucast n]"

definition startWrite :: "byte \<Rightarrow> byte \<Rightarrow> u32 \<Rightarrow> nat \<Rightarrow> (framer_w, h2err, unit) prog" where
  "startWrite ftype flags streamID payloadLen fr =
     (if payloadLen \<ge> 2 ^ 24 then (Err ErrFrameTooLarge, fr)
      else (Ok (), fr\<lparr>wbuf := Put24 (of_nat payloadLen) @ [ftype, flags] @ PutUint32 streamID\<rparr>))"

definition endWrite :: "(framer_w, h2err, unit) prog" where
  "endWrite fr =
     (let r = (case f_wfail fr (wbuf fr) of None \<Rightarrow> Ok () | Some e \<Rightarrow> Err (WriterError e));
          fr = fr\<lparr>f_out := f_out fr @ [wbuf fr]\<rparr>;
          fr = (if reuseWriteBuffer fr then fr\<lparr>wbuf := []\<rparr> else fr)
      in (r, fr))"

definition writeBytes :: "byte list \<Rightarrow> (framer_w, h2err, unit) prog" where
  "writeBytes v fr = (Ok (), fr\<lparr>wbuf := wbuf fr @ v\<rparr>)"

definition writeByte :: "byte \<Rightarrow> (framer_w, h2err, unit) prog" where
  "writeByte v = writeBytes [v]"

definition writeUint16 :: "u16 \<Rightarrow> (framer_w, h2err, unit) prog" where
  "writeUint16 v = writeBytes (PutUint16 v)"

definition writeUint32 :: "u32 \<Rightarrow> (framer_w, h2err, unit) prog" where
  "writeUint32 v = writeBytes (PutUint32 v)"

definition WriteData :: "u32 \<Rightarrow> bool \<Rightarrow> byte list \<Rightarrow> (framer_w, h2err, unit) prog" where
  "WriteData streamID endStream data fr =
     (if \<not> validStreamID streamID \<and> \<not> AllowIllegalWrites fr then (Err errStreamID, fr)
      else
        let flags = (if endStream then FlagEndStream else 0) in
        bindP (startWrite FrameData flags streamID (length data)) (\<lambda>_.
        bindP (writeBytes data) (\<lambda>_. endWrite)) fr)"

record headers_param =
  hp_StreamID :: u32
  hp_BlockFragment :: "byte list"
  hp_EndStream :: bool
  hp_EndHeaders :: bool
  hp_PadLength :: byte
  hp_Priority :: priority_param

definition WriteHeaders :: "headers_param \<Rightarrow> (framer_w, h2err, unit) prog" where
  "WriteHeaders p fr =
     (let padded = (hp_PadLength p \<noteq> 0); prio = (hp_Priority p \<noteq> prio0) in
      if \<not> validStreamID (hp_StreamID p) \<and> \<not> AllowIllegalWrites fr then (Err errStreamID, fr)
      else if prio \<and> \<not> validStreamIDOrZero (StreamDep (hp_Priority p)) \<and> \<not> AllowIllegalWrites fr
           then (Err errDepStreamID, fr)
      else
        let flags = (if padded then FlagPadded else 0)
                 OR (if hp_EndStream p then FlagEndStream else 0)
                 OR (if hp_EndHeaders p then FlagEndHeaders else 0)
                 OR (if prio then FlagPriority else 0);
            payloadLen = (if padded then 1 + unat (hp_PadLength p) else 0)
                 + (if prio then 5 else 0) + length (hp_BlockFragment p);
            v = StreamDep (hp_Priority p) OR (if Exclusive (hp_Priority p) then 0x80000000 else 0) in
        bindP (startWrite FrameHeaders flags (hp_StreamID p) payloadLen) (\<lambda>_.
        bindP (if padded then writeByte (hp_PadLength p) else ret ()) (\<lambda>_.
        bindP (if prio then bindP (writeUint32 v) (\<lambda>_. writeByte (Weight (hp_Priority p))) else ret ()) (\<lambda>_.
        bindP (writeBytes (hp_BlockFragment p)) (\<lambda>_.
        bindP (writeBytes (replicate (unat (hp_PadLength p)) 0)) (\<lambda>_. endWrite))))) fr)"

definition WritePriority :: "u32 \<Rightarrow> priority_param \<Rightarrow> (framer_w, h2err, unit) prog" where
  "WritePriority streamID p fr =
     (if \<not> validStreamID streamID \<and> \<not> AllowIllegalWrites fr then (Err errStreamID, fr)
      else if \<not> validStreamIDOrZero (StreamDep p) then (Err errDepStreamID, fr)
      else
        bindP (startWrite FramePriority 0 streamID 5) (\<lambda>_.
        bindP (writeUint32 (StreamDep p OR (if Exclusive p then 0x80000000 else 0))) (\<lambda>_.
        bindP (writeByte (Weight p)) (\<lambda>_. endWrite))) fr)"

definition WriteRSTStream :: "u32 \<Rightarrow> u32 \<Rightarrow> (framer_w, h2err, unit) prog" where
  "WriteRSTStream streamID code fr =
     (if \<not> validStreamID streamID \<and> \<not> AllowIllegalWrites fr then (Err errStreamID, fr)
      else
        bindP (startWrite FrameRSTStream 0 streamID 4) (\<lambda>_.
        bindP (writeUint32 code) (\<lambda>_. endWrite)) fr)"

fun writeSettingList :: "(u16 \<times> u32) list \<Rightarrow> (framer_w, h2err, unit) prog" where
  "writeSettingList [] fr = (Ok (), fr)"
| "writeSettingList ((i, v) # ss) fr =
     bindP (writeUint16 i) (\<lambda>_. bindP (writeUint32 v) (\<lambda>_. writeSettingList ss)) fr"

definition WriteSettings :: "(u16 \<times> u32) list \<Rightarrow> (framer_w, h2err, unit) prog" where
  "WriteSettings settings fr =
     bindP (startWrite FrameSettings 0 0 (6 * length settings)) (\<lambda>_.
     bindP (writeSettingList settings) (\<lambda>_. endWrite)) fr"

definition WriteSettingsAck :: "(framer_w, h2err, unit) prog" where
  "WriteSettingsAck fr = bindP (startWrite FrameSettings FlagAck 0 0) (\<lambda>_. endWrite) fr"

record push_param =
  pp_StreamID :: u32
  pp_PromiseID :: u32
  pp_BlockFragment :: "byte list"
  pp_EndHeaders :: bool
  pp_PadLength :: byte

definition WritePushPromise :: "push_param \<Rightarrow> (framer_w, h2err, unit) prog" where
  "WritePushPromise p fr =
     (let padded = (pp_PadLength p \<noteq> 0) in
      if \<not> AllowIllegalWrites fr \<and> (\<not> validStreamID (pp_StreamID p) \<or> \<not> validStreamID (pp_PromiseID p))
      then (Err errStreamID, fr)
      else if \<not> validStreamID (pp_PromiseID p) \<and> \<not> AllowIllegalWrites fr then (Err errStreamID, fr)
      else
        let flags = (if padded then FlagPadded else 0) OR (if pp_EndHeaders p then FlagEndHeaders else 0);
            payloadLen = (if padded then 1 + unat (pp_PadLength p) else 0) + 4 + length (pp_BlockFragment p) in
        bindP (startWrite FramePushPromise flags (pp_StreamID p) payloadLen) (\<lambda>_.
        bindP (if padded then writeByte (pp_PadLength p) else ret ()) (\<lambda>_.
        bindP (writeUint32 (pp_PromiseID p)) (\<lambda>_.
        bindP (writeBytes (pp_BlockFragment p)) (\<lambda>_.
        bindP (writeBytes (replicate (unat (pp_PadLength p)) 0)) (\<lambda>_. endWrite))))) fr)"

text \<open>The data of a PING is an array of eight bytes.\<close>

definition WritePing :: "bool \<Rightarrow> byte list \<Rightarrow> (framer_w, h2err, unit) prog" where
  "WritePing ack data fr =
     bindP (startWrite FramePing (if ack then FlagAck else 0) 0 (length data)) (\<lambda>_.
     bindP (writeBytes data) (\<lambda>_. endWrite)) fr"

definition WriteGoAway :: "u32 \<Rightarrow> u32 \<Rightarrow> byte list \<Rightarrow> (framer_w, h2err, unit) prog" where
  "WriteGoAway maxStreamID code debugData fr =
     bindP (startWrite FrameGoAway 0 0 (8 + length debugData)) (\<lambda>_.
     bindP (writeUint32 (maxStreamID AND 0x7fffffff)) (\<lambda>_.
     bindP (writeUint32 code) (\<lambda>_.
     bindP (writeBytes debugData) (\<lambda>_. endWrite)))) fr"

definition WriteWindowUpdate :: "u32 \<Rightarrow> u32 \<Rightarrow> (framer_w, h2err, unit) prog" where
  "WriteWindowUpdate streamID incr fr =
     (if (incr < 1 \<or> incr > 2147483647) \<and> \<not> AllowIllegalWrites fr then (Err errIllegalIncrement, fr)
      else
        bindP (startWrite FrameWindowUpdate 0 streamID 4) (\<lambda>_.
        bindP (writeUint32 incr) (\<lambda>_. endWrite)) fr)"

definition WriteContinuation :: "u32 \<Rightarrow> bool \<Rightarrow> byte list \<Rightarrow> (framer_w, h2err, unit) prog" where
  "WriteContinuation streamID endHeaders headerBlockFragment fr =
     (if \<not> validStreamID streamID \<and> \<not> AllowIllegalWrites fr then (Err errStreamID, fr)
      else
        bindP (startWrite FrameContinuation (if endHeaders then FlagEndHeaders else 0) streamID
                 (length headerBlockFragment)) (\<lambda>_.
        bindP (writeBytes headerBlockFragment) (\<lambda>_. endWrite)) fr)"

definition WriteRawFrame :: "byte \<Rightarrow> byte \<Rightarrow> u32 \<Rightarrow> byte list \<Rightarrow> (framer_w, h2err, unit) prog" where
  "WriteRawFrame t flags streamID payload fr =
     bindP (startWrite t flags streamID (length payload)) (\<lambda>_.
     bindP (writeBytes payload) (\<lambda>_. endWrite)) fr"

section \<open>Parsing frames\<close>

text \<open>Slice expressions of a payload: a panic when out of range.\<close>

definition slice :: "byte list \<Rightarrow> int \<Rightarrow> int \<Rightarrow> (h2err, byte list) res" where
  "slice p lo hi =
     (if 0 \<le> lo \<and> lo \<le> hi \<and> hi \<le> int (length p) then Ok (take (nat (hi - lo)) (drop (nat lo) p)) else Panic)"

definition be32_at :: "byte list \<Rightarrow> int \<Rightarrow> (h2err, u32) res" where
  "be32_at p lo = bindR (slice p lo (lo + 4)) (\<lambda>b. of_option (Uint32 b))"

definition be16_at :: "byte list \<Rightarrow> int \<Rightarrow> (h2err, u16) res" where
  "be16_at p lo = bindR (slice p lo (lo + 2)) (\<lambda>b. of_option (Uint16 b))"

definition index :: "byte list \<Rightarrow> nat \<Rightarrow> (h2err, byte) res" where
  "index p i = (if i < length p then Ok (p ! i) else Panic)"

fun readByte :: "byte list \<Rightarrow> (h2err, byte list \<times> byte) res" where
  "readByte [] = Err ErrUnexpectedEOF"
| "readByte (b # p) = Ok (p, b)"

definition readUint32 :: "byte list \<Rightarrow> (h2err, byte list \<times> u32) res" where
  "readUint32 p =
     (if length p < 4 then Err ErrUnexpectedEOF else bindR (be32_at p 0) (\<lambda>v. Ok (drop 4 p, v)))"

text \<open>The netpoll reader a framer reads from, as a record of functions over its state.\<close>

record 's netpoll_reader =
  np_Next :: "int \<Rightarrow> ('s, berr, byte list) prog"
  np_ReadByte :: "('s, berr, byte) prog"

definition lift_rd :: "('s, berr, 'a) prog \<Rightarrow> ('s, h2err, 'a) prog" where
  "lift_rd p = (\<lambda>s. case p s of
      (Ok x, s') \<Rightarrow> (Ok x, s') | (Err e, s') \<Rightarrow> (Err (ReaderError e), s')
    | (Panic, s') \<Rightarrow> (Panic, s') | (Diverge, s') \<Rightarrow> (Diverge, s'))"

definition parseDataFrame :: "'s netpoll_reader \<Rightarrow> frame_header \<Rightarrow> ('s, h2err, frame) prog" where
  "parseDataFrame rd fh =
     (if fh_StreamID fh = 0 then throw (connError ErrCodeProtocol ''DATA frame with stream ID 0'')
      else
        bindP (if Has (fh_Flags fh) FlagPadded
               then bindP (lift_rd (np_ReadByte rd)) (\<lambda>padSize. ret (padSize, uint (fh_Length fh) - 1))
               else ret (0, uint (fh_Length fh))) (\<lambda>(padSize, payloadLen).
          if uint padSize > payloadLen then throw (connError ErrCodeProtocol ''pad size larger than data payload'')
          else bindP (lift_rd (np_Next rd payloadLen)) (\<lambda>data s.
                 (bindR (slice data 0 (payloadLen - uint padSize)) (\<lambda>d. Ok (DataFrame fh d)), s))))"

definition parseHeadersFrame :: "frame_header \<Rightarrow> byte list \<Rightarrow> (h2err, frame) res" where
  "parseHeadersFrame fh p =
     (if fh_StreamID fh = 0 then Err (connError ErrCodeProtocol ''HEADERS frame with stream ID 0'')
      else
        bindR (if Has (fh_Flags fh) FlagPadded then readByte p else Ok (p, 0)) (\<lambda>(p, padLength).
        bindR (if Has (fh_Flags fh) FlagPriority then
                 bindR (readUint32 p) (\<lambda>(p, v).
                 bindR (readByte p) (\<lambda>(p, w).
                   let dep = v AND 0x7fffffff in
                   Ok (p, \<lparr>StreamDep = dep, Exclusive = (v \<noteq> dep), Weight = w\<rparr>)))
               else Ok (p, prio0)) (\<lambda>(p, prio).
          if int (length p) - uint padLength < 0 then Err (StreamError (fh_StreamID fh) ErrCodeProtocol)
          else bindR (slice p 0 (int (length p) - uint padLength)) (\<lambda>frag. Ok (HeadersFrame fh prio frag)))))"

definition parsePriorityFrame :: "frame_header \<Rightarrow> byte list \<Rightarrow> (h2err, frame) res" where
  "parsePriorityFrame fh payload =
     (if fh_StreamID fh = 0 then Err (connError ErrCodeProtocol ''PRIORITY frame with stream ID 0'')
      else if length payload \<noteq> 5 then Err (connError ErrCodeFrameSize ''PRIORITY frame payload size; want 5'')
      else
        bindR (be32_at payload 0) (\<lambda>v.
        bindR (index payload 4) (\<lambda>w.
          let streamID = v AND 0x7fffffff in
          Ok (PriorityFrame fh \<lparr>StreamDep = streamID, Exclusive = (streamID \<noteq> v), Weight = w\<rparr>))))"

definition parseRSTStreamFrame :: "frame_header \<Rightarrow> byte list \<Rightarrow> (h2err, frame) res" where
  "parseRSTStreamFrame fh p =
     (if length p \<noteq> 4 then Err (ConnectionError ErrCodeFrameSize)
      else if fh_StreamID fh = 0 then Err (ConnectionError ErrCodeProtocol)
      else bindR (be32_at p 0) (\<lambda>code. Ok (RSTStreamFrame fh code)))"

definition NumSettings :: "byte list \<Rightarrow> nat" where
  "NumSettings p = length p div 6"

definition Setting :: "byte list \<Rightarrow> nat \<Rightarrow> (h2err, u16 \<times> u32) res" where
  "Setting p i =
     bindR (be16_at p (int i * 6)) (\<lambda>sid.
     bindR (be32_at p (int i * 6 + 2)) (\<lambda>v. Ok (sid, v)))"

text \<open>The scan of \<^verbatim>\<open>SettingsFrame.Value\<close> from index \<open>i\<close>, with the number of indices left.\<close>

fun Value_from :: "nat \<Rightarrow> byte list \<Rightarrow> u16 \<Rightarrow> nat \<Rightarrow> (h2err, u32 option) res" where
  "Value_from 0 p sid i = Ok None"
| "Value_from (Suc k) p sid i =
     bindR (Setting p i) (\<lambda>(id', v). if id' = sid then Ok (Some v) else Value_from k p sid (Suc i))"

definition Value :: "byte list \<Rightarrow> u16 \<Rightarrow> (h2err, u32 option) res" where
  "Value p sid = Value_from (NumSettings p) p sid 0"

definition IsAck :: "frame_header \<Rightarrow> bool" where
  "IsAck fh = Has (fh_Flags fh) FlagAck"

definition parseSettingsFrame :: "frame_header \<Rightarrow> byte list \<Rightarrow> (h2err, frame) res" where
  "parseSettingsFrame fh p =
     (if Has (fh_Flags fh) FlagAck \<and> fh_Length fh > 0 then Err (ConnectionError ErrCodeFrameSize)
      else if fh_StreamID fh \<noteq> 0 then Err (ConnectionError ErrCodeProtocol)
      else if length p mod 6 \<noteq> 0 then Err (ConnectionError ErrCodeFrameSize)
      else bindR (Value p SettingInitialWindowSize) (\<lambda>r.
             case r of
               Some v \<Rightarrow> if v > 2147483647 then Err (ConnectionError ErrCodeFlowControl) else Ok (SettingsFrame fh p)
             | None \<Rightarrow> Ok (SettingsFrame fh p)))"

text \<open>\<^verbatim>\<open>HasDuplicates\<close>: a quadratic scan for fewer than ten settings, a set of seen identifiers otherwise.\<close>

fun setting_ids :: "nat \<Rightarrow> byte list \<Rightarrow> nat \<Rightarrow> (h2err, u16 list) res" where
  "setting_ids 0 p i = Ok []"
| "setting_ids (Suc k) p i =
     bindR (Setting p i) (\<lambda>(sid, _). bindR (setting_ids k p (Suc i)) (\<lambda>ids. Ok (sid # ids)))"

fun dup_quadratic :: "u16 list \<Rightarrow> bool" where
  "dup_quadratic [] = False"
| "dup_quadratic (i # ids) = (list_ex (\<lambda>j. i = j) ids \<or> dup_quadratic ids)"

fun dup_seen :: "u16 list \<Rightarrow> u16 list \<Rightarrow> bool" where
  "dup_seen seen [] = False"
| "dup_seen seen (i # ids) = (if i \<in> set seen then True else dup_seen (i # seen) ids)"

definition HasDuplicates :: "byte list \<Rightarrow> (h2err, bool) res" where
  "HasDuplicates p =
     (let num = NumSettings p in
      if num = 0 then Ok False
      else bindR (setting_ids num p 0) (\<lambda>ids.
             if num < 10 then Ok (dup_quadratic ids) else Ok (dup_seen [] ids)))"

text \<open>\<^verbatim>\<open>ForeachSetting\<close> with a callback that may fail; the callback's state is threaded through.\<close>

fun ForeachSetting :: "nat \<Rightarrow> byte list \<Rightarrow> nat \<Rightarrow> (u16 \<times> u32 \<Rightarrow> ('s, h2err, unit) prog) \<Rightarrow> ('s, h2err, unit) prog" where
  "ForeachSetting 0 p i fn s = (Ok (), s)"
| "ForeachSetting (Suc k) p i fn s =
     (case Setting p i of
        Ok x \<Rightarrow> bindP (fn x) (\<lambda>_. ForeachSetting k p (Suc i) fn) s
      | Err e \<Rightarrow> (Err e, s) | Panic \<Rightarrow> (Panic, s) | Diverge \<Rightarrow> (Diverge, s))"

definition parsePushPromise :: "frame_header \<Rightarrow> byte list \<Rightarrow> (h2err, frame) res" where
  "parsePushPromise fh p =
     (if fh_StreamID fh = 0 then Err (ConnectionError ErrCodeProtocol)
      else
        bindR (if Has (fh_Flags fh) FlagPadded then readByte p else Ok (p, 0)) (\<lambda>(p, padLength).
        bindR (readUint32 p) (\<lambda>(p, promiseID).
          if uint padLength > int (length p) then Err (ConnectionError ErrCodeProtocol)
          else bindR (slice p 0 (int (length p) - uint padLength)) (\<lambda>frag.
                 Ok (PushPromiseFrame fh (promiseID AND 0x7fffffff) frag)))))"

definition parsePingFrame :: "frame_header \<Rightarrow> byte list \<Rightarrow> (h2err, frame) res" where
  "parsePingFrame fh payload =
     (if length payload \<noteq> 8 then Err (ConnectionError ErrCodeFrameSize)
      else if fh_StreamID fh \<noteq> 0 then Err (ConnectionError ErrCodeProtocol)
      else Ok (PingFrame fh payload))"

definition parseGoAwayFrame :: "frame_header \<Rightarrow> byte list \<Rightarrow> (h2err, frame) res" where
  "parseGoAwayFrame fh p =
     (if fh_StreamID fh \<noteq> 0 then Err (ConnectionError ErrCodeProtocol)
      else if length p < 8 then Err (ConnectionError ErrCodeFrameSize)
      else
        bindR (be32_at p 0) (\<lambda>last.
        bindR (be32_at p 4) (\<lambda>code.
        bindR (slice p 8 (int (length p))) (\<lambda>debugData.
          Ok (GoAwayFrame fh (last AND 0x7fffffff) code debugData)))))"

definition parseWindowUpdateFrame :: "frame_header \<Rightarrow> byte list \<Rightarrow> (h2err, frame) res" where
  "parseWindowUpdateFrame fh p =
     (if length p \<noteq> 4 then Err (ConnectionError ErrCodeFrameSize)
      else bindR (be32_at p 0) (\<lambda>v.
        let inc = v AND 0x7fffffff in
        if inc = 0 then
          (if fh_StreamID fh = 0 then Err (ConnectionError ErrCodeProtocol)
           else Err (StreamError (fh_StreamID fh) ErrCodeProtocol))
        else Ok (WindowUpdateFrame fh inc)))"

definition parseContinuationFrame :: "frame_header \<Rightarrow> byte list \<Rightarrow> (h2err, frame) res" where
  "parseContinuationFrame fh p =
     (if fh_StreamID fh = 0 then Err (connError ErrCodeProtocol ''CONTINUATION frame with stream ID 0'')
      else Ok (ContinuationFrame fh p))"

definition parseUnknownFrame :: "frame_header \<Rightarrow> byte list \<Rightarrow> (h2err, frame) res" where
  "parseUnknownFrame fh p = Ok (UnknownFrame fh p)"

text \<open>The parser table, indexed by the frame types 1 to 9.\<close>

definition typeFrameParser :: "byte \<Rightarrow> frame_header \<Rightarrow> byte list \<Rightarrow> (h2err, frame) res" where
  "typeFrameParser t =
     (if t = FrameHeaders then parseHeadersFrame
      else if t = FramePriority then parsePriorityFrame
      else if t = FrameRSTStream then parseRSTStreamFrame
      else if t = FrameSettings then parseSettingsFrame
      else if t = FramePushPromise then parsePushPromise
      else if t = FramePing then parsePingFrame
      else if t = FrameGoAway then parseGoAwayFrame
      else if t = FrameWindowUpdate then parseWindowUpdateFrame
      else if t = FrameContinuation then parseContinuationFrame
      else parseUnknownFrame)"

section \<open>Reading frames\<close>

datatype meta_err =
    headerFieldValueError gostring
  | headerFieldNameError gostring
  | errPseudoAfterRegular
  | pseudoHeaderError gostring
  | duplicatePseudoHeaderError gostring
  | errMixPseudoHeaderTypes

datatype err_detail = Reason string | MetaErr meta_err

record 's framer_r =
  f_reader :: 's
  lastHeaderStream :: u32
  lastFrame :: "frame option"
  errDetail :: "err_detail option"
  maxReadSize :: u32
  AllowIllegalReads :: bool
  MaxHeaderListSize :: u32

definition maxHeaderListSize :: "'s framer_r \<Rightarrow> u32" where
  "maxHeaderListSize fr = (if MaxHeaderListSize fr = 0 then 16777216 else MaxHeaderListSize fr)"

definition maxFrameSize :: u32 where "maxFrameSize = 16777215"

definition SetMaxReadFrameSize :: "u32 \<Rightarrow> 's framer_r \<Rightarrow> 's framer_r" where
  "SetMaxReadFrameSize v fr = fr\<lparr>maxReadSize := (if v > maxFrameSize then maxFrameSize else v)\<rparr>"

definition NewFramer_r :: "'s \<Rightarrow> 's framer_r" where
  "NewFramer_r r = SetMaxReadFrameSize maxFrameSize
     \<lparr>f_reader = r, lastHeaderStream = 0, lastFrame = None, errDetail = None, maxReadSize = 0,
      AllowIllegalReads = False, MaxHeaderListSize = 0\<rparr>"

definition on_reader :: "('s, h2err, 'a) prog \<Rightarrow> ('s framer_r, h2err, 'a) prog" where
  "on_reader p fr = (case p (f_reader fr) of (r, s') \<Rightarrow> (r, fr\<lparr>f_reader := s'\<rparr>))"

definition readAndCheckFrameHeader :: "'s netpoll_reader \<Rightarrow> ('s framer_r, h2err, frame_header) prog" where
  "readAndCheckFrameHeader rd =
     bindP (on_reader (lift_rd (np_Next rd 9))) (\<lambda>buf fr.
       (bindR (index buf 0) (\<lambda>b0. bindR (index buf 1) (\<lambda>b1. bindR (index buf 2) (\<lambda>b2.
        bindR (index buf 3) (\<lambda>b3. bindR (index buf 4) (\<lambda>b4.
        bindR (be32_at buf 5) (\<lambda>sid.
          let fh = \<lparr>fh_Type = b3, fh_Flags = b4,
                    fh_Length = push_bit 16 (ucast b0) OR push_bit 8 (ucast b1) OR ucast b2,
                    fh_StreamID = sid AND 0x7fffffff\<rparr> in
          if fh_Length fh > maxReadSize fr then Err ErrFrameTooLarge else Ok fh)))))), fr))"

definition fr_connError :: "u32 \<Rightarrow> string \<Rightarrow> 's framer_r \<Rightarrow> h2err \<times> 's framer_r" where
  "fr_connError code reason fr = (ConnectionError code, fr\<lparr>errDetail := Some (Reason reason)\<rparr>)"

definition checkFrameOrder :: "frame \<Rightarrow> ('s framer_r, h2err, unit) prog" where
  "checkFrameOrder f fr =
     (let fh = Header f; fr = fr\<lparr>lastFrame := Some f\<rparr>;
          fail = (\<lambda>reason. case fr_connError ErrCodeProtocol reason fr of (e, fr') \<Rightarrow> (Err e, fr')) in
      if AllowIllegalReads fr then (Ok (), fr)
      else if lastHeaderStream fr \<noteq> 0 \<and> fh_Type fh \<noteq> FrameContinuation then fail ''expected CONTINUATION''
      else if lastHeaderStream fr \<noteq> 0 \<and> fh_StreamID fh \<noteq> lastHeaderStream fr then fail ''CONTINUATION for another stream''
      else if lastHeaderStream fr = 0 \<and> fh_Type fh = FrameContinuation then fail ''unexpected CONTINUATION''
      else if fh_Type fh = FrameHeaders \<or> fh_Type fh = FrameContinuation then
        (Ok (), fr\<lparr>lastHeaderStream := (if Has (fh_Flags fh) FlagEndHeaders then 0 else fh_StreamID fh)\<rparr>)
      else (Ok (), fr))"

text \<open>\<^verbatim>\<open>ReadFrame\<close> up to the order check: one frame off the wire.\<close>

definition parse_payload :: "'s netpoll_reader \<Rightarrow> frame_header \<Rightarrow> ('s, h2err, frame) prog" where
  "parse_payload rd fh =
     (if fh_Type fh = FrameData then parseDataFrame rd fh
      else bindP (lift_rd (np_Next rd (uint (fh_Length fh)))) (\<lambda>payload s. (typeFrameParser (fh_Type fh) fh payload, s)))"

definition stash_connError :: "('s framer_r, h2err, 'a) prog \<Rightarrow> ('s framer_r, h2err, 'a) prog" where
  "stash_connError p fr = (case p fr of
      (Err (connError code reason), fr') \<Rightarrow> (case fr_connError code reason fr' of (e, fr'') \<Rightarrow> (Err e, fr''))
    | (r, fr') \<Rightarrow> (r, fr'))"

definition readFrame1 :: "'s netpoll_reader \<Rightarrow> ('s framer_r, h2err, frame) prog" where
  "readFrame1 rd fr =
     bindP (readAndCheckFrameHeader rd) (\<lambda>fh.
     bindP (stash_connError (on_reader (parse_payload rd fh))) (\<lambda>f.
     bindP (checkFrameOrder f) (\<lambda>_. ret f))) (fr\<lparr>errDetail := None\<rparr>)"

section \<open>Header blocks\<close>

text \<open>
  The HPACK decoder: a write of a fragment yields the hfs completed by it, whether it succeeded, and
  the new decoder state; closing tells whether the block was complete.
\<close>

record 'h hpack =
  hd_Write :: "'h \<Rightarrow> byte list \<Rightarrow> header_field list \<times> bool \<times> 'h"
  hd_Close :: "'h \<Rightarrow> bool \<times> 'h"
  ValidHeaderFieldValue :: "gostring \<Rightarrow> bool"
  IsTokenRune :: "byte \<Rightarrow> bool"

definition IsPseudo :: "header_field \<Rightarrow> bool" where
  "IsPseudo hf \<longleftrightarrow> (case fst hf of c # _ \<Rightarrow> c = 58 | [] \<Rightarrow> False)"

definition hf_Size :: "header_field \<Rightarrow> nat" where
  "hf_Size hf = length (fst hf) + length (snd hf) + 32"

definition validWireHeaderFieldName :: "(byte \<Rightarrow> bool) \<Rightarrow> gostring \<Rightarrow> bool" where
  "validWireHeaderFieldName isTokenRune v \<longleftrightarrow>
     v \<noteq> [] \<and> list_all (\<lambda>r. isTokenRune r \<and> \<not> (65 \<le> r \<and> r \<le> 90)) v"

record meta =
  mh_Fields :: "header_field list"
  mh_Truncated :: bool
  remainSize :: u32
  sawRegular :: bool
  invalid :: "meta_err option"
  emitEnabled :: bool

text \<open>The emit function of \<^verbatim>\<open>readMetaFrame\<close>; the decoder calls it only while emitting is enabled.\<close>

definition emit :: "'h hpack \<Rightarrow> header_field \<Rightarrow> meta \<Rightarrow> meta" where
  "emit hp hf m =
     (if \<not> emitEnabled m then m
      else
        let m = (if \<not> ValidHeaderFieldValue hp (snd hf) then m\<lparr>invalid := Some (headerFieldValueError (snd hf))\<rparr> else m);
            m = (if IsPseudo hf then
                   (if sawRegular m then m\<lparr>invalid := Some errPseudoAfterRegular\<rparr> else m)
                 else
                   let m = m\<lparr>sawRegular := True\<rparr> in
                   (if \<not> validWireHeaderFieldName (IsTokenRune hp) (fst hf)
                    then m\<lparr>invalid := Some (headerFieldNameError (fst hf))\<rparr> else m)) in
        if invalid m \<noteq> None then m\<lparr>emitEnabled := False\<rparr>
        else
          let size = of_nat (hf_Size hf) :: u32 in
          if size > remainSize m then m\<lparr>emitEnabled := False, mh_Truncated := True\<rparr>
          else m\<lparr>remainSize := remainSize m - size, mh_Fields := mh_Fields m @ [hf]\<rparr>)"

definition PseudoFields :: "header_field list \<Rightarrow> header_field list" where
  "PseudoFields hfs = takeWhile IsPseudo hfs"

definition RegularFields :: "header_field list \<Rightarrow> header_field list" where
  "RegularFields hfs = dropWhile IsPseudo hfs"

fun PseudoValue :: "header_field list \<Rightarrow> gostring \<Rightarrow> gostring" where
  "PseudoValue [] pseudo = []"
| "PseudoValue (hf # hfs) pseudo =
     (if \<not> IsPseudo hf then [] else if tl (fst hf) = pseudo then snd hf else PseudoValue hfs pseudo)"

definition request_pseudos :: "gostring list" where
  "request_pseudos = map bytes_of ['':method'', '':path'', '':scheme'', '':authority'']"

definition response_pseudo :: gostring where
  "response_pseudo = bytes_of '':status''"

text \<open>The loop of \<^verbatim>\<open>checkPseudos\<close>: \<open>before\<close> is \<^verbatim>\<open>pf[:i]\<close>.\<close>

fun checkPseudosLoop :: "header_field list \<Rightarrow> header_field list \<Rightarrow> bool \<Rightarrow> bool \<Rightarrow> (meta_err, bool \<times> bool) res" where
  "checkPseudosLoop before [] isRequest isResponse = Ok (isRequest, isResponse)"
| "checkPseudosLoop before (hf # pf) isRequest isResponse =
     (if fst hf \<in> set request_pseudos \<or> fst hf = response_pseudo then
        (if list_ex (\<lambda>hf2. fst hf = fst hf2) before then Err (duplicatePseudoHeaderError (fst hf))
         else checkPseudosLoop (before @ [hf]) pf
                (isRequest \<or> fst hf \<in> set request_pseudos) (isResponse \<or> fst hf = response_pseudo))
      else Err (pseudoHeaderError (fst hf)))"

definition checkPseudos :: "header_field list \<Rightarrow> meta_err option" where
  "checkPseudos hfs =
     (case checkPseudosLoop [] (PseudoFields hfs) False False of
        Ok (isRequest, isResponse) \<Rightarrow> if isRequest \<and> isResponse then Some errMixPseudoHeaderTypes else None
      | Err e \<Rightarrow> Some e
      | _ \<Rightarrow> None)"

text \<open>
  The loop that feeds fragments to the decoder and reads CONTINUATION frames until the block ends. The
  next frame is read with \<open>readFrame1\<close>: inside a header block the order check lets no HEADERS frame through, so
  \<^verbatim>\<open>ReadFrame\<close> never re-enters here. \<open>fuel\<close> bounds the number of frames; running out of it is \<open>Diverge\<close>.
\<close>

fun readMetaLoop :: "nat \<Rightarrow> 's netpoll_reader \<Rightarrow> 'h hpack \<Rightarrow> byte list \<Rightarrow> bool \<Rightarrow>
    ('s framer_r \<times> 'h \<times> meta, h2err, unit) prog" where
  "readMetaLoop 0 rd hp frag ended st = (Diverge, st)"
| "readMetaLoop (Suc fuel) rd hp frag ended (fr, hdec, m) =
     (case hd_Write hp hdec frag of (hfs, ok, hdec') \<Rightarrow>
       let m' = fold (emit hp) hfs m in
       if \<not> ok then (Err (ConnectionError ErrCodeCompression), (fr, hdec', m'))
       else if ended then (Ok (), (fr, hdec', m'))
       else (case readFrame1 rd fr of
               (Ok f, fr') \<Rightarrow>
                 (case f of
                    ContinuationFrame fh frag' \<Rightarrow> readMetaLoop fuel rd hp frag' (Has (fh_Flags fh) FlagEndHeaders) (fr', hdec', m')
                  | _ \<Rightarrow> (Panic, (fr', hdec', m')))
             | (Err e, fr') \<Rightarrow> (Err e, (fr', hdec', m'))
             | (Panic, fr') \<Rightarrow> (Panic, (fr', hdec', m'))
             | (Diverge, fr') \<Rightarrow> (Diverge, (fr', hdec', m'))))"

definition meta0 :: "u32 \<Rightarrow> meta" where
  "meta0 sz = \<lparr>mh_Fields = [], mh_Truncated = False, remainSize = sz, sawRegular = False, invalid = None,
     emitEnabled = True\<rparr>"

definition readMetaFrame :: "nat \<Rightarrow> 's netpoll_reader \<Rightarrow> 'h hpack \<Rightarrow> frame_header \<Rightarrow> priority_param \<Rightarrow> byte list \<Rightarrow>
    ('s framer_r \<times> 'h, h2err, frame) prog" where
  "readMetaFrame fuel rd hp fh prio frag =
     (\<lambda>(fr, hdec).
       if AllowIllegalReads fr then (Err errIllegalMeta, (fr, hdec))
       else
         case readMetaLoop fuel rd hp frag (Has (fh_Flags fh) FlagEndHeaders) (fr, hdec, meta0 (maxHeaderListSize fr)) of
           (Ok _, (fr, hdec, m)) \<Rightarrow>
             (case hd_Close hp hdec of (ok, hdec) \<Rightarrow>
                if \<not> ok then (Err (ConnectionError ErrCodeCompression), (fr, hdec))
                else (case invalid m of
                        Some e \<Rightarrow> (Err (StreamError (fh_StreamID fh) ErrCodeProtocol), (fr\<lparr>errDetail := Some (MetaErr e)\<rparr>, hdec))
                      | None \<Rightarrow>
                          (case checkPseudos (mh_Fields m) of
                             Some e \<Rightarrow> (Err (StreamError (fh_StreamID fh) ErrCodeProtocol), (fr\<lparr>errDetail := Some (MetaErr e)\<rparr>, hdec))
                           | None \<Rightarrow> (Ok (MetaHeadersFrame fh prio (mh_Fields m) (mh_Truncated m)), (fr, hdec)))))
         | (Err e, (fr, hdec, _)) \<Rightarrow> (Err e, (fr, hdec))
         | (Panic, (fr, hdec, _)) \<Rightarrow> (Panic, (fr, hdec))
         | (Diverge, (fr, hdec, _)) \<Rightarrow> (Diverge, (fr, hdec)))"

text \<open>\<^verbatim>\<open>ReadFrame\<close>; \<open>wantMeta\<close> tells whether \<^verbatim>\<open>ReadMetaHeaders\<close> is set.\<close>

definition ReadFrame :: "nat \<Rightarrow> 's netpoll_reader \<Rightarrow> 'h hpack \<Rightarrow> bool \<Rightarrow> ('s framer_r \<times> 'h, h2err, frame) prog" where
  "ReadFrame fuel rd hp wantMeta =
     (\<lambda>(fr, hdec).
       case readFrame1 rd fr of
         (Ok f, fr') \<Rightarrow>
           (if fh_Type (Header f) = FrameHeaders \<and> wantMeta then
              (case f of
                 HeadersFrame fh prio frag \<Rightarrow> readMetaFrame fuel rd hp fh prio frag (fr', hdec)
               | _ \<Rightarrow> (Panic, (fr', hdec)))
            else (Ok f, (fr', hdec)))
       | (Err e, fr') \<Rightarrow> (Err e, (fr', hdec))
       | (Panic, fr') \<Rightarrow> (Panic, (fr', hdec))
       | (Diverge, fr') \<Rightarrow> (Diverge, (fr', hdec)))"

end
