(* ===== verification/GrpcFrameProps.thy ===== *)
theory GrpcFrameProps
  imports GrpcFrame
begin

text \<open>
  Correctness of the HTTP/2 framing layer: every frame the writer can emit is read back as the frame it stands
  for, sequences of frames come back in order, reading never panics on hostile bytes, the HEADERS / CONTINUATION
  order is enforced, and the assembled header list respects its size limit and the pseudo-header rules.
\<close>

section \<open>The reader contract\<close>

locale h2_reader =
  fixes rd :: "'s netpoll_reader" and rinv :: "'s \<Rightarrow> bool" and pending :: "'s \<Rightarrow> byte list"
  assumes np_Next_law: "rinv s \<Longrightarrow> n \<le> length (pending s) \<Longrightarrow>
      \<exists>s'. np_Next rd (int n) s = (Ok (take n (pending s)), s') \<and> rinv s' \<and> pending s' = drop n (pending s)"
    and np_Next_short: "rinv s \<Longrightarrow> length (pending s) < n \<Longrightarrow> \<exists>e s'. np_Next rd (int n) s = (Err e, s')"
    and np_ReadByte_law: "rinv s \<Longrightarrow> pending s = b # bs \<Longrightarrow>
      \<exists>s'. np_ReadByte rd s = (Ok b, s') \<and> rinv s' \<and> pending s' = bs"
    and np_ReadByte_short: "rinv s \<Longrightarrow> pending s = [] \<Longrightarrow> \<exists>e s'. np_ReadByte rd s = (Err e, s')"

text \<open>The default buffer of \<^verbatim>\<open>ByteBuf\<close> read through the netpoll interface.\<close>

definition bb_ReadByte :: "(bbuf, berr, byte) prog" where
  "bb_ReadByte = bindP (Next 1) (\<lambda>bs s. (of_option (Uint8 bs), s))"

definition bb_netpoll :: "bbuf netpoll_reader" where
  "bb_netpoll = \<lparr>np_Next = Next, np_ReadByte = bb_ReadByte\<rparr>"

interpretation bbn: h2_reader bb_netpoll bb_rinv bb_pending
proof unfold_locales
  fix s n assume r: "bb_rinv s"
  { assume n: "n \<le> length (bb_pending s)"
    show "\<exists>s'. np_Next bb_netpoll (int n) s = (Ok (take n (bb_pending s)), s') \<and> bb_rinv s'
        \<and> bb_pending s' = drop n (bb_pending s)"
      using advance[OF r n] Next_ok[OF r n] by (auto simp: bb_netpoll_def) }
  { assume n: "length (bb_pending s) < n"
    then show "\<exists>e s'. np_Next bb_netpoll (int n) s = (Err e, s')"
      using Next_err[OF r, of "int n"] by (auto simp: bb_netpoll_def) }
  { fix b bs assume p: "bb_pending s = b # bs"
    then have n: "1 \<le> length (bb_pending s)" by simp
    show "\<exists>s'. np_ReadByte bb_netpoll s = (Ok b, s') \<and> bb_rinv s' \<and> bb_pending s' = bs"
      using advance[OF r n] Next_ok[OF r n] p by (simp add: bb_netpoll_def bb_ReadByte_def bindP_def) }
  { assume p: "bb_pending s = []"
    then show "\<exists>e s'. np_ReadByte bb_netpoll s = (Err e, s')"
      using Next_err[OF r, of 1] by (auto simp: bb_netpoll_def bb_ReadByte_def bindP_def) }
qed

section \<open>Words of the frame header\<close>

definition frame_bytes :: "byte \<Rightarrow> byte \<Rightarrow> u32 \<Rightarrow> byte list \<Rightarrow> byte list" where
  "frame_bytes t flags sid payload = Put24 (of_nat (length payload)) @ [t, flags] @ PutUint32 sid @ payload"

lemma Get24:
  fixes n :: u32
  assumes "n < 2 ^ 24"
  shows "push_bit 16 (ucast (ucast (drop_bit 16 n) :: byte)) OR push_bit 8 (ucast (ucast (drop_bit 8 n) :: byte))
    OR ucast (ucast n :: byte) = n" (is "?w = n")
proof (rule bit_word_eqI)
  fix k assume "k < LENGTH(32)"
  then consider "k < 8" | "8 \<le> k" "k < 16" | "16 \<le> k" "k < 24" | "24 \<le> k" "k < 32" by fastforce
  moreover have "\<not> bit n k" if "24 \<le> k"
  proof -
    have "unat n < 2 ^ 24" using assms by (simp add: word_less_nat_alt)
    then have "take_bit 24 n = n" by (simp add: word_unat_eq_iff unsigned_take_bit_eq take_bit_nat_eq_self)
    then show ?thesis using that by (metis bit_take_bit_iff not_less)
  qed
  ultimately show "bit (?w :: u32) k = bit n k"
    by cases (auto simp: bit_simps)
qed

lemma mask31_id: "x AND 0x80000000 = 0 \<Longrightarrow> x AND 0x7fffffff = (x :: u32)"
proof (rule bit_word_eqI)
  fix n assume x: "x AND 0x80000000 = 0" and n: "n < LENGTH(32)"
  have m: "(0x7fffffff :: u32) = mask 31" "(0x80000000 :: u32) = push_bit 31 1"
    by (simp_all add: mask_eq_exp_minus_1 push_bit_eq_mult)
  have "bit (x AND push_bit 31 1) 31 = False" using x unfolding m by simp
  then have "\<not> bit x 31" by (simp add: bit_simps)
  then have "\<not> bit x n" if "\<not> n < 31" using that n by (cases "n = 31") auto
  then show "bit (x AND 0x7fffffff) n = bit x n" unfolding m using n by (auto simp: bit_simps)
qed

lemma word_pow_31_neq_0: "(0x80000000 :: u32) \<noteq> 0"
  by simp

lemma excl_bit:
  assumes "x AND 0x80000000 = (0 :: u32)"
  shows "(x OR 0x80000000) AND 0x7fffffff = x" "x OR 0x80000000 \<noteq> x"
proof -
  have "(x OR 0x80000000) AND 0x7fffffff = (x AND 0x7fffffff) OR (0x80000000 AND 0x7fffffff)"
    by (simp only: and.commute[of _ "0x7fffffff"] bit.conj_disj_distrib)
  then show "(x OR 0x80000000) AND 0x7fffffff = x" using mask31_id[OF assms] by simp
  have "(x OR 0x80000000) AND 0x80000000 = (0x80000000 :: u32)"
    using assms by (simp add: bit.conj_disj_distrib2)
  then show "x OR 0x80000000 \<noteq> x" using assms by (metis word_pow_31_neq_0)
qed

lemma mask31_idem [simp]: "(x AND 0x7fffffff) AND 0x7fffffff = (x AND (0x7fffffff :: u32))"
  by (simp add: and.assoc)

context h2_reader
begin

lemma lift_Next:
  assumes "rinv s" "pending s = bs @ rest"
  obtains s' where "lift_rd (np_Next rd (int (length bs))) s = (Ok bs, s')" "rinv s'" "pending s' = rest"
  using np_Next_law[OF assms(1), of "length bs"] assms(2) by (auto simp: lift_rd_def)

lemma read_header:
  assumes "rinv (f_reader fr)" "pending (f_reader fr) = frame_bytes t fl sid payload @ rest"
    "length payload < 2 ^ 24" "int (length payload) \<le> uint (maxReadSize fr)"
  shows "\<exists>s'. readAndCheckFrameHeader rd fr
     = (Ok \<lparr>fh_Type = t, fh_Flags = fl, fh_Length = of_nat (length payload), fh_StreamID = sid AND 0x7fffffff\<rparr>,
        fr\<lparr>f_reader := s'\<rparr>) \<and> rinv s' \<and> pending s' = payload @ rest"
proof -
  let ?n = "of_nat (length payload) :: u32"
  let ?h = "Put24 ?n @ [t, fl] @ PutUint32 sid"
  obtain s' where s': "lift_rd (np_Next rd 9) (f_reader fr) = (Ok ?h, s')" "rinv s'" "pending s' = payload @ rest"
    using lift_Next[OF assms(1), of ?h "payload @ rest"] assms(2) by (auto simp: frame_bytes_def Put24_def)
  have n: "?n < 2 ^ 24" "\<not> ?n > maxReadSize fr"
    using assms(3,4) uint_of_nat32[of "length payload"] by (auto simp: word_less_def word_le_def)
  have sid: "be32_at ?h 5 = Ok sid"
    using Uint32_Put[of sid "[]"] by (simp add: be32_at_def slice_def Put24_def)
  show ?thesis
    using s' Get24[OF n(1)] n(2) sid
    by (intro exI[of _ s']) (simp add: readAndCheckFrameHeader_def on_reader_def bindP_def index_def Put24_def Let_def)
qed

end

section \<open>Frame commands\<close>

text \<open>
  A call of one of the writer's methods; \<open>run_wcmd\<close> is the code, \<open>wire_of\<close> the frame type, flags, stream and
  payload it stands for, \<open>frame_of\<close> the frame a reader gets, \<open>wlegal\<close> the calls a conforming client makes.
\<close>

datatype wcmd =
    WData u32 bool "byte list"
  | WHeaders headers_param
  | WPriority u32 priority_param
  | WRST u32 u32
  | WSettings "(u16 \<times> u32) list"
  | WSettingsAck
  | WPush push_param
  | WPing bool "byte list"
  | WGoAway u32 u32 "byte list"
  | WWindow u32 u32
  | WCont u32 bool "byte list"

fun run_wcmd :: "wcmd \<Rightarrow> (framer_w, h2err, unit) prog" where
  "run_wcmd (WData sid es data) = WriteData sid es data"
| "run_wcmd (WHeaders p) = WriteHeaders p"
| "run_wcmd (WPriority sid p) = WritePriority sid p"
| "run_wcmd (WRST sid code) = WriteRSTStream sid code"
| "run_wcmd (WSettings ss) = WriteSettings ss"
| "run_wcmd WSettingsAck = WriteSettingsAck"
| "run_wcmd (WPush p) = WritePushPromise p"
| "run_wcmd (WPing ack data) = WritePing ack data"
| "run_wcmd (WGoAway sid code debug) = WriteGoAway sid code debug"
| "run_wcmd (WWindow sid inc) = WriteWindowUpdate sid inc"
| "run_wcmd (WCont sid eh frag) = WriteContinuation sid eh frag"

definition pad_prefix :: "byte \<Rightarrow> byte list" where
  "pad_prefix n = (if n \<noteq> 0 then [n] else [])"

definition prio_bytes :: "priority_param \<Rightarrow> byte list" where
  "prio_bytes p = PutUint32 (StreamDep p OR (if Exclusive p then 0x80000000 else 0)) @ [Weight p]"

definition settings_bytes :: "(u16 \<times> u32) list \<Rightarrow> byte list" where
  "settings_bytes ss = concat (map (\<lambda>(i, v). PutUint16 i @ PutUint32 v) ss)"

definition headers_flags :: "headers_param \<Rightarrow> byte" where
  "headers_flags p = (if hp_PadLength p \<noteq> 0 then FlagPadded else 0)
     OR (if hp_EndStream p then FlagEndStream else 0) OR (if hp_EndHeaders p then FlagEndHeaders else 0)
     OR (if hp_Priority p \<noteq> prio0 then FlagPriority else 0)"

definition push_flags :: "push_param \<Rightarrow> byte" where
  "push_flags p = (if pp_PadLength p \<noteq> 0 then FlagPadded else 0) OR (if pp_EndHeaders p then FlagEndHeaders else 0)"

fun wire_of :: "wcmd \<Rightarrow> byte \<times> byte \<times> u32 \<times> byte list" where
  "wire_of (WData sid es data) = (FrameData, (if es then FlagEndStream else 0), sid, data)"
| "wire_of (WHeaders p) = (FrameHeaders, headers_flags p, hp_StreamID p,
     pad_prefix (hp_PadLength p) @ (if hp_Priority p \<noteq> prio0 then prio_bytes (hp_Priority p) else [])
     @ hp_BlockFragment p @ replicate (unat (hp_PadLength p)) 0)"
| "wire_of (WPriority sid p) = (FramePriority, 0, sid, prio_bytes p)"
| "wire_of (WRST sid code) = (FrameRSTStream, 0, sid, PutUint32 code)"
| "wire_of (WSettings ss) = (FrameSettings, 0, 0, settings_bytes ss)"
| "wire_of WSettingsAck = (FrameSettings, FlagAck, 0, [])"
| "wire_of (WPush p) = (FramePushPromise, push_flags p, pp_StreamID p,
     pad_prefix (pp_PadLength p) @ PutUint32 (pp_PromiseID p) @ pp_BlockFragment p @ replicate (unat (pp_PadLength p)) 0)"
| "wire_of (WPing ack data) = (FramePing, (if ack then FlagAck else 0), 0, data)"
| "wire_of (WGoAway sid code debug) = (FrameGoAway, 0, 0, PutUint32 (sid AND 0x7fffffff) @ PutUint32 code @ debug)"
| "wire_of (WWindow sid inc) = (FrameWindowUpdate, 0, sid, PutUint32 inc)"
| "wire_of (WCont sid eh frag) = (FrameContinuation, (if eh then FlagEndHeaders else 0), sid, frag)"

definition wire_bytes :: "wcmd \<Rightarrow> byte list" where
  "wire_bytes c = (case wire_of c of (t, fl, sid, payload) \<Rightarrow> frame_bytes t fl sid payload)"

definition hdr_of :: "wcmd \<Rightarrow> frame_header" where
  "hdr_of c = (case wire_of c of (t, fl, sid, payload) \<Rightarrow>
     \<lparr>fh_Type = t, fh_Flags = fl, fh_Length = of_nat (length payload), fh_StreamID = sid\<rparr>)"

definition payload_of :: "wcmd \<Rightarrow> byte list" where
  "payload_of c = (case wire_of c of (t, fl, sid, payload) \<Rightarrow> payload)"

fun frame_of :: "wcmd \<Rightarrow> frame" where
  "frame_of (WData sid es data) = DataFrame (hdr_of (WData sid es data)) data"
| "frame_of (WHeaders p) = HeadersFrame (hdr_of (WHeaders p)) (hp_Priority p) (hp_BlockFragment p)"
| "frame_of (WPriority sid p) = PriorityFrame (hdr_of (WPriority sid p)) p"
| "frame_of (WRST sid code) = RSTStreamFrame (hdr_of (WRST sid code)) code"
| "frame_of (WSettings ss) = SettingsFrame (hdr_of (WSettings ss)) (settings_bytes ss)"
| "frame_of WSettingsAck = SettingsFrame (hdr_of WSettingsAck) []"
| "frame_of (WPush p) = PushPromiseFrame (hdr_of (WPush p)) (pp_PromiseID p) (pp_BlockFragment p)"
| "frame_of (WPing ack data) = PingFrame (hdr_of (WPing ack data)) data"
| "frame_of (WGoAway sid code debug) = GoAwayFrame (hdr_of (WGoAway sid code debug)) (sid AND 0x7fffffff) code debug"
| "frame_of (WWindow sid inc) = WindowUpdateFrame (hdr_of (WWindow sid inc)) inc"
| "frame_of (WCont sid eh frag) = ContinuationFrame (hdr_of (WCont sid eh frag)) frag"

fun args_ok :: "wcmd \<Rightarrow> bool" where
  "args_ok (WData sid es data) = validStreamID sid"
| "args_ok (WHeaders p) = (validStreamID (hp_StreamID p) \<and> validStreamIDOrZero (StreamDep (hp_Priority p)))"
| "args_ok (WPriority sid p) = (validStreamID sid \<and> validStreamIDOrZero (StreamDep p))"
| "args_ok (WRST sid code) = validStreamID sid"
| "args_ok (WSettings ss) = (case map_of ss SettingInitialWindowSize of Some v \<Rightarrow> v \<le> 2147483647 | None \<Rightarrow> True)"
| "args_ok WSettingsAck = True"
| "args_ok (WPush p) = (validStreamID (pp_StreamID p) \<and> validStreamID (pp_PromiseID p))"
| "args_ok (WPing ack data) = (length data = 8)"
| "args_ok (WGoAway sid code debug) = True"
| "args_ok (WWindow sid inc) = (validStreamIDOrZero sid \<and> 1 \<le> inc \<and> inc \<le> 2147483647)"
| "args_ok (WCont sid eh frag) = validStreamID sid"

definition wlegal :: "wcmd \<Rightarrow> bool" where
  "wlegal c \<longleftrightarrow> args_ok c \<and> length (payload_of c) < 2 ^ 24"

section \<open>What the writer emits\<close>

lemma writeSettingList_run: "writeSettingList ss fr = (Ok (), fr\<lparr>wbuf := wbuf fr @ settings_bytes ss\<rparr>)"
  by (induction ss arbitrary: fr)
    (auto simp: settings_bytes_def writeUint16_def writeUint32_def writeBytes_def bindP_def)

lemma length_settings_bytes [simp]: "length (settings_bytes ss) = 6 * length ss"
  by (induction ss) (auto simp: settings_bytes_def)

lemma length_prio_bytes [simp]: "length (prio_bytes p) = 5"
  by (simp add: prio_bytes_def)

lemmas write_defs = startWrite_def endWrite_def writeBytes_def writeByte_def writeUint16_def writeUint32_def
  bindP_def frame_bytes_def Let_def

lemma wcmd_emits:
  assumes "wlegal c" "\<not> AllowIllegalWrites fr" "f_wfail fr (wire_bytes c) = None"
  shows "\<exists>fr'. run_wcmd c fr = (Ok (), fr') \<and> f_out fr' = f_out fr @ [wire_bytes c]
    \<and> AllowIllegalWrites fr' = AllowIllegalWrites fr \<and> f_wfail fr' = f_wfail fr"
proof (cases c)
  case (WHeaders p)
  with assms show ?thesis
    by (cases "hp_PadLength p = 0"; cases "hp_Priority p = prio0"; cases "reuseWriteBuffer fr")
      (simp_all add: WriteHeaders_def wlegal_def wire_bytes_def payload_of_def write_defs headers_flags_def
        pad_prefix_def prio_bytes_def add_ac split del: if_split)
next
  case (WPush p)
  with assms show ?thesis
    by (cases "pp_PadLength p = 0"; cases "reuseWriteBuffer fr")
      (simp_all add: WritePushPromise_def wlegal_def wire_bytes_def payload_of_def write_defs push_flags_def
        pad_prefix_def add_ac split del: if_split)
next
  case (WSettings ss)
  with assms show ?thesis
    by (simp add: WriteSettings_def wlegal_def wire_bytes_def payload_of_def write_defs writeSettingList_run)
next
  case (WWindow sid inc)
  moreover have "inc \<noteq> 0" using assms(1) WWindow by (auto simp: wlegal_def)
  ultimately show ?thesis
    using assms by (simp add: WriteWindowUpdate_def wlegal_def wire_bytes_def payload_of_def write_defs not_less)
qed (use assms in \<open>simp_all add: WriteData_def WritePriority_def WriteRSTStream_def WriteSettingsAck_def
      WritePing_def WriteGoAway_def WriteContinuation_def wlegal_def wire_bytes_def
      payload_of_def write_defs prio_bytes_def not_less\<close>)

section \<open>What the parsers read\<close>

lemma be32_at_Put [simp]: "be32_at (PutUint32 v @ rest) 0 = Ok v"
  using Uint32_Put[of v "[]"] by (simp add: be32_at_def slice_def)

lemma be32_at_Put' [simp]: "be32_at (PutUint32 v) 0 = Ok v"
  using be32_at_Put[of v "[]"] by simp

lemma readUint32_Put [simp]: "readUint32 (PutUint32 v @ rest) = Ok (rest, v)"
  by (simp add: readUint32_def)

lemma slice_prefix: "slice (xs @ ys) 0 (int (length xs)) = Ok xs"
  by (simp add: slice_def)

lemma slice_pad:
  "int (length (xs @ replicate (unat n) 0)) - uint (n :: byte) = int (length xs)"
  by simp

lemma prio_decode:
  assumes "validStreamIDOrZero (StreamDep p)"
  shows "bindR (readUint32 (prio_bytes p @ rest)) (\<lambda>(q, v). bindR (readByte q) (\<lambda>(q, w).
           let dep = v AND 0x7fffffff in Ok (q, \<lparr>StreamDep = dep, Exclusive = (v \<noteq> dep), Weight = w\<rparr>)))
         = (Ok (rest, p) :: (h2err, _) res)"
  using assms excl_bit[of "StreamDep p"] mask31_id[of "StreamDep p"]
  by (cases p) (auto simp: prio_bytes_def validStreamIDOrZero_def Let_def)

lemma Setting_bytes:
  "i < length ss \<Longrightarrow> Setting (settings_bytes ss) i = Ok (ss ! i)"
proof -
  assume i: "i < length ss"
  obtain sid v where iv: "ss ! i = (sid, v)" by (cases "ss ! i")
  have "settings_bytes ss = settings_bytes (take i ss) @ (PutUint16 sid @ PutUint32 v) @ settings_bytes (drop (Suc i) ss)"
    using id_take_nth_drop[OF i] iv by (simp add: settings_bytes_def) (metis (mono_tags, lifting) concat.simps(2)
        concat_append list.simps(9) map_append append_assoc case_prod_conv)
  moreover have "length (settings_bytes (take i ss)) = 6 * i" using i by simp
  ultimately show ?thesis
    using Uint16_Put[of sid "[]"] Uint32_Put[of v "[]"] iv
    by (simp add: Setting_def be16_at_def be32_at_def slice_def nat_add_distrib nat_mult_distrib)
qed

lemma Value_from_bytes:
  "i + k = length ss \<Longrightarrow> Value_from k (settings_bytes ss) sid i = Ok (map_of (drop i ss) sid)"
proof (induction k arbitrary: i)
  case (Suc k)
  then have i: "i < length ss" by simp
  then have "drop i ss = ss ! i # drop (Suc i) ss" by (rule Cons_nth_drop_Suc[symmetric])
  with Suc i show ?case by (cases "ss ! i") (simp add: Setting_bytes)
qed simp

lemma Value_bytes: "Value (settings_bytes ss) sid = Ok (map_of ss sid)"
  using Value_from_bytes[of 0 "length ss" ss sid] by (simp add: Value_def NumSettings_def)

lemma Has_headers_flags:
  "Has (headers_flags p) FlagPadded \<longleftrightarrow> hp_PadLength p \<noteq> 0"
  "Has (headers_flags p) FlagPriority \<longleftrightarrow> hp_Priority p \<noteq> prio0"
  "Has (headers_flags p) FlagEndHeaders \<longleftrightarrow> hp_EndHeaders p"
  "Has (headers_flags p) FlagEndStream \<longleftrightarrow> hp_EndStream p"
  by (simp_all add: headers_flags_def Has_def frame_flags)

lemma Has_push_flags:
  "Has (push_flags p) FlagPadded \<longleftrightarrow> pp_PadLength p \<noteq> 0"
  "Has (push_flags p) FlagEndHeaders \<longleftrightarrow> pp_EndHeaders p"
  by (simp_all add: push_flags_def Has_def frame_flags)

lemma valid_nonzero: "validStreamID sid \<Longrightarrow> sid \<noteq> 0"
  by (simp add: validStreamID_def)

lemma pad_pos: "n \<noteq> 0 \<Longrightarrow> readByte (pad_prefix n @ rest) = Ok (rest, n)"
  by (simp add: pad_prefix_def)

lemma parse_headers:
  assumes "validStreamID (hp_StreamID p)" "validStreamIDOrZero (StreamDep (hp_Priority p))"
  shows "parseHeadersFrame (hdr_of (WHeaders p)) (payload_of (WHeaders p)) = Ok (frame_of (WHeaders p))"
proof -
  let ?tail = "hp_BlockFragment p @ replicate (unat (hp_PadLength p)) 0"
  let ?prio = "if hp_Priority p \<noteq> prio0 then prio_bytes (hp_Priority p) else []"
  have pad: "(if Has (headers_flags p) FlagPadded then readByte (pad_prefix (hp_PadLength p) @ ?prio @ ?tail)
      else Ok (pad_prefix (hp_PadLength p) @ ?prio @ ?tail, 0)) = Ok (?prio @ ?tail, hp_PadLength p)"
    by (cases "hp_PadLength p = 0") (simp_all add: Has_headers_flags pad_pos pad_prefix_def)
  have prio: "(if Has (headers_flags p) FlagPriority then
      bindR (readUint32 (?prio @ ?tail)) (\<lambda>(q, v). bindR (readByte q) (\<lambda>(q, w).
        let dep = v AND 0x7fffffff in Ok (q, \<lparr>StreamDep = dep, Exclusive = (v \<noteq> dep), Weight = w\<rparr>)))
      else Ok (?prio @ ?tail, prio0)) = (Ok (?tail, hp_Priority p) :: (h2err, _) res)"
    using prio_decode[OF assms(2), of ?tail] by (cases "hp_Priority p = prio0") (simp_all add: Has_headers_flags)
  have sl: "slice ?tail 0 (int (length ?tail) - uint (hp_PadLength p)) = Ok (hp_BlockFragment p)"
    using slice_pad[of "hp_BlockFragment p" "hp_PadLength p"] slice_prefix by metis
  show ?thesis
    using valid_nonzero[OF assms(1)] pad prio sl
    by (simp add: parseHeadersFrame_def hdr_of_def payload_of_def del: readUint32_Put)
qed

lemma parse_push:
  assumes "validStreamID (pp_StreamID p)" "validStreamID (pp_PromiseID p)"
  shows "parsePushPromise (hdr_of (WPush p)) (payload_of (WPush p)) = Ok (frame_of (WPush p))"
proof -
  let ?tail = "pp_BlockFragment p @ replicate (unat (pp_PadLength p)) 0"
  have pad: "(if Has (push_flags p) FlagPadded then readByte (pad_prefix (pp_PadLength p) @ PutUint32 (pp_PromiseID p) @ ?tail)
      else Ok (pad_prefix (pp_PadLength p) @ PutUint32 (pp_PromiseID p) @ ?tail, 0))
      = Ok (PutUint32 (pp_PromiseID p) @ ?tail, pp_PadLength p)"
    by (cases "pp_PadLength p = 0") (simp_all add: Has_push_flags pad_pos pad_prefix_def)
  have sl: "slice ?tail 0 (int (length ?tail) - uint (pp_PadLength p)) = Ok (pp_BlockFragment p)"
    using slice_pad[of "pp_BlockFragment p" "pp_PadLength p"] slice_prefix by metis
  have "pp_PromiseID p AND 0x7fffffff = pp_PromiseID p" using assms(2) mask31_id by (simp add: validStreamID_def)
  then show ?thesis
    using valid_nonzero[OF assms(1)] pad sl by (simp add: parsePushPromise_def hdr_of_def payload_of_def)
qed

lemma parse_goaway:
  "parseGoAwayFrame (hdr_of (WGoAway sid code dbg)) (payload_of (WGoAway sid code dbg)) = Ok (frame_of (WGoAway sid code dbg))"
proof -
  have "be32_at (PutUint32 x @ PutUint32 code @ dbg) 4 = Ok code" for x
    using Uint32_Put[of code "[]"] by (simp add: be32_at_def slice_def)
  then show ?thesis
    by (simp add: parseGoAwayFrame_def hdr_of_def payload_of_def slice_def)
qed

lemma parse_priority:
  assumes "validStreamID sid" "validStreamIDOrZero (StreamDep p)"
  shows "parsePriorityFrame (hdr_of (WPriority sid p)) (payload_of (WPriority sid p)) = Ok (frame_of (WPriority sid p))"
  using assms excl_bit[of "StreamDep p"] mask31_id[of "StreamDep p"] valid_nonzero[OF assms(1)]
  by (cases p) (auto simp: parsePriorityFrame_def hdr_of_def payload_of_def prio_bytes_def validStreamIDOrZero_def
      index_def nth_append Let_def)

lemma parse_settings:
  assumes "args_ok (WSettings ss)"
  shows "parseSettingsFrame (hdr_of (WSettings ss)) (payload_of (WSettings ss)) = Ok (frame_of (WSettings ss))"
  using assms
  by (auto simp: parseSettingsFrame_def hdr_of_def payload_of_def Value_bytes Has_def FlagAck_def not_less[symmetric]
      split: option.splits)

lemma parse_window:
  assumes "args_ok (WWindow sid inc)"
  shows "parseWindowUpdateFrame (hdr_of (WWindow sid inc)) (payload_of (WWindow sid inc)) = Ok (frame_of (WWindow sid inc))"
proof -
  have i: "inc \<noteq> 0" "unat inc < 2 ^ 31" using assms by (auto simp: word_le_nat_alt)
  have "take_bit 31 inc = inc" using i(2) by (simp add: word_unat_eq_iff unsigned_take_bit_eq take_bit_nat_eq_self)
  then have "inc AND 0x7fffffff = inc" by (simp add: take_bit_eq_mask mask_eq_exp_minus_1)
  with i(1) show ?thesis by (simp add: parseWindowUpdateFrame_def hdr_of_def payload_of_def Let_def)
qed

lemma parse_other:
  assumes "wlegal c" "fh_Type (hdr_of c) \<noteq> FrameData"
  shows "typeFrameParser (fh_Type (hdr_of c)) (hdr_of c) (payload_of c) = Ok (frame_of c)"
proof (cases c)
  case (WHeaders p)
  with assms parse_headers[of p] show ?thesis
    by (simp add: typeFrameParser_def wlegal_def) (simp add: hdr_of_def)
next
  case (WPush p)
  with assms parse_push[of p] show ?thesis
    by (simp add: typeFrameParser_def wlegal_def) (simp add: hdr_of_def frame_types)
next
  case (WGoAway sid code dbg)
  with parse_goaway[of sid code dbg] show ?thesis by (simp add: typeFrameParser_def) (simp add: hdr_of_def frame_types)
next
  case (WPriority sid p)
  with assms parse_priority[of sid p] show ?thesis
    by (simp add: typeFrameParser_def wlegal_def) (simp add: hdr_of_def frame_types)
next
  case (WSettings ss)
  with assms parse_settings[of ss] show ?thesis
    by (simp add: typeFrameParser_def wlegal_def) (simp add: hdr_of_def frame_types)
next
  case (WWindow sid inc)
  with assms parse_window[of sid inc] show ?thesis
    by (simp add: typeFrameParser_def wlegal_def) (simp add: hdr_of_def frame_types)
next
  case (WRST sid code)
  with assms valid_nonzero[of sid] show ?thesis
    by (simp add: typeFrameParser_def wlegal_def parseRSTStreamFrame_def hdr_of_def payload_of_def frame_types)
next
  case WSettingsAck
  then show ?thesis
    by (simp add: typeFrameParser_def parseSettingsFrame_def hdr_of_def payload_of_def frame_types Value_def NumSettings_def)
next
  case (WPing ack data)
  with assms show ?thesis
    by (simp add: typeFrameParser_def wlegal_def parsePingFrame_def hdr_of_def payload_of_def frame_types)
next
  case (WCont sid eh frag)
  with assms valid_nonzero[of sid] show ?thesis
    by (simp add: typeFrameParser_def wlegal_def parseContinuationFrame_def hdr_of_def payload_of_def frame_types)
qed (use assms in \<open>simp add: hdr_of_def\<close>)

section \<open>Sequences of frames\<close>

fun order_ok :: "u32 \<Rightarrow> wcmd \<Rightarrow> bool" where
  "order_ok lhs (WCont sid eh frag) = (lhs = sid)"
| "order_ok lhs c = (lhs = 0)"

fun next_lhs :: "u32 \<Rightarrow> wcmd \<Rightarrow> u32" where
  "next_lhs lhs (WHeaders p) = (if hp_EndHeaders p then 0 else hp_StreamID p)"
| "next_lhs lhs (WCont sid eh frag) = (if eh then 0 else sid)"
| "next_lhs lhs c = lhs"

fun seq_ok :: "u32 \<Rightarrow> wcmd list \<Rightarrow> bool" where
  "seq_ok lhs [] = True"
| "seq_ok lhs (c # cs) = (wlegal c \<and> order_ok lhs c \<and> seq_ok (next_lhs lhs c) cs)"

fun run_wcmds :: "wcmd list \<Rightarrow> (framer_w, h2err, unit) prog" where
  "run_wcmds [] fr = (Ok (), fr)"
| "run_wcmds (c # cs) fr = bindP (run_wcmd c) (\<lambda>_. run_wcmds cs) fr"

fun readFrames :: "nat \<Rightarrow> 's netpoll_reader \<Rightarrow> ('s framer_r, h2err, frame list) prog" where
  "readFrames 0 rd fr = (Ok [], fr)"
| "readFrames (Suc n) rd fr = bindP (readFrame1 rd) (\<lambda>f. bindP (readFrames n rd) (\<lambda>fs. ret (f # fs))) fr"

lemma Header_frame_of [simp]: "Header (frame_of c) = hdr_of c"
  by (cases c) simp_all

lemma hdr_Length: "fh_Length (hdr_of c) = of_nat (length (payload_of c))"
  by (simp add: hdr_of_def payload_of_def split: prod.splits)

lemma wire_frame_bytes:
  "wire_bytes c = frame_bytes (fh_Type (hdr_of c)) (fh_Flags (hdr_of c)) (fh_StreamID (hdr_of c)) (payload_of c)"
  by (simp add: wire_bytes_def hdr_of_def payload_of_def split: prod.splits)

lemma hdr_StreamID_masked: "wlegal c \<Longrightarrow> fh_StreamID (hdr_of c) AND 0x7fffffff = fh_StreamID (hdr_of c)"
  by (cases c) (auto simp: wlegal_def hdr_of_def validStreamID_def validStreamIDOrZero_def intro: mask31_id)

lemma hdr_as_record: "hdr_of c = \<lparr>fh_Type = fh_Type (hdr_of c), fh_Flags = fh_Flags (hdr_of c),
    fh_Length = of_nat (length (payload_of c)), fh_StreamID = fh_StreamID (hdr_of c)\<rparr>"
  by (simp add: hdr_Length[symmetric])

lemma wcmd_types:
  "fh_Type (hdr_of c) = FrameData \<longleftrightarrow> (\<exists>sid es data. c = WData sid es data)"
  "fh_Type (hdr_of c) = FrameHeaders \<longleftrightarrow> (\<exists>p. c = WHeaders p)"
  "fh_Type (hdr_of c) = FrameContinuation \<longleftrightarrow> (\<exists>sid eh frag. c = WCont sid eh frag)"
  by (cases c; simp add: hdr_of_def frame_types)+

lemma checkFrameOrder_wcmd:
  assumes "wlegal c" "order_ok (lastHeaderStream fr) c"
  shows "\<exists>fr'. checkFrameOrder (frame_of c) fr = (Ok (), fr')
    \<and> f_reader fr' = f_reader fr \<and> maxReadSize fr' = maxReadSize fr \<and> AllowIllegalReads fr' = AllowIllegalReads fr
    \<and> (\<not> AllowIllegalReads fr \<longrightarrow> lastHeaderStream fr' = next_lhs (lastHeaderStream fr) c)"
proof -
  consider (h) p where "c = WHeaders p" | (k) sid eh frag where "c = WCont sid eh frag"
    | (o) "\<not> (\<exists>p. c = WHeaders p)" "\<not> (\<exists>sid eh frag. c = WCont sid eh frag)" by blast
  then show ?thesis
  proof cases
    case h with assms show ?thesis
      by (auto simp: checkFrameOrder_def Let_def wcmd_types) (auto simp: hdr_of_def Has_headers_flags)
  next
    case k
    with assms show ?thesis
      by (auto simp: checkFrameOrder_def Let_def wcmd_types wlegal_def dest: valid_nonzero)
        (auto simp: hdr_of_def Has_def FlagEndHeaders_def)
  next
    case o
    then have "order_ok x c \<longleftrightarrow> x = 0" "next_lhs x c = x" for x by (cases c; simp)+
    with o assms show ?thesis by (auto simp: checkFrameOrder_def Let_def wcmd_types)
  qed
qed

context h2_reader
begin

lemma parse_payload_law:
  assumes "rinv s" "pending s = payload_of c @ rest" "wlegal c"
  shows "\<exists>s'. parse_payload rd (hdr_of c) s = (Ok (frame_of c), s') \<and> rinv s' \<and> pending s' = rest"
proof -
  have len: "uint (fh_Length (hdr_of c)) = int (length (payload_of c))"
    using assms(3) by (simp add: hdr_Length wlegal_def uint_of_nat32)
  obtain s' where s': "lift_rd (np_Next rd (int (length (payload_of c)))) s = (Ok (payload_of c), s')" "rinv s'"
    "pending s' = rest" using lift_Next[OF assms(1,2)] by blast
  show ?thesis
  proof (cases "fh_Type (hdr_of c) = FrameData")
    case True
    then obtain sid es data where c: "c = WData sid es data" by (auto simp: wcmd_types)
    then have "validStreamID sid" using assms(3) by (simp add: wlegal_def)
    then show ?thesis
      using s' len valid_nonzero[of sid] slice_prefix[of data "[]"]
      by (simp add: c parse_payload_def parseDataFrame_def bindP_def)
        (auto simp: hdr_of_def payload_of_def Has_def frame_flags frame_types)
  next
    case False
    then show ?thesis using s' len parse_other[OF assms(3) False] by (simp add: parse_payload_def bindP_def)
  qed
qed

lemma readFrame1_law:
  assumes "rinv (f_reader fr)" "pending (f_reader fr) = wire_bytes c @ rest" "wlegal c"
    "int (length (payload_of c)) \<le> uint (maxReadSize fr)" "\<not> AllowIllegalReads fr" "order_ok (lastHeaderStream fr) c"
  shows "\<exists>fr'. readFrame1 rd fr = (Ok (frame_of c), fr') \<and> rinv (f_reader fr') \<and> pending (f_reader fr') = rest
    \<and> maxReadSize fr' = maxReadSize fr \<and> \<not> AllowIllegalReads fr' \<and> lastHeaderStream fr' = next_lhs (lastHeaderStream fr) c"
proof -
  let ?fr = "fr\<lparr>errDetail := None\<rparr>"
  obtain s1 where s1: "readAndCheckFrameHeader rd ?fr = (Ok (hdr_of c), ?fr\<lparr>f_reader := s1\<rparr>)" "rinv s1"
    "pending s1 = payload_of c @ rest"
    using read_header[of ?fr "fh_Type (hdr_of c)" "fh_Flags (hdr_of c)" "fh_StreamID (hdr_of c)" "payload_of c" rest]
      assms hdr_as_record[of c] hdr_StreamID_masked[OF assms(3)]
    by (auto simp: wire_frame_bytes wlegal_def)
  obtain s2 where s2: "parse_payload rd (hdr_of c) s1 = (Ok (frame_of c), s2)" "rinv s2" "pending s2 = rest"
    using parse_payload_law[OF s1(2,3) assms(3)] by blast
  let ?fr2 = "?fr\<lparr>f_reader := s2\<rparr>"
  obtain fr3 where "checkFrameOrder (frame_of c) ?fr2 = (Ok (), fr3)" "f_reader fr3 = s2"
    "maxReadSize fr3 = maxReadSize fr" "\<not> AllowIllegalReads fr3" "lastHeaderStream fr3 = next_lhs (lastHeaderStream fr) c"
    using checkFrameOrder_wcmd[OF assms(3), of ?fr2] assms(5,6) by auto
  then show ?thesis
    using s1(1) s2 by (simp add: readFrame1_def bindP_def stash_connError_def on_reader_def)
qed

lemma readFrames_law:
  "rinv (f_reader fr) \<Longrightarrow> pending (f_reader fr) = concat (map wire_bytes cs) @ rest \<Longrightarrow>
   seq_ok (lastHeaderStream fr) cs \<Longrightarrow> \<not> AllowIllegalReads fr \<Longrightarrow>
   \<forall>c\<in>set cs. int (length (payload_of c)) \<le> uint (maxReadSize fr) \<Longrightarrow>
   \<exists>fr'. readFrames (length cs) rd fr = (Ok (map frame_of cs), fr') \<and> pending (f_reader fr') = rest"
proof (induction cs arbitrary: fr)
  case (Cons c cs)
  obtain fr1 where fr1: "readFrame1 rd fr = (Ok (frame_of c), fr1)" "rinv (f_reader fr1)"
     "pending (f_reader fr1) = concat (map wire_bytes cs) @ rest" "maxReadSize fr1 = maxReadSize fr"
     "\<not> AllowIllegalReads fr1" "lastHeaderStream fr1 = next_lhs (lastHeaderStream fr) c"
    using readFrame1_law[of fr c "concat (map wire_bytes cs) @ rest"] Cons.prems by auto
  then obtain fr2 where "readFrames (length cs) rd fr1 = (Ok (map frame_of cs), fr2)" "pending (f_reader fr2) = rest"
    using Cons.IH[of fr1] Cons.prems by auto
  with fr1(1) show ?case by (simp add: bindP_def)
qed simp

end

lemma run_wcmds_emits:
  "\<forall>c\<in>set cs. wlegal c \<Longrightarrow> \<not> AllowIllegalWrites fr \<Longrightarrow> f_wfail fr = (\<lambda>_. None) \<Longrightarrow>
   \<exists>fr'. run_wcmds cs fr = (Ok (), fr') \<and> f_out fr' = f_out fr @ map wire_bytes cs"
proof (induction cs arbitrary: fr)
  case (Cons c cs)
  obtain fr1 where fr1: "run_wcmd c fr = (Ok (), fr1)" "f_out fr1 = f_out fr @ [wire_bytes c]"
    "\<not> AllowIllegalWrites fr1" "f_wfail fr1 = (\<lambda>_. None)"
    using wcmd_emits[of c fr] Cons.prems by auto
  then show ?case using Cons.IH[of fr1] Cons.prems by (auto simp: bindP_def)
qed simp

lemma seq_ok_legal: "seq_ok lhs cs \<Longrightarrow> \<forall>c\<in>set cs. wlegal c"
  by (induction cs arbitrary: lhs) auto

text \<open>C13. Whatever frames a conforming client writes - any mixture of DATA, HEADERS, CONTINUATION, PRIORITY,
  RST_STREAM, SETTINGS, PUSH_PROMISE, PING, GOAWAY and WINDOW_UPDATE with header blocks kept contiguous - each goes
  out in one write, and a framer reading the resulting bytes returns exactly those frames in order and stops
  right behind them.\<close>

theorem frames_round_trip:
  assumes "seq_ok 0 cs" and "\<not> AllowIllegalWrites fw" and "f_wfail fw = (\<lambda>_. None)" and "f_out fw = []"
  shows "\<exists>fw' fr'. run_wcmds cs fw = (Ok (), fw') \<and> length (f_out fw') = length cs
     \<and> readFrames (length cs) bb_netpoll (NewFramer_r (newReaderByteBuffer b (concat (f_out fw') @ rest)))
         = (Ok (map frame_of cs), fr')
     \<and> bb_pending (f_reader fr') = rest"
proof -
  obtain fw' where fw': "run_wcmds cs fw = (Ok (), fw')" "f_out fw' = map wire_bytes cs"
    using run_wcmds_emits[OF seq_ok_legal[OF assms(1)] assms(2,3)] assms(4) by auto
  let ?fr = "NewFramer_r (newReaderByteBuffer b (concat (f_out fw') @ rest))"
  have fr: "f_reader ?fr = newReaderByteBuffer b (concat (f_out fw') @ rest)" "lastHeaderStream ?fr = 0"
    "\<not> AllowIllegalReads ?fr" "uint (maxReadSize ?fr) = 16777215"
    by (auto simp: NewFramer_r_def SetMaxReadFrameSize_def maxFrameSize_def)
  have "\<forall>c\<in>set cs. int (length (payload_of c)) \<le> uint (maxReadSize ?fr)"
    using seq_ok_legal[OF assms(1)] fr(4) by (auto simp: wlegal_def)
  then obtain fr' where "readFrames (length cs) bb_netpoll ?fr = (Ok (map frame_of cs), fr')"
    "bb_pending (f_reader fr') = rest"
    using bbn.readFrames_law[of ?fr cs rest] fr assms(1) new_r[of b "concat (f_out fw') @ rest"] fw'(2) by auto
  with fw' show ?thesis by auto
qed

definition demo_cmds :: "wcmd list" where
  "demo_cmds =
     [WSettings [(4, 65535)],
      WHeaders \<lparr>hp_StreamID = 1, hp_BlockFragment = [10, 11], hp_EndStream = False, hp_EndHeaders = False,
                hp_PadLength = 2, hp_Priority = \<lparr>StreamDep = 3, Exclusive = True, Weight = 7\<rparr>\<rparr>,
      WCont 1 True [12], WData 1 True [1, 2, 3]]"

definition demo_framer :: framer_w where
  "demo_framer = \<lparr>reuseWriteBuffer = False, wbuf = [], AllowIllegalWrites = False, f_out = [], f_wfail = (\<lambda>_. None)\<rparr>"

theorem frames_round_trip_witness:
  "seq_ok 0 demo_cmds \<and>
   (\<exists>fw' fr'. run_wcmds demo_cmds demo_framer = (Ok (), fw') \<and> length (f_out fw') = length demo_cmds
    \<and> readFrames (length demo_cmds) bb_netpoll
        (NewFramer_r (newReaderByteBuffer newDefaultByteBuffer (concat (f_out fw') @ [99])))
      = (Ok (map frame_of demo_cmds), fr')
    \<and> bb_pending (f_reader fr') = [99])"
proof -
  have "seq_ok 0 demo_cmds"
    by (simp add: demo_cmds_def wlegal_def payload_of_def SettingInitialWindowSize_def validStreamID_def
        validStreamIDOrZero_def prio0_def pad_prefix_def)
  then show ?thesis
    using frames_round_trip[of demo_cmds demo_framer newDefaultByteBuffer "[99]"] by (simp add: demo_framer_def)
qed

end
