(* ===== verification/GrpcSafety.thy ===== *)
theory GrpcSafety
  imports GrpcFrameProps
begin

text \<open>
  Safety of the framer on arbitrary input, termination of header-block assembly, and validity of the
  header lists it delivers.
\<close>

section \<open>Safety on arbitrary bytes\<close>

definition safe :: "('e, 'a) res \<Rightarrow> bool" where
  "safe r \<longleftrightarrow> r \<noteq> Panic \<and> r \<noteq> Diverge"

lemma safe_simps [simp]: "safe (Ok x)" "safe (Err e)" "\<not> safe Panic" "\<not> safe Diverge"
  by (simp_all add: safe_def)

lemma safe_bindR: "safe r \<Longrightarrow> (\<And>x. r = Ok x \<Longrightarrow> safe (f x)) \<Longrightarrow> safe (bindR r f)"
  by (cases r) auto

lemma safe_cases: "safe r \<longleftrightarrow> (\<exists>x. r = Ok x) \<or> (\<exists>e. r = Err e)"
  by (cases r) auto

lemma safe_readByte: "safe (readByte p)"
  by (cases p) auto

lemma be32_at_ok: "lo + 4 \<le> int (length p) \<Longrightarrow> 0 \<le> lo \<Longrightarrow> \<exists>v. be32_at p lo = Ok v"
  using Uint32_None[of "take 4 (drop (nat lo) p)"]
  by (cases "Uint32 (take 4 (drop (nat lo) p))") (auto simp: be32_at_def slice_def min_def split: if_splits)

lemma be16_at_ok: "lo + 2 \<le> int (length p) \<Longrightarrow> 0 \<le> lo \<Longrightarrow> \<exists>v. be16_at p lo = Ok v"
  using Uint16_None[of "take 2 (drop (nat lo) p)"]
  by (cases "Uint16 (take 2 (drop (nat lo) p))") (auto simp: be16_at_def slice_def min_def split: if_splits)

lemma safe_readUint32: "safe (readUint32 p)"
  using be32_at_ok[of 0 p] by (auto simp: readUint32_def)

lemma Setting_ok: "6 * i + 6 \<le> length p \<Longrightarrow> \<exists>x. Setting p i = Ok x"
  using be16_at_ok[of "int i * 6" p] be32_at_ok[of "int i * 6 + 2" p] by (auto simp: Setting_def)

lemma Value_from_safe: "6 * (i + k) \<le> length p \<Longrightarrow> safe (Value_from k p sid i)"
proof (induction k arbitrary: i)
  case (Suc k)
  then obtain x where "Setting p i = Ok x" using Setting_ok[of i p] by auto
  with Suc show ?case by (auto split: prod.splits)
qed simp

lemma safe_Value: "safe (Value p sid)"
  unfolding Value_def NumSettings_def by (rule Value_from_safe) simp

lemma slice_Ok: "0 \<le> lo \<Longrightarrow> lo \<le> hi \<Longrightarrow> hi \<le> int (length p) \<Longrightarrow> \<exists>d. slice p lo hi = Ok d"
  by (simp add: slice_def)

lemma safe_slice: "0 \<le> lo \<Longrightarrow> lo \<le> hi \<Longrightarrow> hi \<le> int (length p) \<Longrightarrow> safe (slice p lo hi)"
  by (simp add: slice_def)

lemma safe_parsers:
  "safe (parseHeadersFrame fh p)" "safe (parsePriorityFrame fh p)" "safe (parseRSTStreamFrame fh p)"
  "safe (parseSettingsFrame fh p)" "safe (parsePushPromise fh p)" "safe (parsePingFrame fh p)"
  "safe (parseGoAwayFrame fh p)" "safe (parseWindowUpdateFrame fh p)" "safe (parseContinuationFrame fh p)"
proof -
  show "safe (parseHeadersFrame fh p)"
    unfolding parseHeadersFrame_def
    by (auto intro!: safe_bindR safe_readByte safe_readUint32 safe_slice simp: Let_def not_less)
  show "safe (parsePushPromise fh p)"
    unfolding parsePushPromise_def
    by (auto intro!: safe_bindR safe_readByte safe_readUint32 safe_slice simp: not_less)
  show "safe (parseSettingsFrame fh p)"
    unfolding parseSettingsFrame_def by (auto intro!: safe_bindR safe_Value split: option.splits)
  show "safe (parsePriorityFrame fh p)"
    using be32_at_ok[of 0 p] by (auto simp: parsePriorityFrame_def index_def Let_def)
  show "safe (parseRSTStreamFrame fh p)"
    using be32_at_ok[of 0 p] by (auto simp: parseRSTStreamFrame_def)
  show "safe (parseGoAwayFrame fh p)"
    using be32_at_ok[of 0 p] be32_at_ok[of 4 p] by (auto simp: parseGoAwayFrame_def slice_def)
  show "safe (parseWindowUpdateFrame fh p)"
    using be32_at_ok[of 0 p] by (auto simp: parseWindowUpdateFrame_def Let_def)
qed (simp_all add: parsePingFrame_def parseContinuationFrame_def)

lemma safe_typeFrameParser: "safe (typeFrameParser t fh p)"
  by (simp add: typeFrameParser_def safe_parsers parseUnknownFrame_def)

lemma typeFrameParser_result:
  assumes "typeFrameParser t fh p = Ok f"
  shows "Header f = fh \<and> (t = FrameContinuation \<longrightarrow> (\<exists>frag. f = ContinuationFrame fh frag))
    \<and> (t = FrameHeaders \<longrightarrow> (\<exists>prio frag. f = HeadersFrame fh prio frag))"
  using assms
  by (auto simp: typeFrameParser_def parseHeadersFrame_def parsePriorityFrame_def parseRSTStreamFrame_def
      parseSettingsFrame_def parsePushPromise_def parsePingFrame_def parseGoAwayFrame_def parseWindowUpdateFrame_def
      parseContinuationFrame_def parseUnknownFrame_def bindR_Ok_iff Let_def frame_types split: if_splits option.splits prod.splits)

context h2_reader
begin

lemma lift_Next_cases:
  assumes "rinv s" "0 \<le> n"
  obtains (ok) s' where "lift_rd (np_Next rd n) s = (Ok (take (nat n) (pending s)), s')" "rinv s'"
      "pending s' = drop (nat n) (pending s)" "n \<le> int (length (pending s))"
  | (err) e s' where "lift_rd (np_Next rd n) s = (Err e, s')"
proof (cases "nat n \<le> length (pending s)")
  case True
  then show ?thesis using np_Next_law[OF assms(1) True] assms(2) ok by (auto simp: lift_rd_def)
next
  case False
  then show ?thesis using np_Next_short[OF assms(1), of "nat n"] assms(2) err by (auto simp: lift_rd_def)
qed

lemma lift_ReadByte_cases:
  assumes "rinv s"
  obtains (ok) b s' where "lift_rd (np_ReadByte rd) s = (Ok b, s')" "rinv s'" "pending s = b # pending s'"
  | (err) e s' where "lift_rd (np_ReadByte rd) s = (Err e, s')"
proof (cases "pending s")
  case Nil
  then show ?thesis using np_ReadByte_short[OF assms] err by (auto simp: lift_rd_def)
next
  case (Cons b bs)
  then show ?thesis using np_ReadByte_law[OF assms Cons] ok by (auto simp: lift_rd_def)
qed

lemma parseDataFrame_safe:
  assumes "rinv s"
  shows "\<exists>r s'. parseDataFrame rd fh s = (r, s') \<and> safe r
     \<and> (\<forall>f. r = Ok f \<longrightarrow> Header f = fh \<and> rinv s' \<and> length (pending s') \<le> length (pending s))"
proof (cases "fh_StreamID fh = 0")
  case False
  note sid = this
  have tail: "\<exists>r s'. (if uint pad > n then throw (connError ErrCodeProtocol ''pad size larger than data payload'')
        else bindP (lift_rd (np_Next rd n)) (\<lambda>data s.
                 (bindR (slice data 0 (n - uint pad)) (\<lambda>d. Ok (DataFrame fh d)), s))) s1 = (r, s') \<and> safe r
     \<and> (\<forall>f. r = Ok f \<longrightarrow> Header f = fh \<and> rinv s' \<and> length (pending s') \<le> length (pending s1))"
    if "rinv s1" for s1 n and pad :: byte
  proof (cases "uint pad > n")
    case False
    then have n: "0 \<le> n" using uint_ge_0[of pad] by linarith
    from that n show ?thesis
    proof (cases rule: lift_Next_cases)
      case (ok s')
      have "\<exists>d. slice (take (nat n) (pending s1)) 0 (n - uint pad) = Ok d"
        by (rule slice_Ok) (use False uint_ge_0[of pad] ok(4) n in \<open>simp_all add: min_def, linarith?\<close>)
      with ok False show ?thesis by (auto simp: bindP_def)
    next
      case (err e s')
      with False show ?thesis by (auto simp: bindP_def)
    qed
  qed simp
  show ?thesis
  proof (cases "Has (fh_Flags fh) FlagPadded")
    case True
    from assms show ?thesis
    proof (cases rule: lift_ReadByte_cases)
      case (ok b s1)
      then show ?thesis
        using tail[OF ok(2), where pad = b and n = "uint (fh_Length fh) - 1"] True sid
        by (auto simp: parseDataFrame_def bindP_def[of "bindP _ _"] bindP_Ok)
    next
      case (err e s1)
      then show ?thesis using True sid by (auto simp: parseDataFrame_def bindP_def)
    qed
  next
    case False
    then show ?thesis
      using tail[OF assms, where pad = 0 and n = "uint (fh_Length fh)"] sid by (auto simp: parseDataFrame_def bindP_Ok)
  qed
qed (simp add: parseDataFrame_def)

end

definition shaped :: "frame \<Rightarrow> bool" where
  "shaped f \<longleftrightarrow> (fh_Type (Header f) = FrameContinuation \<longrightarrow> (\<exists>fh frag. f = ContinuationFrame fh frag))
     \<and> (fh_Type (Header f) = FrameHeaders \<longrightarrow> (\<exists>fh prio frag. f = HeadersFrame fh prio frag))"

lemma typeFrameParser_shaped: "typeFrameParser (fh_Type fh) fh p = Ok f \<Longrightarrow> Header f = fh \<and> shaped f"
  using typeFrameParser_result[of "fh_Type fh" fh p f] by (auto simp: shaped_def)

lemma typeFrameParser_headers_sid: "typeFrameParser t fh p = Ok (HeadersFrame fh' prio frag) \<Longrightarrow> fh_StreamID fh' \<noteq> 0"
  by (auto simp: typeFrameParser_def parseHeadersFrame_def parsePriorityFrame_def parseRSTStreamFrame_def
      parseSettingsFrame_def parsePushPromise_def parsePingFrame_def parseGoAwayFrame_def parseWindowUpdateFrame_def
      parseContinuationFrame_def parseUnknownFrame_def bindR_Ok_iff Let_def split: if_splits option.splits prod.splits)

lemma parse_payload_headers_sid:
  "parse_payload rd fh s = (Ok (HeadersFrame fh' prio frag), s') \<Longrightarrow> fh_StreamID fh' \<noteq> 0"
  by (auto simp: parse_payload_def parseDataFrame_def bindR_Ok_iff split: if_splits elim!: bindP_OkE
      dest: typeFrameParser_headers_sid)

lemma readFrame1_headers_sid:
  assumes "readFrame1 rd fr = (Ok (HeadersFrame fh prio frag), fr')"
  shows "fh_StreamID fh \<noteq> 0"
proof -
  obtain fh0 fr1 fr2 where "stash_connError (on_reader (parse_payload rd fh0)) fr1 = (Ok (HeadersFrame fh prio frag), fr2)"
    using assms by (auto simp: readFrame1_def elim!: bindP_OkE)
  then obtain s where "parse_payload rd fh0 (f_reader fr1) = (Ok (HeadersFrame fh prio frag), s)"
    by (auto simp: stash_connError_def on_reader_def split: prod.splits res.splits h2err.splits)
  then show ?thesis by (rule parse_payload_headers_sid)
qed

lemma checkFrameOrder_cases:
  "\<exists>r fr'. checkFrameOrder f fr = (r, fr') \<and> safe r \<and> f_reader fr' = f_reader fr
     \<and> AllowIllegalReads fr' = AllowIllegalReads fr \<and> MaxHeaderListSize fr' = MaxHeaderListSize fr
     \<and> (r = Ok () \<and> \<not> AllowIllegalReads fr \<longrightarrow>
          (lastHeaderStream fr \<noteq> 0 \<longrightarrow> fh_Type (Header f) = FrameContinuation \<and> fh_StreamID (Header f) = lastHeaderStream fr)
        \<and> (fh_Type (Header f) = FrameHeaders \<or> fh_Type (Header f) = FrameContinuation \<longrightarrow>
             lastHeaderStream fr' = (if Has (fh_Flags (Header f)) FlagEndHeaders then 0 else fh_StreamID (Header f))))"
  by (auto simp: checkFrameOrder_def Let_def fr_connError_def)

context h2_reader
begin

lemma readHeader_safe:
  assumes "rinv (f_reader fr)"
  shows "\<exists>r fr'. readAndCheckFrameHeader rd fr = (r, fr') \<and> safe r \<and> lastHeaderStream fr' = lastHeaderStream fr
     \<and> AllowIllegalReads fr' = AllowIllegalReads fr \<and> MaxHeaderListSize fr' = MaxHeaderListSize fr
     \<and> (\<forall>fh. r = Ok fh \<longrightarrow> rinv (f_reader fr') \<and> length (pending (f_reader fr')) + 9 = length (pending (f_reader fr)))"
proof -
  have "(0 :: int) \<le> 9" by simp
  from assms this show ?thesis
  proof (cases rule: lift_Next_cases)
    case (ok s')
    let ?b = "take 9 (pending (f_reader fr))"
    have len: "length ?b = 9" using ok(4) by simp
    then obtain sid where "be32_at ?b 5 = Ok sid" using be32_at_ok[of 5 ?b] by auto
    then show ?thesis
      using ok len by (auto simp: readAndCheckFrameHeader_def bindP_def on_reader_def index_def Let_def)
  next
    case (err e s')
    then show ?thesis by (auto simp: readAndCheckFrameHeader_def bindP_def on_reader_def)
  qed
qed

lemma parse_payload_safe:
  assumes "rinv s"
  shows "\<exists>r s'. parse_payload rd fh s = (r, s') \<and> safe r
     \<and> (\<forall>f. r = Ok f \<longrightarrow> Header f = fh \<and> shaped f \<and> rinv s' \<and> length (pending s') \<le> length (pending s))"
proof (cases "fh_Type fh = FrameData")
  case True
  then show ?thesis
    using parseDataFrame_safe[OF assms, of fh] by (auto simp: parse_payload_def shaped_def frame_types)
next
  case False
  have "0 \<le> uint (fh_Length fh)" by simp
  from assms this show ?thesis
  proof (cases rule: lift_Next_cases)
    case (ok s')
    then show ?thesis
      using False safe_typeFrameParser[of "fh_Type fh" fh "take (nat (uint (fh_Length fh))) (pending s)"]
      by (auto simp: parse_payload_def bindP_def dest: typeFrameParser_shaped)
  next
    case (err e s')
    then show ?thesis using False by (auto simp: parse_payload_def bindP_def)
  qed
qed

lemma stash_safe:
  assumes "p fr = (r, fr')" "safe r"
  shows "\<exists>r' fr''. stash_connError p fr = (r', fr'') \<and> safe r' \<and> (\<forall>x. r' = Ok x \<longleftrightarrow> r = Ok x)
     \<and> f_reader fr'' = f_reader fr' \<and> lastHeaderStream fr'' = lastHeaderStream fr'
     \<and> AllowIllegalReads fr'' = AllowIllegalReads fr' \<and> MaxHeaderListSize fr'' = MaxHeaderListSize fr'"
  using assms by (cases r) (auto simp: stash_connError_def fr_connError_def split: h2err.splits)

lemma readFrame1_safe:
  assumes "rinv (f_reader fr)"
  shows "\<exists>r fr'. readFrame1 rd fr = (r, fr') \<and> safe r
     \<and> AllowIllegalReads fr' = AllowIllegalReads fr \<and> MaxHeaderListSize fr' = MaxHeaderListSize fr
     \<and> (\<forall>f. r = Ok f \<longrightarrow> rinv (f_reader fr') \<and> shaped f
         \<and> length (pending (f_reader fr')) + 9 \<le> length (pending (f_reader fr))
         \<and> (\<not> AllowIllegalReads fr \<longrightarrow>
              (lastHeaderStream fr \<noteq> 0 \<longrightarrow> fh_Type (Header f) = FrameContinuation \<and> fh_StreamID (Header f) = lastHeaderStream fr)
            \<and> (fh_Type (Header f) = FrameHeaders \<or> fh_Type (Header f) = FrameContinuation \<longrightarrow>
                 lastHeaderStream fr' = (if Has (fh_Flags (Header f)) FlagEndHeaders then 0 else fh_StreamID (Header f)))))"
proof -
  let ?fr = "fr\<lparr>errDetail := None\<rparr>"
  obtain r1 fr1 where r1: "readAndCheckFrameHeader rd ?fr = (r1, fr1)" "safe r1" "lastHeaderStream fr1 = lastHeaderStream fr"
    "AllowIllegalReads fr1 = AllowIllegalReads fr" "MaxHeaderListSize fr1 = MaxHeaderListSize fr"
    "\<And>fh. r1 = Ok fh \<Longrightarrow> rinv (f_reader fr1) \<and> length (pending (f_reader fr1)) + 9 = length (pending (f_reader fr))"
    using readHeader_safe[of ?fr] assms by auto
  show ?thesis
  proof (cases r1)
    case (Ok fh)
    obtain r2 s2 where r2: "parse_payload rd fh (f_reader fr1) = (r2, s2)" "safe r2"
      "\<And>f. r2 = Ok f \<Longrightarrow> Header f = fh \<and> shaped f \<and> rinv s2 \<and> length (pending s2) \<le> length (pending (f_reader fr1))"
      using parse_payload_safe[of "f_reader fr1" fh] r1(6)[OF Ok] by blast
    have "on_reader (parse_payload rd fh) fr1 = (r2, fr1\<lparr>f_reader := s2\<rparr>)" by (simp add: on_reader_def r2(1))
    from stash_safe[where p = "on_reader (parse_payload rd fh)", OF this r2(2)] obtain r3 fr3 where r3:
      "stash_connError (on_reader (parse_payload rd fh)) fr1 = (r3, fr3)" "safe r3" "\<And>x. r3 = Ok x \<longleftrightarrow> r2 = Ok x"
      "f_reader fr3 = s2" "lastHeaderStream fr3 = lastHeaderStream fr" "AllowIllegalReads fr3 = AllowIllegalReads fr"
      "MaxHeaderListSize fr3 = MaxHeaderListSize fr"
      using r1 by auto
    show ?thesis
    proof (cases r3)
      case (Ok f)
      with r3(3) r2(3) have f: "Header f = fh" "shaped f" "rinv s2" "length (pending s2) \<le> length (pending (f_reader fr1))"
        by auto
      obtain r4 fr4 where r4: "checkFrameOrder f fr3 = (r4, fr4)" "safe r4" "f_reader fr4 = s2"
        "AllowIllegalReads fr4 = AllowIllegalReads fr" "MaxHeaderListSize fr4 = MaxHeaderListSize fr"
        "r4 = Ok () \<and> \<not> AllowIllegalReads fr \<longrightarrow>
          (lastHeaderStream fr \<noteq> 0 \<longrightarrow> fh_Type (Header f) = FrameContinuation \<and> fh_StreamID (Header f) = lastHeaderStream fr)
        \<and> (fh_Type (Header f) = FrameHeaders \<or> fh_Type (Header f) = FrameContinuation \<longrightarrow>
             lastHeaderStream fr4 = (if Has (fh_Flags (Header f)) FlagEndHeaders then 0 else fh_StreamID (Header f)))"
        using checkFrameOrder_cases[of f fr3] r3(4-7) by force
      have run: "readFrame1 rd fr = (bindR r4 (\<lambda>_. Ok f), fr4)"
        using r1(1) \<open>r1 = Ok fh\<close> r3(1) Ok r4(1) by (cases r4) (simp_all add: readFrame1_def bindP_def)
      have len: "length (pending s2) + 9 \<le> length (pending (f_reader fr))"
        using f(4) r1(6)[OF \<open>r1 = Ok fh\<close>] by simp
      show ?thesis
      proof (cases r4)
        case (Ok u)
        then show ?thesis using run r4(2-6) f(2,3) len by simp
      qed (use run r4(2,4,5) in simp_all)
    qed (use r1(1) r3(1,2,6,7) \<open>r1 = Ok fh\<close> in \<open>simp_all add: readFrame1_def bindP_def\<close>)
  qed (use r1(1,2,4,5) in \<open>simp_all add: readFrame1_def bindP_def\<close>)
qed

end

context h2_reader
begin

lemma readMetaLoop_safe:
  "rinv (f_reader fr) \<Longrightarrow> \<not> AllowIllegalReads fr \<Longrightarrow> (\<not> ended \<longrightarrow> lastHeaderStream fr \<noteq> 0) \<Longrightarrow>
   length (pending (f_reader fr)) < fuel \<Longrightarrow> safe (fst (readMetaLoop fuel rd hp frag ended (fr, hdec, m)))"
proof (induction fuel arbitrary: fr frag ended hdec m)
  case (Suc fuel)
  obtain flds ok hdec' where w: "hd_Write hp hdec frag = (flds, ok, hdec')" by (cases "hd_Write hp hdec frag")
  show ?case
  proof (cases "\<not> ok \<or> ended")
    case False
    then have lhs: "lastHeaderStream fr \<noteq> 0" using Suc.prems by simp
    obtain r fr' where r: "readFrame1 rd fr = (r, fr')" "safe r" "AllowIllegalReads fr' = AllowIllegalReads fr"
      "\<And>f. r = Ok f \<Longrightarrow> rinv (f_reader fr') \<and> shaped f
         \<and> length (pending (f_reader fr')) + 9 \<le> length (pending (f_reader fr))
         \<and> fh_Type (Header f) = FrameContinuation \<and> fh_StreamID (Header f) = lastHeaderStream fr
         \<and> lastHeaderStream fr' = (if Has (fh_Flags (Header f)) FlagEndHeaders then 0 else fh_StreamID (Header f))"
      using readFrame1_safe[OF Suc.prems(1)] Suc.prems(2) lhs by blast
    show ?thesis
    proof (cases r)
      case (Ok f)
      from r(4)[OF this] obtain fh frag' where f: "f = ContinuationFrame fh frag'" by (auto simp: shaped_def)
      have "safe (fst (readMetaLoop fuel rd hp frag' (Has (fh_Flags fh) FlagEndHeaders) (fr', hdec', fold (emit hp) flds m)))"
        using r(4)[OF Ok] Suc.prems lhs r(3) by (intro Suc.IH) (auto simp: f)
      then show ?thesis using False w r(1) Ok f by simp
    qed (use False w r(1,2) in simp_all)
  qed (use w in \<open>auto simp: Let_def\<close>)
qed simp

lemma readMetaFrame_safe:
  assumes "rinv (f_reader fr)" "\<not> Has (fh_Flags fh) FlagEndHeaders \<longrightarrow> lastHeaderStream fr \<noteq> 0"
    "length (pending (f_reader fr)) < fuel"
  shows "safe (fst (readMetaFrame fuel rd hp fh prio frag (fr, hdec)))"
proof (cases "AllowIllegalReads fr")
  case False
  show ?thesis
    using readMetaLoop_safe[OF assms(1) False assms(2,3), of hp frag hdec "meta0 (maxHeaderListSize fr)"] False
    by (auto simp: readMetaFrame_def split: prod.splits res.splits option.splits)
qed (simp add: readMetaFrame_def)

lemma ReadFrame_safe:
  assumes "rinv (f_reader fr)" "length (pending (f_reader fr)) < fuel" "\<not> AllowIllegalReads fr"
  shows "safe (fst (ReadFrame fuel rd hp wantMeta (fr, hdec)))"
proof -
  obtain r fr' where r: "readFrame1 rd fr = (r, fr')" "safe r"
      "\<And>f. r = Ok f \<Longrightarrow> rinv (f_reader fr') \<and> shaped f
         \<and> length (pending (f_reader fr')) + 9 \<le> length (pending (f_reader fr))
         \<and> (fh_Type (Header f) = FrameHeaders \<longrightarrow>
              lastHeaderStream fr' = (if Has (fh_Flags (Header f)) FlagEndHeaders then 0 else fh_StreamID (Header f)))"
    using readFrame1_safe[OF assms(1)] assms(3) by blast
  show ?thesis
  proof (cases r)
    case (Ok f)
    show ?thesis
    proof (cases "fh_Type (Header f) = FrameHeaders \<and> wantMeta")
      case True
      then obtain fh prio frag where f: "f = HeadersFrame fh prio frag" using r(3)[OF Ok] by (auto simp: shaped_def)
      have "fh_StreamID fh \<noteq> 0" using r(1) Ok f True by (auto dest: readFrame1_headers_sid)
      then have "safe (fst (readMetaFrame fuel rd hp fh prio frag (fr', hdec)))"
        using r(3)[OF Ok] assms(2) True by (intro readMetaFrame_safe) (auto simp: f)
      then show ?thesis using True r(1) Ok f by (simp add: ReadFrame_def)
    qed (use r(1) Ok in \<open>auto simp: ReadFrame_def\<close>)
  qed (use r(1,2) in \<open>simp_all add: ReadFrame_def\<close>)
qed

end

section \<open>The assembled header list\<close>

definition fields_size :: "header_field list \<Rightarrow> nat" where
  "fields_size hfs = sum_list (map (\<lambda>hf. unat (of_nat (hf_Size hf) :: u32)) hfs)"

text \<open>The invariant of the emit function, for a limit of \<open>lim\<close> bytes.\<close>

definition meta_inv :: "'h hpack \<Rightarrow> nat \<Rightarrow> meta \<Rightarrow> bool" where
  "meta_inv hp lim m \<longleftrightarrow> fields_size (mh_Fields m) + unat (remainSize m) = lim
     \<and> (\<not> sawRegular m \<longrightarrow> list_all IsPseudo (mh_Fields m))
     \<and> list_all (\<lambda>hf. \<not> IsPseudo hf) (RegularFields (mh_Fields m))
     \<and> list_all (\<lambda>hf. ValidHeaderFieldValue hp (snd hf)
           \<and> (IsPseudo hf \<or> validWireHeaderFieldName (IsTokenRune hp) (fst hf))) (mh_Fields m)
     \<and> (emitEnabled m \<longrightarrow> invalid m = None)"

lemma RegularFields_snoc_regular:
  "list_all (\<lambda>hf. \<not> IsPseudo hf) (RegularFields xs) \<Longrightarrow> \<not> IsPseudo x \<Longrightarrow>
   list_all (\<lambda>hf. \<not> IsPseudo hf) (RegularFields (xs @ [x]))"
  by (induction xs) (auto simp: RegularFields_def)

lemma RegularFields_all_pseudo: "list_all IsPseudo xs \<Longrightarrow> RegularFields xs = []"
  by (induction xs) (auto simp: RegularFields_def)

lemma emit_inv: "meta_inv hp lim m \<Longrightarrow> meta_inv hp lim (emit hp hf m)"
proof -
  assume i: "meta_inv hp lim m"
  have sz: "unat (remainSize m - s) + unat s = unat (remainSize m)" if "\<not> s > remainSize m" for s
    using that by (simp add: unat_sub not_less word_le_nat_alt)
  show ?thesis
    using i sz[of "of_nat (hf_Size hf)"]
      RegularFields_snoc_regular[of "mh_Fields m" hf] RegularFields_all_pseudo[of "mh_Fields m @ [hf]"]
    by (auto simp: meta_inv_def emit_def Let_def fields_size_def)
qed

lemma fold_emit_inv: "meta_inv hp lim m \<Longrightarrow> meta_inv hp lim (fold (emit hp) hfs m)"
  by (induction hfs arbitrary: m) (auto intro: emit_inv)

lemma readMetaLoop_inv:
  "readMetaLoop fuel rd hp frag ended (fr, hdec, m) = (r, (fr', hdec', m')) \<Longrightarrow> meta_inv hp lim m \<Longrightarrow> meta_inv hp lim m'"
proof (induction fuel arbitrary: fr frag ended hdec m)
  case (Suc fuel)
  obtain flds ok hdec1 where w: "hd_Write hp hdec frag = (flds, ok, hdec1)" by (cases "hd_Write hp hdec frag")
  have i: "meta_inv hp lim (fold (emit hp) flds m)" using Suc.prems(2) by (rule fold_emit_inv)
  show ?case
  proof (cases "\<not> ok \<or> ended")
    case True
    with Suc.prems(1) w i show ?thesis by (auto simp: Let_def split: if_splits)
  next
    case False
    obtain r1 fr1 where r1: "readFrame1 rd fr = (r1, fr1)" by (cases "readFrame1 rd fr")
    show ?thesis
    proof (cases r1)
      case (Ok f)
      show ?thesis
      proof (cases "\<exists>fh frag'. f = ContinuationFrame fh frag'")
        case True
        then obtain fh frag' where "f = ContinuationFrame fh frag'" by blast
        then have "readMetaLoop fuel rd hp frag' (Has (fh_Flags fh) FlagEndHeaders) (fr1, hdec1, fold (emit hp) flds m)
            = (r, (fr', hdec', m'))" using Suc.prems(1) w False r1 Ok by simp
        then show ?thesis using i by (rule Suc.IH)
      next
        case nc: False
        with Suc.prems(1) w False r1 Ok i show ?thesis by (cases f) auto
      qed
    qed (use Suc.prems(1) w False r1 i in auto)
  qed
qed simp

lemma checkPseudosLoop_Ok:
  "checkPseudosLoop before pf rq rs = Ok (rq', rs') \<Longrightarrow> distinct (map fst before) \<Longrightarrow>
   distinct (map fst (before @ pf)) \<and> set (map fst pf) \<subseteq> set request_pseudos \<union> {response_pseudo}
   \<and> rq' = (rq \<or> (\<exists>n\<in>set (map fst pf). n \<in> set request_pseudos)) \<and> rs' = (rs \<or> response_pseudo \<in> set (map fst pf))"
proof (induction pf arbitrary: before rq rs)
  case (Cons hf pf)
  then have h: "fst hf \<in> set request_pseudos \<or> fst hf = response_pseudo" "fst hf \<notin> set (map fst before)"
    "checkPseudosLoop (before @ [hf]) pf (rq \<or> fst hf \<in> set request_pseudos) (rs \<or> fst hf = response_pseudo) = Ok (rq', rs')"
    by (auto simp: list_ex_iff split: if_splits)
  then have "distinct (map fst (before @ [hf]))" using Cons.prems(2) by auto
  from Cons.IH[OF h(3) this] h(1) show ?case by auto
qed auto

lemma checkPseudosLoop_safe: "safe (checkPseudosLoop before pf rq rs)"
  by (induction pf arbitrary: before rq rs) simp_all

lemma checkPseudos_None:
  assumes "checkPseudos hfs = None"
  shows "\<exists>rq rs. checkPseudosLoop [] (PseudoFields hfs) False False = Ok (rq, rs) \<and> \<not> (rq \<and> rs)"
proof (cases "checkPseudosLoop [] (PseudoFields hfs) False False")
  case (Ok p)
  obtain rq rs where "p = (rq, rs)" by (cases p)
  with Ok assms show ?thesis by (simp add: checkPseudos_def split: if_split_asm)
next
  case (Err e)
  with assms show ?thesis by (simp add: checkPseudos_def)
qed (use checkPseudosLoop_safe[of "[]" "PseudoFields hfs" False False] in simp_all)

lemma readMetaFrame_Ok:
  assumes "readMetaFrame fuel rd hp fh prio frag (fr, hdec) = (Ok (MetaHeadersFrame fh' prio' hfs trunc), st')"
  shows "\<exists>fr1 hdec1 m. readMetaLoop fuel rd hp frag (Has (fh_Flags fh) FlagEndHeaders)
      (fr, hdec, meta0 (maxHeaderListSize fr)) = (Ok (), (fr1, hdec1, m)) \<and> mh_Fields m = hfs \<and> checkPseudos hfs = None"
proof -
  obtain r fr1 hdec1 m where l: "readMetaLoop fuel rd hp frag (Has (fh_Flags fh) FlagEndHeaders)
      (fr, hdec, meta0 (maxHeaderListSize fr)) = (r, (fr1, hdec1, m))" using prod_cases4 by blast
  obtain ok hdec2 where c: "hd_Close hp hdec1 = (ok, hdec2)" by (cases "hd_Close hp hdec1")
  have ill: "\<not> AllowIllegalReads fr" using assms by (auto simp: readMetaFrame_def)
  show ?thesis
  proof (cases r)
    case (Ok u)
    with assms l c ill show ?thesis
      by (cases ok; cases "invalid m"; cases "checkPseudos (mh_Fields m)") (simp_all add: readMetaFrame_def)
  qed (use assms l ill in \<open>simp_all add: readMetaFrame_def\<close>)
qed

section \<open>Duplicate settings\<close>

lemma dup_quadratic_iff: "dup_quadratic ids \<longleftrightarrow> \<not> distinct ids"
  by (induction ids) (auto simp: list_ex_iff)

lemma dup_seen_iff: "dup_seen seen ids \<longleftrightarrow> \<not> distinct ids \<or> set seen \<inter> set ids \<noteq> {}"
  by (induction ids arbitrary: seen) auto

lemma setting_ids_bytes:
  "i + k = length ss \<Longrightarrow> setting_ids k (settings_bytes ss) i = Ok (map fst (drop i ss))"
proof (induction k arbitrary: i)
  case (Suc k)
  then have i: "i < length ss" by simp
  then have "drop i ss = ss ! i # drop (Suc i) ss" by (rule Cons_nth_drop_Suc[symmetric])
  with Suc i show ?case by (cases "ss ! i") (simp add: Setting_bytes)
qed simp

section \<open>Properties\<close>

text \<open>C21. Reading a frame from arbitrary bytes, in any state of the framer, always returns: a frame or an error, never
  an index panic, a failed type assertion or an endless header block. As fuel, more than the number of
  bytes available is enough, since every frame takes at least nine.\<close>

theorem ReadFrame_total:
  assumes "bb_rinv (f_reader fr)" and "length (bb_pending (f_reader fr)) < fuel" and "\<not> AllowIllegalReads fr"
  shows "\<exists>r st'. ReadFrame fuel bb_netpoll hp wantMeta (fr, hdec) = (r, st') \<and> ((\<exists>f. r = Ok f) \<or> (\<exists>e. r = Err e))"
proof -
  obtain r st' where r: "ReadFrame fuel bb_netpoll hp wantMeta (fr, hdec) = (r, st')" by (cases "ReadFrame fuel bb_netpoll hp wantMeta (fr, hdec)")
  with bbn.ReadFrame_safe[OF assms, of hp wantMeta hdec] have "safe r" by simp
  with r show ?thesis unfolding safe_cases by blast
qed

definition hpack_none :: "unit hpack" where
  "hpack_none = \<lparr>hd_Write = (\<lambda>h frag. ([([58], frag)], True, ())), hd_Close = (\<lambda>h. (True, ())),
     ValidHeaderFieldValue = (\<lambda>_. True), IsTokenRune = (\<lambda>_. True)\<rparr>"

theorem ReadFrame_total_witness:
  "\<exists>r st'. ReadFrame 30 bb_netpoll hpack_none True
      (NewFramer_r (newReaderByteBuffer newDefaultByteBuffer [0, 0, 4, 1, 0, 0, 0, 0, 1, 9, 9, 9, 9, 0, 0, 9]), ()) = (r, st')
    \<and> ((\<exists>f. r = Ok f) \<or> (\<exists>e. r = Err e))"
  by (rule ReadFrame_total)
    (simp_all add: NewFramer_r_def SetMaxReadFrameSize_def new_r)

text \<open>C16. Header blocks are contiguous: while a header block is open, the only frame the framer accepts is a
  CONTINUATION of the same stream, and the block stays open exactly until one carries END_HEADERS.\<close>

theorem header_block_contiguous:
  assumes "bb_rinv (f_reader fr)" and "\<not> AllowIllegalReads fr" and "lastHeaderStream fr \<noteq> 0"
    and "readFrame1 bb_netpoll fr = (Ok f, fr')"
  shows "\<exists>fh frag. f = ContinuationFrame fh frag \<and> fh_StreamID fh = lastHeaderStream fr
     \<and> lastHeaderStream fr' = (if Has (fh_Flags fh) FlagEndHeaders then 0 else lastHeaderStream fr)"
proof -
  have "shaped f" "fh_Type (Header f) = FrameContinuation" "fh_StreamID (Header f) = lastHeaderStream fr"
    "lastHeaderStream fr' = (if Has (fh_Flags (Header f)) FlagEndHeaders then 0 else fh_StreamID (Header f))"
    using bbn.readFrame1_safe[OF assms(1)] assms(2-4) by simp_all
  then show ?thesis by (auto simp: shaped_def)
qed

theorem header_block_contiguous_witness:
  "\<exists>f fr'. readFrame1 bb_netpoll ((NewFramer_r (newReaderByteBuffer newDefaultByteBuffer (wire_bytes (WCont 5 True [1]))))
      \<lparr>lastHeaderStream := 5\<rparr>) = (Ok f, fr') \<and> (\<exists>fh frag. f = ContinuationFrame fh frag \<and> fh_StreamID fh = 5)"
proof -
  let ?fr = "(NewFramer_r (newReaderByteBuffer newDefaultByteBuffer (wire_bytes (WCont 5 True [1]))))\<lparr>lastHeaderStream := 5\<rparr>"
  have i: "bb_rinv (f_reader ?fr)" "\<not> AllowIllegalReads ?fr" "lastHeaderStream ?fr \<noteq> 0"
    "bb_pending (f_reader ?fr) = wire_bytes (WCont 5 True [1]) @ []"
    by (simp_all add: NewFramer_r_def SetMaxReadFrameSize_def new_r)
  obtain fr' where "readFrame1 bb_netpoll ?fr = (Ok (frame_of (WCont 5 True [1])), fr')"
    using bbn.readFrame1_law[OF i(1,4)] i(2)
    by (auto simp: wlegal_def validStreamID_def payload_of_def NewFramer_r_def SetMaxReadFrameSize_def maxFrameSize_def)
  with header_block_contiguous[OF i(1-3) this] show ?thesis by simp
qed

text \<open>C22. A header list the framer delivers respects \<^verbatim>\<open>MAX_HEADER_LIST_SIZE\<close>, has every pseudo-header before every
  regular field, only known pseudo-headers without repetition and not of a request and a response at once, and
  only valid names and values.\<close>

theorem meta_headers_valid:
  assumes "readMetaFrame fuel rd hp fh prio frag (fr, hdec) = (Ok (MetaHeadersFrame fh' prio' hfs trunc), st')"
    and "\<forall>hf\<in>set hfs. hf_Size hf < 2 ^ 32"
  shows "sum_list (map hf_Size hfs) \<le> unat (maxHeaderListSize fr)
     \<and> hfs = PseudoFields hfs @ RegularFields hfs \<and> (\<forall>hf\<in>set (RegularFields hfs). \<not> IsPseudo hf)
     \<and> distinct (map fst (PseudoFields hfs))
     \<and> (set (map fst (PseudoFields hfs)) \<subseteq> set request_pseudos \<or> set (map fst (PseudoFields hfs)) \<subseteq> {response_pseudo})
     \<and> (\<forall>hf\<in>set (RegularFields hfs). validWireHeaderFieldName (IsTokenRune hp) (fst hf))
     \<and> (\<forall>hf\<in>set hfs. ValidHeaderFieldValue hp (snd hf))"
proof -
  obtain fr1 hdec1 m where m: "readMetaLoop fuel rd hp frag (Has (fh_Flags fh) FlagEndHeaders)
      (fr, hdec, meta0 (maxHeaderListSize fr)) = (Ok (), (fr1, hdec1, m))"
    "mh_Fields m = hfs" "checkPseudos hfs = None"
    using readMetaFrame_Ok[OF assms(1)] by blast
  have "meta_inv hp (unat (maxHeaderListSize fr)) (meta0 (maxHeaderListSize fr))"
    by (simp add: meta_inv_def meta0_def fields_size_def RegularFields_def)
  with readMetaLoop_inv[OF m(1)] have i: "meta_inv hp (unat (maxHeaderListSize fr)) m" by blast
  have "fields_size hfs = sum_list (map hf_Size hfs)"
    using assms(2) unfolding fields_size_def by (intro arg_cong[where f = sum_list] map_cong) (auto simp: unat_of_nat32)
  then have size: "sum_list (map hf_Size hfs) \<le> unat (maxHeaderListSize fr)"
    using i m(2) by (simp add: meta_inv_def)
  have split: "hfs = PseudoFields hfs @ RegularFields hfs" by (simp add: PseudoFields_def RegularFields_def)
  then have sub: "set (RegularFields hfs) \<subseteq> set hfs" by (metis set_append sup.cobounded2)
  have valid: "\<forall>hf\<in>set (RegularFields hfs). \<not> IsPseudo hf"
    "\<forall>hf\<in>set hfs. ValidHeaderFieldValue hp (snd hf) \<and> (IsPseudo hf \<or> validWireHeaderFieldName (IsTokenRune hp) (fst hf))"
    using i m(2) by (auto simp: meta_inv_def list_all_iff)
  obtain rq rs where "checkPseudosLoop [] (PseudoFields hfs) False False = Ok (rq, rs)" "\<not> (rq \<and> rs)"
    using checkPseudos_None[OF m(3)] by blast
  with checkPseudosLoop_Ok[of "[]" "PseudoFields hfs" False False rq rs]
  have "distinct (map fst (PseudoFields hfs))"
    "set (map fst (PseudoFields hfs)) \<subseteq> set request_pseudos \<union> {response_pseudo}"
    "\<not> ((\<exists>n\<in>set (map fst (PseudoFields hfs)). n \<in> set request_pseudos) \<and> response_pseudo \<in> set (map fst (PseudoFields hfs)))"
    by simp_all
  then have "distinct (map fst (PseudoFields hfs))"
    "set (map fst (PseudoFields hfs)) \<subseteq> set request_pseudos \<or> set (map fst (PseudoFields hfs)) \<subseteq> {response_pseudo}"
    by blast+
  with size split valid sub show ?thesis by blast
qed

definition hpack_path :: "unit hpack" where
  "hpack_path = \<lparr>hd_Write = (\<lambda>h frag. ([(bytes_of '':path'', frag), (bytes_of ''te'', [116])], True, ())),
     hd_Close = (\<lambda>h. (True, ())), ValidHeaderFieldValue = (\<lambda>_. True), IsTokenRune = (\<lambda>_. True)\<rparr>"

theorem meta_headers_valid_witness:
  "\<exists>hfs trunc st'. readMetaFrame 1 bb_netpoll hpack_path
       \<lparr>fh_Type = 1, fh_Flags = 4, fh_Length = 1, fh_StreamID = 1\<rparr> prio0 [47] (NewFramer_r newDefaultByteBuffer, ())
     = (Ok (MetaHeadersFrame \<lparr>fh_Type = 1, fh_Flags = 4, fh_Length = 1, fh_StreamID = 1\<rparr> prio0 hfs trunc), st')
   \<and> length hfs = 2 \<and> sum_list (map hf_Size hfs) \<le> unat (maxHeaderListSize (NewFramer_r newDefaultByteBuffer))"
proof -
  let ?hfs = "[(bytes_of '':path'', [47]), (bytes_of ''te'', [116])]"
  obtain trunc st' where r: "readMetaFrame 1 bb_netpoll hpack_path
       \<lparr>fh_Type = 1, fh_Flags = 4, fh_Length = 1, fh_StreamID = 1\<rparr> prio0 [47] (NewFramer_r newDefaultByteBuffer, ())
     = (Ok (MetaHeadersFrame \<lparr>fh_Type = 1, fh_Flags = 4, fh_Length = 1, fh_StreamID = 1\<rparr> prio0 ?hfs trunc), st')"
    by (auto simp: readMetaFrame_def hpack_path_def NewFramer_r_def SetMaxReadFrameSize_def Has_def FlagEndHeaders_def
        emit_def meta0_def maxHeaderListSize_def IsPseudo_def bytes_of_def hf_Size_def validWireHeaderFieldName_def
        checkPseudos_def PseudoFields_def request_pseudos_def response_pseudo_def Let_def)
  have "\<forall>hf\<in>set ?hfs. hf_Size hf < 2 ^ 32" by (simp add: hf_Size_def bytes_of_def)
  from meta_headers_valid[OF r this] r show ?thesis
    by (intro exI[of _ ?hfs] exI[of _ trunc] exI[of _ st']) simp
qed

text \<open>C36. The two algorithms of \<open>HasDuplicates\<close> agree with each other and with the definition: it reports exactly
  whether some identifier occurs twice in the settings frame.\<close>

theorem HasDuplicates_correct:
  "HasDuplicates (settings_bytes ss) = Ok (\<not> distinct (map fst ss))"
  using setting_ids_bytes[of 0 "length ss" ss]
  by (auto simp: HasDuplicates_def NumSettings_def Let_def dup_quadratic_iff dup_seen_iff)

end
