(* ===== verification/FlowControl.thy ===== *)
theory FlowControl
  imports Prelude
begin

text \<open>
  The flow control of \<^verbatim>\<open>pkg/remote/trans/nphttp2/grpc/flowcontrol.go\<close> - the write quota of a stream, the
  connection's inbound window and the stream's inbound window - and the bandwidth-delay estimator of
  \<^verbatim>\<open>bdp_estimator.go\<close>. Windows are \<^verbatim>\<open>uint32\<close> and the quota \<^verbatim>\<open>int32\<close>, kept as 32-bit words.
\<close>

section \<open>Write quota\<close>

text \<open>\<open>wq_token\<close> tells whether the channel of capacity one holds a token.\<close>

record writeQuota =
  wq_quota :: u32
  wq_token :: bool

definition newWriteQuota :: "u32 \<Rightarrow> writeQuota" where
  "newWriteQuota sz = \<lparr>wq_quota = sz, wq_token = False\<rparr>"

text \<open>The three atomic actions of \<^verbatim>\<open>get\<close>: the load that decides, the subtraction, and the receive from the channel.\<close>

definition get_load :: "writeQuota \<Rightarrow> bool" where
  "get_load w \<longleftrightarrow> 0 <s wq_quota w"

definition get_sub :: "u32 \<Rightarrow> writeQuota \<Rightarrow> writeQuota" where
  "get_sub sz w = w\<lparr>wq_quota := wq_quota w - sz\<rparr>"

definition get_recv :: "writeQuota \<Rightarrow> writeQuota option" where
  "get_recv w = (if wq_token w then Some (w\<lparr>wq_token := False\<rparr>) else None)"

text \<open>
  The two atomic actions of \<^verbatim>\<open>realReplenish\<close>: the addition, which tells whether the quota became positive, and the send that
  does nothing when the channel is full.
\<close>

definition replenish_add :: "u32 \<Rightarrow> writeQuota \<Rightarrow> bool \<times> writeQuota" where
  "replenish_add sz w = (let a = wq_quota w + sz; b = a - sz in (b \<le>s 0 \<and> 0 <s a, w\<lparr>wq_quota := a\<rparr>))"

definition replenish_send :: "writeQuota \<Rightarrow> writeQuota" where
  "replenish_send w = w\<lparr>wq_token := True\<rparr>"

definition realReplenish :: "u32 \<Rightarrow> writeQuota \<Rightarrow> writeQuota" where
  "realReplenish sz w = (case replenish_add sz w of (signal, w) \<Rightarrow> if signal then replenish_send w else w)"

section \<open>The connection's inbound window\<close>

record trInFlow =
  tr_limit :: u32
  tr_unacked :: u32
  tr_effective :: u32

definition updateEffectiveWindowSize :: "trInFlow \<Rightarrow> trInFlow" where
  "updateEffectiveWindowSize f = f\<lparr>tr_effective := tr_limit f - tr_unacked f\<rparr>"

definition tr_newLimit :: "u32 \<Rightarrow> trInFlow \<Rightarrow> u32 \<times> trInFlow" where
  "tr_newLimit n f = (n - tr_limit f, updateEffectiveWindowSize (f\<lparr>tr_limit := n\<rparr>))"

definition tr_onData :: "u32 \<Rightarrow> trInFlow \<Rightarrow> u32 \<times> trInFlow" where
  "tr_onData n f =
     (let f = f\<lparr>tr_unacked := tr_unacked f + n\<rparr> in
      if tr_unacked f \<ge> tr_limit f div 4
      then (tr_unacked f, updateEffectiveWindowSize (f\<lparr>tr_unacked := 0\<rparr>))
      else (0, updateEffectiveWindowSize f))"

definition tr_reset :: "trInFlow \<Rightarrow> u32 \<times> trInFlow" where
  "tr_reset f = (tr_unacked f, updateEffectiveWindowSize (f\<lparr>tr_unacked := 0\<rparr>))"

section \<open>A stream's inbound window\<close>

record inFlow =
  fl_limit :: u32
  pendingData :: u32
  pendingUpdate :: u32
  fl_delta :: u32

definition maxWindowSize :: u32 where "maxWindowSize = 0x7fffffff"

definition fl_newLimit :: "u32 \<Rightarrow> inFlow \<Rightarrow> inFlow" where
  "fl_newLimit n f = f\<lparr>fl_limit := n\<rparr>"

definition maybeAdjust :: "u32 \<Rightarrow> inFlow \<Rightarrow> u32 \<times> inFlow" where
  "maybeAdjust n0 f =
     (let n = (if n0 > 0x7fffffff then 0x7fffffff else n0);
          estSenderQuota = fl_limit f - (pendingData f + pendingUpdate f);
          estUntransmittedData = n - pendingData f in
      if estSenderQuota <s estUntransmittedData then
        let f = (if fl_limit f + n > maxWindowSize then f\<lparr>fl_delta := maxWindowSize - fl_limit f\<rparr>
                 else f\<lparr>fl_delta := n\<rparr>)
        in (fl_delta f, f)
      else (0, f))"

text \<open>\<^verbatim>\<open>onData\<close> reports an error by returning the amount received and the limit.\<close>

definition fl_onData :: "u32 \<Rightarrow> inFlow \<Rightarrow> (u32 \<times> u32) option \<times> inFlow" where
  "fl_onData n f =
     (let f = f\<lparr>pendingData := pendingData f + n\<rparr> in
      if pendingData f + pendingUpdate f > fl_limit f + fl_delta f
      then (Some (pendingData f + pendingUpdate f, fl_limit f), f)
      else (None, f))"

definition fl_onRead :: "u32 \<Rightarrow> inFlow \<Rightarrow> u32 \<times> inFlow" where
  "fl_onRead n0 f =
     (if pendingData f = 0 then (0, f)
      else
        let f = f\<lparr>pendingData := pendingData f - n0\<rparr>;
            n = (if n0 > fl_delta f then n0 - fl_delta f else 0);
            f = (if n0 > fl_delta f then f\<lparr>fl_delta := 0\<rparr> else f\<lparr>fl_delta := fl_delta f - n0\<rparr>);
            f = f\<lparr>pendingUpdate := pendingUpdate f + n\<rparr> in
        if pendingUpdate f \<ge> fl_limit f div 4 then (pendingUpdate f, f\<lparr>pendingUpdate := 0\<rparr>)
        else (0, f))"

section \<open>The bandwidth-delay estimator\<close>

text \<open>Floating-point arithmetic, as a record of operations over a type of floats.\<close>

record 'f float_ops =
  f_of_u32 :: "u32 \<Rightarrow> 'f"
  f_of_u64 :: "u64 \<Rightarrow> 'f"
  f_sub :: "'f \<Rightarrow> 'f \<Rightarrow> 'f"
  f_add :: "'f \<Rightarrow> 'f \<Rightarrow> 'f"
  f_mul :: "'f \<Rightarrow> 'f \<Rightarrow> 'f"
  f_div :: "'f \<Rightarrow> 'f \<Rightarrow> 'f"
  f_gt :: "'f \<Rightarrow> 'f \<Rightarrow> bool"
  f_ge :: "'f \<Rightarrow> 'f \<Rightarrow> bool"
  f_eq :: "'f \<Rightarrow> 'f \<Rightarrow> bool"
  f_to_u32 :: "'f \<Rightarrow> u32"
  f_alpha :: 'f
  f_beta :: 'f
  f_gamma :: 'f
  f_1_5 :: 'f

text \<open>Times are in nanoseconds; \<open>secs\<close> converts a duration to seconds.\<close>

record 'f bdpEstimator =
  sentAt :: int
  bdp :: u32
  sample :: u32
  bwMax :: 'f
  isSent :: bool
  sampleCount :: u64
  rtt :: 'f

definition bdpLimit :: u32 where "bdpLimit = 16777216"

definition bdpPingInterval :: int where "bdpPingInterval = 1000000000"

definition bdpPing_data :: "byte list" where "bdpPing_data = [2, 4, 16, 16, 9, 14, 7, 7]"

definition timesnap :: "int \<Rightarrow> byte list \<Rightarrow> 'f bdpEstimator \<Rightarrow> 'f bdpEstimator" where
  "timesnap now d b = (if bdpPing_data \<noteq> d then b else b\<lparr>sentAt := now\<rparr>)"

definition bdp_add :: "int \<Rightarrow> int \<Rightarrow> u32 \<Rightarrow> 'f bdpEstimator \<Rightarrow> bool \<times> 'f bdpEstimator" where
  "bdp_add now zeroTime n b =
     (if bdp b = bdpLimit then (False, b)
      else if \<not> isSent b \<and> now - sentAt b \<ge> bdpPingInterval then
        (True, b\<lparr>isSent := True, sample := n, sentAt := zeroTime, sampleCount := sampleCount b + 1\<rparr>)
      else (False, b\<lparr>sample := sample b + n\<rparr>))"

text \<open>\<open>calculate\<close> returns the window passed to \<^verbatim>\<open>updateFlowControl\<close>, if it is called.\<close>

definition calculate :: "'f float_ops \<Rightarrow> (int \<Rightarrow> 'f) \<Rightarrow> int \<Rightarrow> byte list \<Rightarrow> 'f bdpEstimator \<Rightarrow> u32 option \<times> 'f bdpEstimator" where
  "calculate F secs now d b =
     (if bdpPing_data \<noteq> d then (None, b)
      else
        let rttSample = secs (now - sentAt b);
            diff = f_sub F rttSample (rtt b);
            b = b\<lparr>rtt := f_add F (rtt b)
                   (if sampleCount b < 10 then f_div F diff (f_of_u64 F (sampleCount b)) else f_mul F diff (f_alpha F))\<rparr>;
            b = b\<lparr>isSent := False\<rparr>;
            bwCurrent = f_div F (f_of_u32 F (sample b)) (f_mul F (rtt b) (f_1_5 F));
            b = (if f_gt F bwCurrent (bwMax b) then b\<lparr>bwMax := bwCurrent\<rparr> else b) in
        if f_ge F (f_of_u32 F (sample b)) (f_mul F (f_beta F) (f_of_u32 F (bdp b)))
           \<and> f_eq F bwCurrent (bwMax b) \<and> bdp b \<noteq> bdpLimit then
          let est = f_to_u32 F (f_mul F (f_gamma F) (f_of_u32 F (sample b)));
              b = b\<lparr>bdp := (if est > bdpLimit then bdpLimit else est)\<rparr>
          in (Some (bdp b), b)
        else (None, b))"

section \<open>Word arithmetic without wrap-around\<close>

lemma uint_add_small: "uint a + uint b < 2 ^ 32 \<Longrightarrow> uint (a + b) = uint a + uint (b :: u32)"
  by (simp add: uint_plus_if_size word_size)

lemma uint_sub_le: "uint b \<le> uint a \<Longrightarrow> uint (a - b) = uint a - uint (b :: u32)"
  by (simp add: uint_sub_if_size)

lemma uint_div4: "uint ((a :: u32) div 4) = uint a div 4"
  by (simp add: uint_div)

lemma u32_less: "(a :: u32) < b \<longleftrightarrow> uint a < uint b" "(a :: u32) \<le> b \<longleftrightarrow> uint a \<le> uint b"
  by (simp_all add: word_less_def word_le_def)

section \<open>A stream over an asynchronous network\<close>

text \<open>
  A sender that respects its window, the receiving stream, DATA frames and window credits in flight in both
  directions. \<open>rejected\<close> records that the receiver reported a flow-control violation.
\<close>

record fcsys =
  fs_window :: int
  fs_data :: "u32 list"
  fs_credit :: "u32 list"
  fs_rcv :: inFlow
  fs_rejected :: bool

definition fc_init :: "u32 \<Rightarrow> fcsys" where
  "fc_init lim = \<lparr>fs_window = uint lim, fs_data = [], fs_credit = [],
     fs_rcv = \<lparr>fl_limit = lim, pendingData = 0, pendingUpdate = 0, fl_delta = 0\<rparr>, fs_rejected = False\<rparr>"

text \<open>
  The application asks for a message (\<open>Adjust\<close>) only when the extra window given for the previous one is used
  up, and reads at most what has arrived.
\<close>

inductive fc_step :: "fcsys \<Rightarrow> fcsys \<Rightarrow> bool" where
  Send: "uint n \<le> fs_window s \<Longrightarrow>
     fc_step s (s\<lparr>fs_window := fs_window s - uint n, fs_data := fs_data s @ [n]\<rparr>)"
| Deliver: "fs_data s = n # ns \<Longrightarrow> fl_onData n (fs_rcv s) = (e, f) \<Longrightarrow>
     fc_step s (s\<lparr>fs_data := ns, fs_rcv := f, fs_rejected := (fs_rejected s \<or> e \<noteq> None)\<rparr>)"
| Read: "n \<le> pendingData (fs_rcv s) \<Longrightarrow> fl_onRead n (fs_rcv s) = (w, f) \<Longrightarrow>
     fc_step s (s\<lparr>fs_rcv := f, fs_credit := fs_credit s @ [w]\<rparr>)"
| Adjust: "fl_delta (fs_rcv s) = 0 \<Longrightarrow> maybeAdjust n (fs_rcv s) = (w, f) \<Longrightarrow>
     fc_step s (s\<lparr>fs_rcv := f, fs_credit := fs_credit s @ [w]\<rparr>)"
| Limit: "fl_limit (fs_rcv s) \<le> n \<Longrightarrow> n \<le> maxWindowSize \<Longrightarrow>
     fc_step s (s\<lparr>fs_rcv := fl_newLimit n (fs_rcv s), fs_credit := fs_credit s @ [n - fl_limit (fs_rcv s)]\<rparr>)"
| Credit: "fs_credit s = w # ws \<Longrightarrow>
     fc_step s (s\<lparr>fs_credit := ws, fs_window := fs_window s + uint w\<rparr>)"

inductive fc_reach :: "u32 \<Rightarrow> fcsys \<Rightarrow> bool" for lim where
  init: "fc_reach lim (fc_init lim)"
| step: "fc_reach lim s \<Longrightarrow> fc_step s s' \<Longrightarrow> fc_reach lim s'"

definition fc_inv :: "fcsys \<Rightarrow> bool" where
  "fc_inv s \<longleftrightarrow> 0 \<le> fs_window s \<and> \<not> fs_rejected s
     \<and> uint (fl_limit (fs_rcv s)) < 2 ^ 31 \<and> uint (fl_delta (fs_rcv s)) < 2 ^ 31
     \<and> fs_window s + sum_list (map uint (fs_data s)) + sum_list (map uint (fs_credit s))
         + uint (pendingData (fs_rcv s)) + uint (pendingUpdate (fs_rcv s))
       = uint (fl_limit (fs_rcv s)) + uint (fl_delta (fs_rcv s))
     \<and> (pendingUpdate (fs_rcv s) = 0 \<or> uint (pendingUpdate (fs_rcv s)) < uint (fl_limit (fs_rcv s)) div 4)"

lemma sum_uint_nonneg: "0 \<le> sum_list (map uint (xs :: u32 list))"
  by (induction xs) auto

lemma fl_onData_ok:
  assumes "uint (pendingData f) + uint (pendingUpdate f) + uint n \<le> uint (fl_limit f) + uint (fl_delta f)"
    "uint (fl_limit f) + uint (fl_delta f) < 2 ^ 32"
  shows "fl_onData n f = (None, f\<lparr>pendingData := pendingData f + n\<rparr>) \<and> uint (pendingData f + n) = uint (pendingData f) + uint n"
proof -
  have p: "uint (pendingData f + n) = uint (pendingData f) + uint n"
    using assms uint_ge_0[of "pendingUpdate f"] by (intro uint_add_small) linarith
  have "uint (pendingData f + n + pendingUpdate f) = uint (pendingData f) + uint n + uint (pendingUpdate f)"
    using assms p by (subst uint_add_small) linarith+
  moreover have "uint (fl_limit f + fl_delta f) = uint (fl_limit f) + uint (fl_delta f)"
    using assms(2) by (rule uint_add_small)
  ultimately show ?thesis using assms p by (simp add: fl_onData_def Let_def u32_less)
qed

lemma fl_onRead_effect:
  assumes "n \<le> pendingData f" "uint (pendingData f) + uint (pendingUpdate f) < 2 ^ 32" "fl_onRead n f = (w, f')"
    "pendingUpdate f = 0 \<or> uint (pendingUpdate f) < uint (fl_limit f) div 4"
  shows "uint (pendingData f') + uint (pendingUpdate f') + uint w + (uint (fl_delta f) - uint (fl_delta f'))
       = uint (pendingData f) + uint (pendingUpdate f)
     \<and> fl_limit f' = fl_limit f \<and> uint (fl_delta f') \<le> uint (fl_delta f)
     \<and> (pendingUpdate f' = 0 \<or> uint (pendingUpdate f') < uint (fl_limit f') div 4)"
proof (cases "pendingData f = 0")
  case False
  let ?m = "if n > fl_delta f then n - fl_delta f else 0"
  let ?d = "if n > fl_delta f then 0 else fl_delta f - n"
  have m: "uint ?m = (if uint (fl_delta f) < uint n then uint n - uint (fl_delta f) else 0)"
    by (simp add: u32_less uint_sub_le)
  have d: "uint ?d = (if uint (fl_delta f) < uint n then 0 else uint (fl_delta f) - uint n)"
    by (simp add: u32_less uint_sub_le)
  have pd: "uint (pendingData f - n) = uint (pendingData f) - uint n"
    using assms(1) by (simp add: u32_less uint_sub_le)
  have "uint n \<le> uint (pendingData f)" "0 \<le> uint (fl_delta f)" "0 \<le> uint (pendingData f)"
    using assms(1) by (simp_all add: u32_less)
  then have "uint ?m \<le> uint (pendingData f)" unfolding m by (cases "uint (fl_delta f) < uint n"; simp only: if_True if_False; linarith)
  then have pu: "uint (pendingUpdate f + ?m) = uint (pendingUpdate f) + uint ?m"
    using assms(2) by (intro uint_add_small) linarith
  have run: "fl_onRead n f = (if pendingUpdate f + ?m \<ge> fl_limit f div 4
      then (pendingUpdate f + ?m, f\<lparr>pendingData := pendingData f - n, fl_delta := ?d, pendingUpdate := 0\<rparr>)
      else (0, f\<lparr>pendingData := pendingData f - n, fl_delta := ?d, pendingUpdate := pendingUpdate f + ?m\<rparr>))"
    using False by (simp add: fl_onRead_def Let_def)
  have lt: "uint (pendingUpdate f + ?m) < uint (fl_limit f) div 4" if "\<not> pendingUpdate f + ?m \<ge> fl_limit f div 4"
    using that by (simp add: u32_less uint_div4)
  show ?thesis
    using assms(3) run m d pd pu lt
    by (cases "pendingUpdate f + ?m \<ge> fl_limit f div 4") (auto split: if_splits)
qed (use assms in \<open>simp add: fl_onRead_def\<close>)

lemma maybeAdjust_effect:
  assumes "maybeAdjust n f = (w, f')" "fl_delta f = 0" "uint (fl_limit f) < 2 ^ 31"
  shows "uint (fl_delta f') = uint w \<and> uint w < 2 ^ 31 \<and> fl_limit f' = fl_limit f
    \<and> pendingData f' = pendingData f \<and> pendingUpdate f' = pendingUpdate f"
proof -
  let ?n = "if n > 0x7fffffff then 0x7fffffff else n"
  have n: "uint ?n < 2 ^ 31" by (simp add: u32_less)
  have "uint (maxWindowSize - fl_limit f) = 2147483647 - uint (fl_limit f)"
    using assms(3) by (subst uint_sub_le) (auto simp: maxWindowSize_def)
  then have "uint (maxWindowSize - fl_limit f) < 2147483648" using uint_ge_0[of "fl_limit f"] by linarith
  with n show ?thesis
    using assms(1,2) by (auto simp: maybeAdjust_def Let_def split: if_splits)
qed

lemma fc_step_inv: "fc_step s s' \<Longrightarrow> fc_inv s \<Longrightarrow> fc_inv s'"
proof (induction rule: fc_step.induct)
  case (Send n s)
  then show ?case by (simp add: fc_inv_def)
next
  case (Deliver s n ns e f)
  let ?f = "fs_rcv s"
  have le: "uint (pendingData ?f) + uint (pendingUpdate ?f) + uint n \<le> uint (fl_limit ?f) + uint (fl_delta ?f)"
    using Deliver sum_uint_nonneg[of ns] sum_uint_nonneg[of "fs_credit s"] by (simp add: fc_inv_def)
  have "uint (fl_limit ?f) + uint (fl_delta ?f) < 2 ^ 32" using Deliver by (simp add: fc_inv_def)
  from fl_onData_ok[OF le this] Deliver show ?case by (auto simp: fc_inv_def)
next
  case (Read n s w f)
  let ?f = "fs_rcv s"
  have "uint (pendingData ?f) + uint (pendingUpdate ?f) < 2 ^ 32"
    using Read sum_uint_nonneg[of "fs_data s"] sum_uint_nonneg[of "fs_credit s"] by (simp add: fc_inv_def)
  from fl_onRead_effect[OF Read(1) this Read(2)] Read(3) show ?case by (auto simp: fc_inv_def)
next
  case (Adjust s n w f)
  from maybeAdjust_effect[OF Adjust(2,1)] Adjust(1,3) show ?case by (simp add: fc_inv_def)
next
  case (Limit s n)
  then have u: "uint (n - fl_limit (fs_rcv s)) = uint n - uint (fl_limit (fs_rcv s))" by (simp add: u32_less uint_sub_le)
  have "uint (fl_limit (fs_rcv s)) \<le> uint n" "uint n < 2 ^ 31" using Limit by (auto simp: u32_less maxWindowSize_def)
  moreover from this have "uint (fl_limit (fs_rcv s)) div 4 \<le> uint n div 4" by (simp add: zdiv_mono1)
  ultimately show ?case using Limit(3) u by (auto simp: fc_inv_def fl_newLimit_def)
next
  case (Credit s w ws)
  then show ?case by (simp add: fc_inv_def)
qed

lemma fc_reach_inv: "fc_reach lim s \<Longrightarrow> lim \<le> maxWindowSize \<Longrightarrow> fc_inv s"
proof (induction rule: fc_reach.induct)
  case init
  then show ?case by (simp add: fc_inv_def fc_init_def u32_less maxWindowSize_def)
qed (auto intro: fc_step_inv)

inductive_cases fc_stepE: "fc_step s s'"

subsection \<open>Settling\<close>

text \<open>The steps that are left when the sender sends nothing new and the receiver asks for nothing more.\<close>

inductive fc_settle :: "fcsys \<Rightarrow> fcsys \<Rightarrow> bool" where
  Deliver: "fs_data s = n # ns \<Longrightarrow> fl_onData n (fs_rcv s) = (e, f) \<Longrightarrow>
     fc_settle s (s\<lparr>fs_data := ns, fs_rcv := f, fs_rejected := (fs_rejected s \<or> e \<noteq> None)\<rparr>)"
| Read: "n \<le> pendingData (fs_rcv s) \<Longrightarrow> fl_onRead n (fs_rcv s) = (w, f) \<Longrightarrow>
     fc_settle s (s\<lparr>fs_rcv := f, fs_credit := fs_credit s @ [w]\<rparr>)"
| Credit: "fs_credit s = w # ws \<Longrightarrow>
     fc_settle s (s\<lparr>fs_credit := ws, fs_window := fs_window s + uint w\<rparr>)"

definition settled :: "fcsys \<Rightarrow> bool" where
  "settled s \<longleftrightarrow> fs_data s = [] \<and> fs_credit s = [] \<and> pendingData (fs_rcv s) = 0"

lemma fc_settle_step: "fc_settle s s' \<Longrightarrow> fc_step s s'"
  by (induction rule: fc_settle.induct) (rule fc_step.intros; assumption)+

lemma fc_settle_limit: "fc_settle s s' \<Longrightarrow> fl_limit (fs_rcv s') = fl_limit (fs_rcv s)"
  by (induction rule: fc_settle.induct) (auto simp: fl_onData_def fl_onRead_def Let_def split: if_splits)

lemma settles_inv: "fc_settle\<^sup>*\<^sup>* s s' \<Longrightarrow> fc_inv s \<Longrightarrow> fc_inv s' \<and> fl_limit (fs_rcv s') = fl_limit (fs_rcv s)"
  by (induction rule: rtranclp_induct) (auto dest: fc_settle_step fc_step_inv fc_settle_limit)

lemma deliver_all: "\<exists>s'. fc_settle\<^sup>*\<^sup>* s s' \<and> fs_data s' = []"
proof (induction "fs_data s" arbitrary: s)
  case (Cons n ns)
  obtain e f where "fl_onData n (fs_rcv s) = (e, f)" by fastforce
  then have "fc_settle s (s\<lparr>fs_data := ns, fs_rcv := f, fs_rejected := (fs_rejected s \<or> e \<noteq> None)\<rparr>)" (is "fc_settle s ?u")
    using Cons(2) by (intro fc_settle.Deliver) simp_all
  moreover have "\<exists>s'. fc_settle\<^sup>*\<^sup>* ?u s' \<and> fs_data s' = []" by (rule Cons(1)) simp
  ultimately show ?case by (meson converse_rtranclp_into_rtranclp)
qed auto

lemma read_all: "fs_data s = [] \<Longrightarrow> \<exists>s'. fc_settle\<^sup>*\<^sup>* s s' \<and> fs_data s' = [] \<and> pendingData (fs_rcv s') = 0"
proof -
  assume d: "fs_data s = []"
  obtain w f where r: "fl_onRead (pendingData (fs_rcv s)) (fs_rcv s) = (w, f)" by fastforce
  then have "pendingData f = 0" by (auto simp: fl_onRead_def Let_def split: if_splits)
  moreover have "fc_settle s (s\<lparr>fs_rcv := f, fs_credit := fs_credit s @ [w]\<rparr>)" using r by (intro fc_settle.Read) simp_all
  ultimately show ?thesis using d by (intro exI[of _ "s\<lparr>fs_rcv := f, fs_credit := fs_credit s @ [w]\<rparr>"]) auto
qed

lemma credit_all:
  "fs_data s = [] \<Longrightarrow> pendingData (fs_rcv s) = 0 \<Longrightarrow> \<exists>s'. fc_settle\<^sup>*\<^sup>* s s' \<and> settled s'"
proof (induction "fs_credit s" arbitrary: s)
  case Nil then show ?case by (intro exI[of _ s]) (simp add: settled_def)
next
  case (Cons w ws)
  let ?u = "s\<lparr>fs_credit := ws, fs_window := fs_window s + uint w\<rparr>"
  have "fc_settle s ?u" using Cons(2) by (intro fc_settle.Credit) simp
  moreover have "\<exists>s'. fc_settle\<^sup>*\<^sup>* ?u s' \<and> settled s'" using Cons(3,4) by (intro Cons(1)) simp_all
  ultimately show ?case by (meson converse_rtranclp_into_rtranclp)
qed

lemma can_settle: "\<exists>s'. fc_settle\<^sup>*\<^sup>* s s' \<and> settled s'"
  using deliver_all[of s] read_all credit_all by (meson rtranclp_trans)

lemma settled_window:
  assumes "fc_inv s" "4 \<le> uint (fl_limit (fs_rcv s))" "fc_settle\<^sup>*\<^sup>* s s'" "settled s'"
  shows "uint (fl_limit (fs_rcv s)) - uint (fl_limit (fs_rcv s)) div 4 < fs_window s'"
proof -
  have i: "fc_inv s'" and l: "fl_limit (fs_rcv s') = fl_limit (fs_rcv s)" using settles_inv[OF assms(3,1)] by simp_all
  have "uint (pendingUpdate (fs_rcv s')) < uint (fl_limit (fs_rcv s)) div 4"
    using i assms(2) l by (auto simp: fc_inv_def)
  moreover have "fs_window s' + uint (pendingUpdate (fs_rcv s')) = uint (fl_limit (fs_rcv s)) + uint (fl_delta (fs_rcv s'))"
    using i assms(4) l by (simp add: fc_inv_def settled_def)
  ultimately show ?thesis using uint_ge_0[of "fl_delta (fs_rcv s')"] by linarith
qed

section \<open>The write quota under concurrency\<close>

text \<open>
  Any number of goroutines write, each between two atomic actions of \<^verbatim>\<open>get\<close>: about to load the quota, about to subtract,
  or waiting in the \<^verbatim>\<open>select\<close>. The writer loop gives quota back, and may be between its addition and its send
  (\<open>ws_signal\<close>). \<open>ws_out\<close> is the amount scheduled and not yet given back.
\<close>

datatype wpc = Idle | Loading u32 | Loaded u32 | Waiting u32

record wsys =
  ws_q :: writeQuota
  ws_pcs :: "wpc list"
  ws_signal :: bool
  ws_out :: int

definition at_pc :: "nat \<Rightarrow> wpc \<Rightarrow> wsys \<Rightarrow> bool" where
  "at_pc i p s \<longleftrightarrow> i < length (ws_pcs s) \<and> ws_pcs s ! i = p"

definition goto :: "nat \<Rightarrow> wpc \<Rightarrow> wsys \<Rightarrow> wsys" where
  "goto i p s = s\<lparr>ws_pcs := (ws_pcs s)[i := p]\<rparr>"

inductive w_step :: "wsys \<Rightarrow> wsys \<Rightarrow> bool" where
  Call: "at_pc i Idle s \<Longrightarrow> 0 \<le> sint n \<Longrightarrow> w_step s (goto i (Loading n) s)"
| LoadOk: "at_pc i (Loading n) s \<Longrightarrow> get_load (ws_q s) \<Longrightarrow> w_step s (goto i (Loaded n) s)"
| LoadNo: "at_pc i (Loading n) s \<Longrightarrow> \<not> get_load (ws_q s) \<Longrightarrow> w_step s (goto i (Waiting n) s)"
| Sub: "at_pc i (Loaded n) s \<Longrightarrow>
     w_step s ((goto i Idle s)\<lparr>ws_q := get_sub n (ws_q s), ws_out := ws_out s + sint n\<rparr>)"
| Recv: "at_pc i (Waiting n) s \<Longrightarrow> get_recv (ws_q s) = Some q \<Longrightarrow> w_step s ((goto i (Loading n) s)\<lparr>ws_q := q\<rparr>)"
| Done: "at_pc i (Waiting n) s \<Longrightarrow> w_step s (goto i Idle s)"
| Add: "\<not> ws_signal s \<Longrightarrow> 0 \<le> sint n \<Longrightarrow> sint n \<le> ws_out s \<Longrightarrow> replenish_add n (ws_q s) = (b, q) \<Longrightarrow>
     w_step s (s\<lparr>ws_q := q, ws_signal := b, ws_out := ws_out s - sint n\<rparr>)"
| Signal: "ws_signal s \<Longrightarrow> w_step s (s\<lparr>ws_q := replenish_send (ws_q s), ws_signal := False\<rparr>)"

definition w_init :: "u32 \<Rightarrow> nat \<Rightarrow> wsys" where
  "w_init sz k = \<lparr>ws_q = newWriteQuota sz, ws_pcs = replicate k Idle, ws_signal = False, ws_out = 0\<rparr>"

inductive w_reach :: "u32 \<Rightarrow> nat \<Rightarrow> wsys \<Rightarrow> bool" for sz k where
  init: "w_reach sz k (w_init sz k)"
| step: "w_reach sz k s \<Longrightarrow> w_step s s' \<Longrightarrow> w_reach sz k s'"

text \<open>With one writer.\<close>

fun pc_ok :: "wpc \<Rightarrow> wsys \<Rightarrow> bool" where
  "pc_ok Idle s \<longleftrightarrow> True"
| "pc_ok (Loading n) s \<longleftrightarrow> 0 \<le> sint n"
| "pc_ok (Loaded n) s \<longleftrightarrow> 0 \<le> sint n \<and> 0 < sint (wq_quota (ws_q s))"
| "pc_ok (Waiting n) s \<longleftrightarrow> 0 \<le> sint n \<and> (0 < sint (wq_quota (ws_q s)) \<longrightarrow> wq_token (ws_q s) \<or> ws_signal s)"

definition w_inv :: "u32 \<Rightarrow> wsys \<Rightarrow> bool" where
  "w_inv sz s \<longleftrightarrow> sint (wq_quota (ws_q s)) = sint sz - ws_out s \<and> 0 \<le> ws_out s \<and> (\<exists>p. ws_pcs s = [p] \<and> pc_ok p s)"

lemma w_inv_at: "w_inv sz s \<Longrightarrow> at_pc i q s \<Longrightarrow> i = 0 \<and> ws_pcs s = [q] \<and> pc_ok q s"
  by (auto simp: w_inv_def at_pc_def)

lemma sint_add_small:
  "- (2 ^ 31) \<le> sint a + sint b \<Longrightarrow> sint a + sint b < 2 ^ 31 \<Longrightarrow> sint (a + b) = sint a + sint (b :: u32)"
  by (simp add: signed_eq_0_iff sint_word_ariths signed_take_bit_int_eq_self)

lemma sint_sub_small:
  "- (2 ^ 31) \<le> sint a - sint b \<Longrightarrow> sint a - sint b < 2 ^ 31 \<Longrightarrow> sint (a - b) = sint a - sint (b :: u32)"
  by (simp add: sint_word_ariths signed_take_bit_int_eq_self)

lemma sint_range: "- (2 ^ 31) \<le> sint (a :: u32)" "sint (a :: u32) < 2 ^ 31"
  using sint_ge[of a] sint_lt[of a] by simp_all

lemmas w_defs = w_inv_def goto_def get_load_def get_recv_def get_sub_def replenish_send_def word_sless_alt word_sle_eq

lemma w_step_inv: "w_step s s' \<Longrightarrow> w_inv sz s \<Longrightarrow> w_inv sz s'"
proof (induction rule: w_step.induct)
  case (Sub i n s)
  let ?q = "wq_quota (ws_q s)"
  have q: "0 < sint ?q" "0 \<le> sint n" "i = 0" "ws_pcs s = [Loaded n]" using w_inv_at[OF Sub(2,1)] by simp_all
  have "sint (?q - n) = sint ?q - sint n"
    by (rule sint_sub_small) (use q sint_range[of n] sint_range[of ?q] in linarith)+
  with Sub q show ?case by (simp add: w_defs)
next
  case (Add s n b q)
  let ?q = "wq_quota (ws_q s)"
  have e: "sint ?q = sint sz - ws_out s" using Add by (simp add: w_inv_def)
  have a: "sint (?q + n) = sint ?q + sint n"
    by (rule sint_add_small) (use e Add(2,3) sint_range[of sz] sint_range[of ?q] in linarith)+
  obtain p where p: "ws_pcs s = [p]" "pc_ok p s" using Add(5) by (auto simp: w_inv_def)
  show ?case using Add(1-4) e a p by (cases p) (auto simp: replenish_add_def w_defs Let_def)
next
  case (Recv i n s q)
  show ?case using Recv(2,3) w_inv_at[OF Recv(3,1)] by (auto simp: w_defs split: if_splits)
next
  case (Done i n s)
  show ?case using Done(2) w_inv_at[OF Done(2,1)] by (simp add: w_defs)
qed (frule (1) w_inv_at, simp add: w_defs split: if_splits; fail | auto simp: w_defs elim: pc_ok.elims)+

lemma w_reach_inv: "w_reach sz k s \<Longrightarrow> k = 1 \<Longrightarrow> w_inv sz s"
proof (induction rule: w_reach.induct)
  case init
  then show ?case by (simp add: w_inv_def w_init_def newWriteQuota_def)
qed (auto intro: w_step_inv)

text \<open>A run given by its steps.\<close>

datatype w_act = ACall nat u32 | ALoad nat | ASub nat | ARecv nat | AAdd u32 | ASignal

fun w_do :: "w_act \<Rightarrow> wsys \<Rightarrow> wsys option" where
  "w_do (ACall i n) s = (if at_pc i Idle s \<and> 0 \<le> sint n then Some (goto i (Loading n) s) else None)"
| "w_do (ALoad i) s =
     (if i < length (ws_pcs s) then
        (case ws_pcs s ! i of
           Loading n \<Rightarrow> Some (goto i (if get_load (ws_q s) then Loaded n else Waiting n) s)
         | _ \<Rightarrow> None)
      else None)"
| "w_do (ASub i) s =
     (if i < length (ws_pcs s) then
        (case ws_pcs s ! i of
           Loaded n \<Rightarrow> Some ((goto i Idle s)\<lparr>ws_q := get_sub n (ws_q s), ws_out := ws_out s + sint n\<rparr>)
         | _ \<Rightarrow> None)
      else None)"
| "w_do (ARecv i) s =
     (if i < length (ws_pcs s) then
        (case (ws_pcs s ! i, get_recv (ws_q s)) of
           (Waiting n, Some q) \<Rightarrow> Some ((goto i (Loading n) s)\<lparr>ws_q := q\<rparr>)
         | _ \<Rightarrow> None)
      else None)"
| "w_do (AAdd n) s =
     (if \<not> ws_signal s \<and> 0 \<le> sint n \<and> sint n \<le> ws_out s then
        (case replenish_add n (ws_q s) of (b, q) \<Rightarrow> Some (s\<lparr>ws_q := q, ws_signal := b, ws_out := ws_out s - sint n\<rparr>))
      else None)"
| "w_do ASignal s = (if ws_signal s then Some (s\<lparr>ws_q := replenish_send (ws_q s), ws_signal := False\<rparr>) else None)"

fun w_run :: "w_act list \<Rightarrow> wsys \<Rightarrow> wsys option" where
  "w_run [] s = Some s"
| "w_run (x # xs) s = (case w_do x s of Some s' \<Rightarrow> w_run xs s' | None \<Rightarrow> None)"

lemma w_do_step: "w_do x s = Some s' \<Longrightarrow> w_step s s'"
  by (cases x) (auto split: if_splits wpc.splits option.splits prod.splits intro: w_step.intros simp: at_pc_def)

lemma w_run_reach: "w_reach sz k s \<Longrightarrow> w_run xs s = Some s' \<Longrightarrow> w_reach sz k s'"
proof (induction xs arbitrary: s)
  case (Cons x xs)
  then obtain u where u: "w_do x s = Some u" "w_run xs u = Some s'" by (auto split: option.splits)
  then have "w_reach sz k u" using Cons.prems(1) w_do_step by (blast intro: w_reach.step)
  then show ?case using Cons.IH u(2) by blast
qed simp

text \<open>A waiting writer with quota and a token, or a token about to come, can go on.\<close>

lemma recv_wakes:
  assumes "ws_pcs s = [Waiting n]" "get_load (ws_q s)" "wq_token (ws_q s)"
  shows "\<exists>s'. w_step\<^sup>*\<^sup>* s s' \<and> ws_pcs s' = [Loaded n]"
proof -
  let ?u = "(goto 0 (Loading n) s)\<lparr>ws_q := (ws_q s)\<lparr>wq_token := False\<rparr>\<rparr>"
  have "w_step s ?u" using assms by (intro w_step.Recv) (simp_all add: at_pc_def get_recv_def)
  moreover have "w_step ?u (goto 0 (Loaded n) ?u)"
    using assms by (intro w_step.LoadOk) (simp_all add: at_pc_def goto_def get_load_def)
  moreover have "ws_pcs (goto 0 (Loaded n) ?u) = [Loaded n]" using assms by (simp add: goto_def)
  ultimately show ?thesis by (meson converse_rtranclp_into_rtranclp rtranclp.rtrancl_refl)
qed

lemma wakes:
  assumes "ws_pcs s = [Waiting n]" "get_load (ws_q s)" "wq_token (ws_q s) \<or> ws_signal s"
  shows "\<exists>s'. w_step\<^sup>*\<^sup>* s s' \<and> ws_pcs s' = [Loaded n]"
proof (cases "ws_signal s")
  case True
  let ?u = "s\<lparr>ws_q := replenish_send (ws_q s), ws_signal := False\<rparr>"
  have "\<exists>s'. w_step\<^sup>*\<^sup>* ?u s' \<and> ws_pcs s' = [Loaded n]"
    using assms by (intro recv_wakes) (simp_all add: replenish_send_def get_load_def)
  then show ?thesis using w_step.Signal[OF True] by (meson converse_rtranclp_into_rtranclp)
qed (use assms recv_wakes in blast)

text \<open>
  Two writers on one stream, which \<^verbatim>\<open>SendMsg\<close> does not allow, can lose a wake-up: the token wakes one of them, quota is left,
  and nothing wakes the other.
\<close>

lemma two_writers_lose_wakeup:
  "\<exists>s. w_reach 10 2 s \<and> ws_pcs s = [Idle, Waiting 7] \<and> sint (wq_quota (ws_q s)) = 5 \<and> get_recv (ws_q s) = None \<and> \<not> ws_signal s"
proof -
  let ?xs = "[ACall 0 20, ALoad 0, ASub 0, ACall 0 5, ALoad 0, ACall 1 7, ALoad 1, AAdd 20, ASignal, ARecv 0, ALoad 0, ASub 0]"
  have "case w_run ?xs (w_init 10 2) of
      Some s \<Rightarrow> ws_pcs s = [Idle, Waiting 7] \<and> sint (wq_quota (ws_q s)) = 5 \<and> get_recv (ws_q s) = None \<and> \<not> ws_signal s
    | None \<Rightarrow> False" by code_simp
  then obtain s where "w_run ?xs (w_init 10 2) = Some s" "ws_pcs s = [Idle, Waiting 7]" "sint (wq_quota (ws_q s)) = 5"
      "get_recv (ws_q s) = None" "\<not> ws_signal s" by (auto simp del: w_run.simps split: option.splits)
  then show ?thesis using w_run_reach[OF w_reach.init] by blast
qed

section \<open>The estimator\<close>

lemma calculate_bounded:
  assumes "bdp b \<le> bdpLimit" "calculate F secs now d b = (r, b')"
  shows "bdp b' \<le> bdpLimit \<and> (\<forall>n. r = Some n \<longrightarrow> n = bdp b' \<and> n \<le> bdpLimit)"
  using assms by (auto simp: calculate_def Let_def not_less split: if_splits)

lemma one_ping_at_a_time: "isSent b \<Longrightarrow> \<not> fst (bdp_add now z n b)"
  by (auto simp: bdp_add_def)

section \<open>Properties\<close>

text \<open>C14. Flow-control soundness: a sender that respects the windows it was granted is never rejected by the receiving
  stream, however DATA frames, reads, limit increases and window updates interleave on the network, and the
  credit is conserved: what the sender may send, what is in flight and what the receiver holds add up to the
  receiver's limit plus the extra window.\<close>

theorem conforming_sender_never_rejected:
  assumes "fc_reach lim s" and "lim \<le> maxWindowSize"
  shows "\<not> fs_rejected s
     \<and> fs_window s + sum_list (map uint (fs_data s)) + sum_list (map uint (fs_credit s))
         + uint (pendingData (fs_rcv s)) + uint (pendingUpdate (fs_rcv s))
       = uint (fl_limit (fs_rcv s)) + uint (fl_delta (fs_rcv s))"
  using fc_reach_inv[OF assms] by (simp add: fc_inv_def)

theorem conforming_sender_never_rejected_witness:
  "\<exists>s. fc_reach 100 s \<and> pendingData (fs_rcv s) = 60 \<and> \<not> fs_rejected s"
proof -
  let ?s1 = "(fc_init 100)\<lparr>fs_window := 40, fs_data := [60]\<rparr>"
  let ?s2 = "?s1\<lparr>fs_data := [], fs_rcv := (fs_rcv ?s1)\<lparr>pendingData := 60\<rparr>, fs_rejected := False\<rparr>"
  have "fc_step (fc_init 100) ?s1" using fc_step.Send[of 60 "fc_init 100"] by (simp add: fc_init_def)
  moreover have "fc_step ?s1 ?s2"
    using fc_step.Deliver[of ?s1 60 "[]" None "(fs_rcv ?s1)\<lparr>pendingData := 60\<rparr>"]
    by (simp add: fc_init_def fl_onData_def)
  ultimately have r: "fc_reach 100 ?s2" by (meson fc_reach.intros)
  from conforming_sender_never_rejected[OF r] show ?thesis
    using r by (intro exI[of _ ?s2]) (simp add: maxWindowSize_def)
qed

text \<open>C24. The window never starves. From any reachable state, and with nothing new sent, there is a way on - the frames in
  flight arrive, the application reads what arrived, the window updates reach the sender - to a state where nothing is in
  flight and nothing unread; and in every such state the sender has more than three quarters of the stream's limit
  available again.\<close>

theorem window_recovers:
  assumes "fc_reach lim s" and "lim \<le> maxWindowSize" and "4 \<le> uint (fl_limit (fs_rcv s))"
  shows "(\<exists>s'. fc_settle\<^sup>*\<^sup>* s s' \<and> settled s')
    \<and> (\<forall>s'. fc_settle\<^sup>*\<^sup>* s s' \<and> settled s' \<longrightarrow>
         uint (fl_limit (fs_rcv s)) - uint (fl_limit (fs_rcv s)) div 4 < fs_window s')"
  using can_settle settled_window[OF fc_reach_inv[OF assms(1,2)] assms(3)] by blast

theorem window_recovers_witness:
  "\<exists>s s'. fc_reach 100 s \<and> fs_window s = 10 \<and> fs_data s = [90] \<and> fc_settle\<^sup>*\<^sup>* s s' \<and> settled s' \<and> 75 < fs_window s'"
proof -
  let ?s = "(fc_init 100)\<lparr>fs_window := 10, fs_data := [90]\<rparr>"
  have "fc_step (fc_init 100) ?s" using fc_step.Send[of 90 "fc_init 100"] by (simp add: fc_init_def)
  then have r: "fc_reach 100 ?s" by (rule fc_reach.step[OF fc_reach.init])
  have l: "uint (fl_limit (fs_rcv ?s)) = 100" by (simp add: fc_init_def)
  have "(\<exists>s'. fc_settle\<^sup>*\<^sup>* ?s s' \<and> settled s') \<and> (\<forall>s'. fc_settle\<^sup>*\<^sup>* ?s s' \<and> settled s' \<longrightarrow> 75 < fs_window s')"
    using window_recovers[OF r, unfolded l] by (simp add: maxWindowSize_def)
  then obtain s' where s': "fc_settle\<^sup>*\<^sup>* ?s s'" "settled s'" "75 < fs_window s'" by blast
  show ?thesis by (intro exI[of _ ?s] exI[of _ s'] conjI r s') simp_all
qed

text \<open>C26. No lost wake-up on the write quota, for the one goroutine that writes a stream (\<^verbatim>\<open>SendMsg\<close> is documented not to be
  safe for more) and the writer loop that gives quota back, interleaved at their atomic actions: the quota is its size
  minus what is outstanding, and whenever the goroutine waits although quota is available, the token is in the channel or
  about to be sent, and the steps that remain - the send, the receive, the load - let it go on.\<close>

theorem write_quota_no_lost_wakeup:
  assumes "w_reach sz 1 s"
  shows "sint (wq_quota (ws_q s)) = sint sz - ws_out s
     \<and> (\<forall>n. ws_pcs s = [Waiting n] \<and> get_load (ws_q s) \<longrightarrow>
          (get_recv (ws_q s) \<noteq> None \<or> ws_signal s) \<and> (\<exists>s'. w_step\<^sup>*\<^sup>* s s' \<and> ws_pcs s' = [Loaded n]))"
  using w_reach_inv[OF assms refl] wakes[of s] by (auto simp: w_inv_def get_load_def get_recv_def word_sless_alt)

theorem write_quota_no_lost_wakeup_witness:
  "\<exists>s s'. w_reach 10 1 s \<and> ws_pcs s = [Waiting 5] \<and> sint (wq_quota (ws_q s)) = 10 \<and> w_step\<^sup>*\<^sup>* s s' \<and> ws_pcs s' = [Loaded 5]"
proof -
  let ?xs = "[ACall 0 20, ALoad 0, ASub 0, ACall 0 5, ALoad 0, AAdd 20]"
  have "case w_run ?xs (w_init 10 1) of
      Some s \<Rightarrow> ws_pcs s = [Waiting 5] \<and> sint (wq_quota (ws_q s)) = 10 \<and> get_load (ws_q s) | None \<Rightarrow> False" by code_simp
  then obtain s where s: "w_run ?xs (w_init 10 1) = Some s" "ws_pcs s = [Waiting 5]" "sint (wq_quota (ws_q s)) = 10" "get_load (ws_q s)"
    by (auto simp del: w_run.simps split: option.splits)
  then have r: "w_reach 10 1 s" by (blast intro: w_run_reach w_reach.init)
  from write_quota_no_lost_wakeup[OF r] s r show ?thesis by blast
qed

end
