(* ===== verification/ControlBuf.thy ===== *)
theory ControlBuf
  imports FlowControl
begin

text \<open>
  The item list and the control buffer of \<^verbatim>\<open>pkg/remote/trans/nphttp2/grpc/controlbuf.go\<close>. The item list is a
  singly linked list with a free list of recycled nodes; it is modelled with an explicit heap of nodes and
  shown to be a FIFO queue. The control buffer adds the count of queued response frames and the throttling
  channel derived from it.
\<close>

section \<open>The contract of a FIFO queue\<close>

text \<open>\<open>R s q\<close>: the state \<open>s\<close> holds the elements \<open>q\<close>, oldest first. Dequeuing an empty queue gives \<open>None\<close>.\<close>

locale fifo =
  fixes R :: "'s \<Rightarrow> 'a list \<Rightarrow> bool" and new :: 's and enq :: "'a \<Rightarrow> 's \<Rightarrow> 's"
    and deq :: "'s \<Rightarrow> 'a option \<times> 's" and is_empty :: "'s \<Rightarrow> bool"
  assumes R_new: "R new []"
    and R_enq: "R s q \<Longrightarrow> R (enq x s) (q @ [x])"
    and R_deq_Nil: "R s [] \<Longrightarrow> deq s = (None, s)"
    and R_deq_Cons: "R s (x # q) \<Longrightarrow> \<exists>s'. deq s = (Some x, s') \<and> R s' q"
    and R_empty: "R s q \<Longrightarrow> is_empty s \<longleftrightarrow> q = []"

datatype 'a qop = Enq 'a | Deq

fun run_qops :: "('a \<Rightarrow> 's \<Rightarrow> 's) \<Rightarrow> ('s \<Rightarrow> 'a option \<times> 's) \<Rightarrow> 'a qop list \<Rightarrow> 's \<Rightarrow> 'a option list \<times> 's" where
  "run_qops enq deq [] s = ([], s)"
| "run_qops enq deq (Enq x # ops) s = run_qops enq deq ops (enq x s)"
| "run_qops enq deq (Deq # ops) s =
     (let (r, s') = deq s; (rs, s'') = run_qops enq deq ops s' in (r # rs, s''))"

definition list_deq :: "'a list \<Rightarrow> 'a option \<times> 'a list" where
  "list_deq q = (case q of [] \<Rightarrow> (None, []) | x # xs \<Rightarrow> (Some x, xs))"

context fifo
begin

lemma deq_cases:
  assumes "R s q"
  shows "\<exists>s'. deq s = (fst (list_deq q), s') \<and> R s' (snd (list_deq q))"
  using assms R_deq_Nil R_deq_Cons by (cases q) (auto simp: list_deq_def)

lemma run_refines:
  "R s q \<Longrightarrow> \<exists>s'. run_qops enq deq ops s = (fst (run_qops (\<lambda>x q. q @ [x]) list_deq ops q), s')
     \<and> R s' (snd (run_qops (\<lambda>x q. q @ [x]) list_deq ops q))"
proof (induction ops arbitrary: s q)
  case (Cons op ops)
  show ?case
  proof (cases op)
    case (Enq x)
    then show ?thesis using Cons.IH[OF R_enq[OF Cons.prems, of x]] by auto
  next
    case Deq
    obtain s1 where s1: "deq s = (fst (list_deq q), s1)" "R s1 (snd (list_deq q))"
      using deq_cases[OF Cons.prems] by blast
    then show ?thesis using Cons.IH[OF s1(2)] Deq by (auto simp: split_beta Let_def)
  qed
qed auto

end

section \<open>The item list\<close>

record 'a itemNode =
  nd_it :: "'a option"
  nd_next :: "nat option"

text \<open>Nodes live in a heap; \<open>il_fresh\<close> is the first address never allocated.\<close>

record 'a itemList =
  il_heap :: "nat \<Rightarrow> 'a itemNode"
  il_fresh :: nat
  il_head :: "nat option"
  il_tail :: "nat option"
  il_free :: "nat option"
  il_nfree :: nat

definition maxFreeItemNodes :: nat where "maxFreeItemNodes = 100"

definition newItemList :: "'a itemList" where
  "newItemList = \<lparr>il_heap = (\<lambda>_. \<lparr>nd_it = None, nd_next = None\<rparr>), il_fresh = 0, il_head = None, il_tail = None,
     il_free = None, il_nfree = 0\<rparr>"

text \<open>Taking a node: the first free one, or a new one.\<close>

definition alloc_node :: "'a \<Rightarrow> 'a itemList \<Rightarrow> nat \<times> 'a itemList" where
  "alloc_node i il =
     (case il_free il of
        Some n \<Rightarrow>
          (n, il\<lparr>il_free := nd_next (il_heap il n), il_heap := (il_heap il)(n := \<lparr>nd_it = Some i, nd_next = None\<rparr>),
                il_nfree := il_nfree il - 1\<rparr>)
      | None \<Rightarrow>
          (il_fresh il, il\<lparr>il_heap := (il_heap il)(il_fresh il := \<lparr>nd_it = Some i, nd_next = None\<rparr>),
                il_fresh := il_fresh il + 1\<rparr>))"

definition enqueue :: "'a \<Rightarrow> 'a itemList \<Rightarrow> 'a itemList" where
  "enqueue i il =
     (case alloc_node i il of (n, il) \<Rightarrow>
        (case il_tail il of
           None \<Rightarrow> il\<lparr>il_head := Some n, il_tail := Some n\<rparr>
         | Some t \<Rightarrow> il\<lparr>il_heap := (il_heap il)(t := (il_heap il t)\<lparr>nd_next := Some n\<rparr>), il_tail := Some n\<rparr>))"

text \<open>\<open>peek\<close> on an empty list dereferences nil: \<open>None\<close>.\<close>

definition peek :: "'a itemList \<Rightarrow> 'a option" where
  "peek il = (case il_head il of None \<Rightarrow> None | Some h \<Rightarrow> nd_it (il_heap il h))"

definition dequeue :: "'a itemList \<Rightarrow> 'a option \<times> 'a itemList" where
  "dequeue il =
     (case il_head il of
        None \<Rightarrow> (None, il)
      | Some unused \<Rightarrow>
          let i = nd_it (il_heap il unused);
              il = il\<lparr>il_heap := (il_heap il)(unused := (il_heap il unused)\<lparr>nd_it := None\<rparr>)\<rparr>;
              il = il\<lparr>il_head := nd_next (il_heap il unused)\<rparr>;
              il = (if il_head il = None then il\<lparr>il_tail := None\<rparr> else il);
              il = (if il_nfree il < maxFreeItemNodes
                    then il\<lparr>il_heap := (il_heap il)(unused := (il_heap il unused)\<lparr>nd_next := il_free il\<rparr>),
                           il_free := Some unused, il_nfree := il_nfree il + 1\<rparr>
                    else il)
          in (i, il))"

definition dequeueAll :: "'a itemList \<Rightarrow> nat option \<times> 'a itemList" where
  "dequeueAll il = (il_head il, il\<lparr>il_head := None, il_tail := None\<rparr>)"

definition isEmpty :: "'a itemList \<Rightarrow> bool" where
  "isEmpty il \<longleftrightarrow> il_head il = None"

text \<open>Following \<^verbatim>\<open>next\<close> pointers, as the loop over the result of \<^verbatim>\<open>dequeueAll\<close> does, for at most \<open>n\<close> nodes.\<close>

fun walk :: "nat \<Rightarrow> (nat \<Rightarrow> 'a itemNode) \<Rightarrow> nat option \<Rightarrow> 'a option list" where
  "walk n h None = []"
| "walk 0 h (Some a) = []"
| "walk (Suc n) h (Some a) = nd_it (h a) # walk n h (nd_next (h a))"

section \<open>The item list is a queue\<close>

fun path :: "(nat \<Rightarrow> 'a itemNode) \<Rightarrow> nat option \<Rightarrow> nat list \<Rightarrow> bool" where
  "path h p [] \<longleftrightarrow> p = None"
| "path h p (a # as) \<longleftrightarrow> p = Some a \<and> path h (nd_next (h a)) as"

definition il_rep :: "'a itemList \<Rightarrow> nat list \<Rightarrow> nat list \<Rightarrow> 'a list \<Rightarrow> bool" where
  "il_rep il as fs q \<longleftrightarrow> path (il_heap il) (il_head il) as \<and> path (il_heap il) (il_free il) fs
     \<and> distinct (as @ fs) \<and> (\<forall>a\<in>set (as @ fs). a < il_fresh il)
     \<and> il_tail il = (if as = [] then None else Some (last as))
     \<and> length fs = il_nfree il \<and> il_nfree il \<le> maxFreeItemNodes
     \<and> map (\<lambda>a. nd_it (il_heap il a)) as = map Some q"

definition il_R :: "'a itemList \<Rightarrow> 'a list \<Rightarrow> bool" where
  "il_R il q \<longleftrightarrow> (\<exists>as fs. il_rep il as fs q)"

lemma path_cong: "path h p as \<Longrightarrow> (\<And>a. a \<in> set as \<Longrightarrow> nd_next (h' a) = nd_next (h a)) \<Longrightarrow> path h' p as"
  by (induction as arbitrary: p) auto

lemma path_upd_other: "a \<notin> set as \<Longrightarrow> path (h(a := n)) p as = path h p as"
  by (induction as arbitrary: p) auto

lemma path_snoc:
  "path h p as \<Longrightarrow> as \<noteq> [] \<Longrightarrow> distinct as \<Longrightarrow> a \<notin> set as \<Longrightarrow> nd_next (h a) = None \<Longrightarrow>
   path (h(last as := (h (last as))\<lparr>nd_next := Some a\<rparr>)) p (as @ [a])"
proof (induction as arbitrary: p)
  case (Cons x as)
  show ?case
  proof (cases "as = []")
    case True
    with Cons show ?thesis by simp
  next
    case False
    have "path (h(last as := (h (last as))\<lparr>nd_next := Some a\<rparr>)) (nd_next (h x)) (as @ [a])"
      by (rule Cons.IH) (use Cons.prems False in auto)
    moreover have "x \<noteq> last as" using Cons.prems(3) False by auto
    ultimately show ?thesis using Cons.prems(1) False by (simp add: fun_upd_def)
  qed
qed simp

lemma map_upd_other: "a \<notin> set as \<Longrightarrow> map (\<lambda>b. g ((h(a := x)) b)) as = map (\<lambda>b. g (h b)) as"
  by (induction as) auto

lemma alloc_node_rep:
  assumes "il_rep il as fs q" "alloc_node i il = (n, il')"
  shows "\<exists>fs'. path (il_heap il') (il_head il') as \<and> path (il_heap il') (il_free il') fs'
     \<and> distinct (as @ [n] @ fs') \<and> (\<forall>a\<in>set (as @ [n] @ fs'). a < il_fresh il')
     \<and> il_tail il' = il_tail il \<and> il_head il' = il_head il \<and> length fs' = il_nfree il' \<and> il_nfree il' \<le> maxFreeItemNodes
     \<and> map (\<lambda>a. nd_it (il_heap il' a)) as = map Some q \<and> il_heap il' n = \<lparr>nd_it = Some i, nd_next = None\<rparr>"
proof (cases "il_free il")
  case None
  with assms have fs: "fs = []" by (cases fs) (auto simp: il_rep_def)
  have fresh: "il_fresh il \<notin> set as" using assms(1) by (auto simp: il_rep_def)
  then have "map (\<lambda>a. nd_it (((il_heap il)(il_fresh il := x)) a)) as = map Some q" for x
    using assms(1) map_upd_other[OF fresh, of nd_it "il_heap il" x] by (simp only: il_rep_def)
  with None assms fs fresh show ?thesis
    by (intro exI[of _ "[]"]) (auto simp: il_rep_def alloc_node_def path_upd_other less_Suc_eq)
next
  case (Some f)
  with assms obtain fs' where fs: "fs = f # fs'" by (cases fs) (auto simp: il_rep_def)
  have f: "f \<notin> set as" "f \<notin> set fs'" using assms(1) fs by (auto simp: il_rep_def)
  then have "map (\<lambda>a. nd_it (((il_heap il)(f := x)) a)) as = map Some q" for x
    using assms(1) map_upd_other[OF f(1), of nd_it "il_heap il" x] by (simp only: il_rep_def)
  with Some assms fs f show ?thesis
    by (intro exI[of _ fs']) (auto simp: il_rep_def alloc_node_def path_upd_other)
qed

lemma il_R_enqueue:
  assumes "il_R il q"
  shows "il_R (enqueue i il) (q @ [i])"
proof -
  obtain as fs where rep: "il_rep il as fs q" using assms by (auto simp: il_R_def)
  obtain n il' where al: "alloc_node i il = (n, il')" by (cases "alloc_node i il")
  obtain fs' where a: "path (il_heap il') (il_head il') as" "path (il_heap il') (il_free il') fs'"
     "distinct (as @ [n] @ fs')" "\<forall>a\<in>set (as @ [n] @ fs'). a < il_fresh il'"
     "il_tail il' = il_tail il" "il_head il' = il_head il" "length fs' = il_nfree il'" "il_nfree il' \<le> maxFreeItemNodes"
     "map (\<lambda>a. nd_it (il_heap il' a)) as = map Some q" "il_heap il' n = \<lparr>nd_it = Some i, nd_next = None\<rparr>"
    using alloc_node_rep[OF rep al] by blast
  have tl: "il_tail il = (if as = [] then None else Some (last as))" using rep by (simp add: il_rep_def)
  have "il_rep (enqueue i il) (as @ [n]) fs' (q @ [i])"
  proof (cases "as = []")
    case True
    with a tl al show ?thesis by (auto simp: il_rep_def enqueue_def)
  next
    case False
    let ?h = "(il_heap il')(last as := (il_heap il' (last as))\<lparr>nd_next := Some n\<rparr>)"
    have nq: "last as \<notin> set fs'" "last as \<noteq> n" using a(3) last_in_set[OF False] by auto
    have "path ?h (il_head il') (as @ [n])" using a False by (intro path_snoc) auto
    moreover have "path ?h (il_free il') fs'" using a(2) nq(1) by (simp add: path_upd_other)
    moreover have "map (\<lambda>a. nd_it (?h a)) (as @ [n]) = map Some (q @ [i])"
    proof -
      have "nd_it (?h a) = nd_it (il_heap il' a)" for a by simp
      then show ?thesis using a(9,10) by simp
    qed
    ultimately show ?thesis using a tl al False by (simp add: il_rep_def enqueue_def)
  qed
  then show ?thesis by (auto simp: il_R_def)
qed

lemma il_R_dequeue_Nil: "il_R il [] \<Longrightarrow> dequeue il = (None, il)"
  by (auto simp: il_R_def il_rep_def dequeue_def)

lemma il_R_dequeue_Cons:
  assumes "il_R il (x # q)"
  shows "\<exists>il'. dequeue il = (Some x, il') \<and> il_R il' q"
proof -
  obtain as0 fs where rep0: "il_rep il as0 fs (x # q)" using assms by (auto simp: il_R_def)
  then obtain a as where as0: "as0 = a # as" by (cases as0) (auto simp: il_rep_def)
  note rep = rep0[unfolded as0]
  have hd: "il_head il = Some a" "nd_it (il_heap il a) = Some x" "path (il_heap il) (nd_next (il_heap il a)) as"
    "path (il_heap il) (il_free il) fs" "a \<notin> set as" "a \<notin> set fs" "distinct (as @ fs)"
    "\<forall>b\<in>set (a # as @ fs). b < il_fresh il" "length fs = il_nfree il" "il_nfree il \<le> maxFreeItemNodes"
    "map (\<lambda>a. nd_it (il_heap il a)) as = map Some q" "il_tail il = Some (last (a # as))"
    using rep by (auto simp: il_rep_def)
  have nx: "nd_next (il_heap il a) = None \<longleftrightarrow> as = []" using hd(3) by (cases as) auto
  have m: "map (\<lambda>b. nd_it (((il_heap il)(a := y)) b)) as = map Some q" for y
    using map_upd_other[OF hd(5), of nd_it "il_heap il" y] hd(11) by simp
  define tl where "tl = (if as = [] then None else il_tail il)"
  show ?thesis
  proof (cases "il_nfree il < maxFreeItemNodes")
    case True
    let ?h = "(il_heap il)(a := (il_heap il a)\<lparr>nd_it := None, nd_next := il_free il\<rparr>)"
    let ?il = "il\<lparr>il_heap := ?h, il_head := nd_next (il_heap il a), il_tail := tl, il_free := Some a, il_nfree := Suc (il_nfree il)\<rparr>"
    have "dequeue il = (Some x, ?il)" using hd nx True
      by (intro prod_eqI itemList.equality) (simp_all add: dequeue_def Let_def tl_def)
    moreover have "il_rep ?il as (a # fs) q"
      unfolding il_rep_def using hd m True by (simp add: path_upd_other tl_def)
    ultimately show ?thesis by (auto simp: il_R_def)
  next
    case False
    let ?h = "(il_heap il)(a := (il_heap il a)\<lparr>nd_it := None\<rparr>)"
    let ?il = "il\<lparr>il_heap := ?h, il_head := nd_next (il_heap il a), il_tail := tl\<rparr>"
    have "dequeue il = (Some x, ?il)" using hd nx False
      by (intro prod_eqI itemList.equality) (simp_all add: dequeue_def Let_def tl_def)
    moreover have "il_rep ?il as fs q"
      unfolding il_rep_def using hd m False by (simp add: path_upd_other tl_def)
    ultimately show ?thesis by (auto simp: il_R_def)
  qed
qed

lemma il_R_isEmpty: "il_R il q \<Longrightarrow> isEmpty il \<longleftrightarrow> q = []"
proof -
  assume "il_R il q"
  then obtain as fs where "il_rep il as fs q" by (auto simp: il_R_def)
  then show ?thesis by (cases as) (auto simp: il_rep_def isEmpty_def)
qed

interpretation ilq: fifo il_R newItemList enqueue dequeue isEmpty
proof unfold_locales
  show "il_R newItemList []"
    by (auto simp: il_R_def il_rep_def newItemList_def intro!: exI[of _ "[]"])
qed (simp_all add: il_R_enqueue il_R_dequeue_Nil il_R_dequeue_Cons il_R_isEmpty)

lemma il_R_peek: "il_R il q \<Longrightarrow> peek il = (case q of [] \<Rightarrow> None | x # _ \<Rightarrow> Some x)"
proof -
  assume "il_R il q"
  then obtain as fs where "il_rep il as fs q" by (auto simp: il_R_def)
  then show ?thesis by (cases as; cases q) (auto simp: il_rep_def peek_def)
qed

lemma walk_path: "path h p as \<Longrightarrow> length as \<le> n \<Longrightarrow> walk n h p = map (\<lambda>a. nd_it (h a)) as"
proof (induction as arbitrary: n p)
  case (Cons a as)
  then show ?case by (cases n) auto
qed simp

lemma il_R_dequeueAll:
  assumes "il_R il q"
  shows "\<exists>h il'. dequeueAll il = (h, il') \<and> il_R il' [] \<and> (\<forall>n \<ge> il_fresh il. walk n (il_heap il') h = map Some q)"
proof -
  obtain as fs where rep: "il_rep il as fs q" using assms by (auto simp: il_R_def)
  have "il_rep (snd (dequeueAll il)) [] fs []" using rep by (auto simp: il_rep_def dequeueAll_def)
  moreover have "length as \<le> il_fresh il"
  proof -
    have "set as \<subseteq> {0..<il_fresh il}" "distinct as" using rep by (auto simp: il_rep_def)
    then show ?thesis using card_mono[of "{0..<il_fresh il}" "set as"] by (simp add: distinct_card)
  qed
  ultimately show ?thesis
    using rep walk_path[of "il_heap il" "il_head il" as] by (auto simp: il_R_def dequeueAll_def il_rep_def)
qed

section \<open>Control items\<close>

record cleanupStream =
  cs_streamID :: u32
  cs_rst :: bool
  cs_rstCode :: u32

text \<open>The answer of the client's \<^verbatim>\<open>initStream\<close> callback: no error, \<^verbatim>\<open>ErrConnClosing\<close>, or another error.\<close>

datatype init_answer = InitOk | InitConnClosing | InitOther

record headerFrame =
  hf_streamID :: u32
  hf_hf :: "(gostring \<times> gostring) list"
  hf_endStream :: bool
  hf_initStream :: init_answer
  hf_wq :: writeQuota
  hf_cleanup :: "cleanupStream option"
  hf_onOrphaned :: bool

record dataFrame =
  df_streamID :: u32
  df_endStream :: bool
  df_h :: "byte list"
  df_d :: "byte list"

datatype cbItem =
    CbRegisterStream u32 writeQuota
  | CbHeader headerFrame
  | CbCleanup cleanupStream
  | CbData dataFrame
  | CbIncomingWindowUpdate u32 u32
  | CbOutgoingWindowUpdate u32 u32
  | CbIncomingSettings "(u16 \<times> u32) list"
  | CbOutgoingSettings "(u16 \<times> u32) list"
  | CbIncomingGoAway
  | CbGoAway u32 "byte list" bool bool
  | CbPing bool "byte list"
  | CbOutFlowControlSizeRequest

fun isTransportResponseFrame :: "cbItem \<Rightarrow> bool" where
  "isTransportResponseFrame (CbHeader h) = (case hf_cleanup h of Some c \<Rightarrow> cs_rst c | None \<Rightarrow> False)"
| "isTransportResponseFrame (CbCleanup c) = cs_rst c"
| "isTransportResponseFrame (CbIncomingSettings ss) = True"
| "isTransportResponseFrame (CbPing ack d) = True"
| "isTransportResponseFrame _ = False"

section \<open>The control buffer\<close>

datatype cberr = ErrConnClosing | CbErr string

text \<open>\<open>cb_ch\<close>: the wake-up channel holds a token; \<open>cb_trfChan\<close>: the throttling channel exists.\<close>

record controlBuffer =
  cb_ch :: bool
  cb_consumerWaiting :: bool
  cb_list :: "cbItem itemList"
  cb_err :: "cberr option"
  cb_trf :: int
  cb_trfChan :: bool

definition maxQueuedTransportResponseFrames :: int where "maxQueuedTransportResponseFrames = 50"

definition newControlBuffer :: controlBuffer where
  "newControlBuffer = \<lparr>cb_ch = False, cb_consumerWaiting = False, cb_list = newItemList, cb_err = None, cb_trf = 0,
     cb_trfChan = False\<rparr>"

text \<open>\<open>throttle\<close> blocks exactly while the throttling channel exists.\<close>

definition throttled :: "controlBuffer \<Rightarrow> bool" where
  "throttled c = cb_trfChan c"

definition executeAndPut :: "(cbItem \<Rightarrow> bool) option \<Rightarrow> cbItem \<Rightarrow> (controlBuffer, cberr, bool) prog" where
  "executeAndPut f it c =
     (case cb_err c of
        Some e \<Rightarrow> (Err e, c)
      | None \<Rightarrow>
          if (case f of Some g \<Rightarrow> \<not> g it | None \<Rightarrow> False) then (Ok False, c)
          else
            let wakeUp = cb_consumerWaiting c;
                c = c\<lparr>cb_consumerWaiting := False\<rparr>;
                c = c\<lparr>cb_list := enqueue it (cb_list c)\<rparr>;
                c = (if isTransportResponseFrame it then
                       let c = c\<lparr>cb_trf := cb_trf c + 1\<rparr> in
                       (if cb_trf c = maxQueuedTransportResponseFrames then c\<lparr>cb_trfChan := True\<rparr> else c)
                     else c);
                c = (if wakeUp then c\<lparr>cb_ch := True\<rparr> else c)
            in (Ok True, c))"

definition cb_put :: "cbItem \<Rightarrow> (controlBuffer, cberr, bool) prog" where
  "cb_put it = executeAndPut None it"

definition cb_execute :: "(cbItem \<Rightarrow> bool) \<Rightarrow> cbItem \<Rightarrow> (controlBuffer, cberr, bool) prog" where
  "cb_execute f it c =
     (case cb_err c of Some e \<Rightarrow> (Err e, c) | None \<Rightarrow> if \<not> f it then (Ok False, c) else (Ok True, c))"

text \<open>
  One pass of the loop of \<^verbatim>\<open>get\<close> under the lock: an item, nothing (not blocking), or the consumer goes to
  wait. Closing a throttling channel that does not exist is a panic.
\<close>

datatype got = GotItem cbItem | GotNil | MustWait

definition cb_get :: "bool \<Rightarrow> (controlBuffer, cberr, got) prog" where
  "cb_get block c =
     (case cb_err c of
        Some e \<Rightarrow> (Err e, c)
      | None \<Rightarrow>
          if \<not> isEmpty (cb_list c) then
            (case dequeue (cb_list c) of
               (None, l) \<Rightarrow> (Panic, c)
             | (Some h, l) \<Rightarrow>
                 let c = c\<lparr>cb_list := l\<rparr> in
                 if isTransportResponseFrame h then
                   (if cb_trf c = maxQueuedTransportResponseFrames then
                      (if \<not> cb_trfChan c then (Panic, c)
                       else (Ok (GotItem h), c\<lparr>cb_trfChan := False, cb_trf := cb_trf c - 1\<rparr>))
                    else (Ok (GotItem h), c\<lparr>cb_trf := cb_trf c - 1\<rparr>))
                 else (Ok (GotItem h), c))
          else if \<not> block then (Ok GotNil, c)
          else (Ok MustWait, c\<lparr>cb_consumerWaiting := True\<rparr>))"

text \<open>\<open>finish\<close> returns the error and the header frames whose \<^verbatim>\<open>onOrphaned\<close> callback it ran, in order.\<close>

definition cb_finish :: "cberr \<Rightarrow> controlBuffer \<Rightarrow> cberr \<times> headerFrame list \<times> controlBuffer" where
  "cb_finish e c =
     (case cb_err c of
        Some e' \<Rightarrow> (e', [], c)
      | None \<Rightarrow>
          (case dequeueAll (cb_list c) of (h, l) \<Rightarrow>
             (e, [hdr. Some (CbHeader hdr) \<leftarrow> walk (il_fresh l) (il_heap l) h, hf_onOrphaned hdr],
              c\<lparr>cb_err := Some e, cb_list := l\<rparr>)))"

section \<open>The invariant of the control buffer\<close>

definition trf_count :: "cbItem list \<Rightarrow> int" where
  "trf_count q = int (length (filter isTransportResponseFrame q))"

definition cb_inv :: "controlBuffer \<Rightarrow> cbItem list \<Rightarrow> bool" where
  "cb_inv c q \<longleftrightarrow> il_R (cb_list c) q \<and> cb_err c = None \<and> cb_trf c = trf_count q
     \<and> (cb_trfChan c \<longleftrightarrow> trf_count q \<ge> maxQueuedTransportResponseFrames)"

lemma cb_inv_new: "cb_inv newControlBuffer []"
  using ilq.R_new by (simp add: cb_inv_def newControlBuffer_def trf_count_def maxQueuedTransportResponseFrames_def)

lemma cb_put_inv:
  assumes "cb_inv c q"
  shows "\<exists>c'. cb_put it c = (Ok True, c') \<and> cb_inv c' (q @ [it])
    \<and> (cb_consumerWaiting c \<longrightarrow> cb_ch c') \<and> \<not> cb_consumerWaiting c'"
  using assms ilq.R_enq[of "cb_list c" q it]
  by (auto simp: cb_inv_def cb_put_def executeAndPut_def Let_def trf_count_def maxQueuedTransportResponseFrames_def)

lemma cb_get_Cons:
  assumes "cb_inv c (x # q)"
  shows "\<exists>c'. cb_get block c = (Ok (GotItem x), c') \<and> cb_inv c' q"
proof -
  obtain l where "dequeue (cb_list c) = (Some x, l)" "il_R l q"
    using assms ilq.R_deq_Cons[of "cb_list c" x q] by (auto simp: cb_inv_def)
  moreover have "\<not> isEmpty (cb_list c)" using assms ilq.R_empty[of "cb_list c" "x # q"] by (auto simp: cb_inv_def)
  ultimately show ?thesis
    using assms by (auto simp: cb_inv_def cb_get_def Let_def trf_count_def maxQueuedTransportResponseFrames_def)
qed

lemma cb_get_Nil:
  assumes "cb_inv c []"
  shows "cb_get block c = (if block then (Ok MustWait, c\<lparr>cb_consumerWaiting := True\<rparr>) else (Ok GotNil, c))"
  using assms ilq.R_empty[of "cb_list c" "[]"] by (auto simp: cb_inv_def cb_get_def)

text \<open>A call on the control buffer, and its effect on an abstract queue.\<close>

datatype cbop = OpPut cbItem | OpGet

fun cb_run :: "cbop list \<Rightarrow> controlBuffer \<Rightarrow> (cberr, got) res list \<times> controlBuffer" where
  "cb_run [] c = ([], c)"
| "cb_run (OpPut it # ops) c = cb_run ops (snd (cb_put it c))"
| "cb_run (OpGet # ops) c = (let (r, c') = cb_get False c; (rs, c'') = cb_run ops c' in (r # rs, c''))"

fun cb_spec :: "cbop list \<Rightarrow> cbItem list \<Rightarrow> got list \<times> cbItem list" where
  "cb_spec [] q = ([], q)"
| "cb_spec (OpPut it # ops) q = cb_spec ops (q @ [it])"
| "cb_spec (OpGet # ops) [] = (let (rs, q') = cb_spec ops [] in (GotNil # rs, q'))"
| "cb_spec (OpGet # ops) (x # q) = (let (rs, q') = cb_spec ops q in (GotItem x # rs, q'))"

lemma cb_run_spec:
  "cb_inv c q \<Longrightarrow> \<exists>c'. cb_run ops c = (map Ok (fst (cb_spec ops q)), c') \<and> cb_inv c' (snd (cb_spec ops q))"
proof (induction ops q arbitrary: c rule: cb_spec.induct)
  case (2 it ops q)
  obtain c' where "cb_put it c = (Ok True, c')" "cb_inv c' (q @ [it])" using cb_put_inv[OF 2(2)] by blast
  with 2(1) show ?case by auto
next
  case (3 ops)
  with cb_get_Nil[OF 3(2), of False] show ?case by (fastforce simp: split_beta Let_def)
next
  case (4 ops x q)
  obtain c' where "cb_get False c = (Ok (GotItem x), c')" "cb_inv c' q" using cb_get_Cons[OF 4(2)] by blast
  with 4(1)[of c'] show ?case by (auto simp: split_beta Let_def)
qed auto

section \<open>Properties\<close>

text \<open>C28. The linked list with its recycled nodes is a FIFO queue: any sequence of enqueues and dequeues on a fresh list
  returns what the abstract queue returns, whatever nodes are reused from the free list.\<close>

theorem itemList_refines_queue:
  "fst (run_qops enqueue dequeue ops newItemList) = fst (run_qops (\<lambda>x q. q @ [x]) list_deq ops [])"
  using ilq.run_refines[OF ilq.R_new, of ops] by auto

text \<open>C27. The control buffer delivers items in order and throttles exactly while at least fifty response frames
  are queued; the count never drifts, so closing the throttling channel never panics.\<close>

theorem controlBuffer_fifo_and_throttle:
  "\<exists>c'. cb_run ops newControlBuffer = (map Ok (fst (cb_spec ops [])), c')
      \<and> (throttled c' \<longleftrightarrow> 50 \<le> length (filter isTransportResponseFrame (snd (cb_spec ops []))))"
  using cb_run_spec[OF cb_inv_new, of ops]
  by (auto simp: cb_inv_def throttled_def trf_count_def maxQueuedTransportResponseFrames_def)

text \<open>C29. Shutting the buffer down tells every header frame still queued that its stream is orphaned, once and in
  order, and from then on every put and get reports the error.\<close>

theorem finish_orphans_queued_headers:
  assumes "cb_inv c q" and "cb_finish e c = (e', orphans, c')"
  shows "e' = e \<and> orphans = [hdr. CbHeader hdr \<leftarrow> q, hf_onOrphaned hdr]
     \<and> fst (cb_put it c') = Err e \<and> fst (cb_get block c') = Err e"
proof -
  obtain h l where l: "dequeueAll (cb_list c) = (h, l)" "il_fresh l = il_fresh (cb_list c)"
      "walk (il_fresh l) (il_heap l) h = map Some q"
    using assms(1) il_R_dequeueAll[of "cb_list c" q] by (auto simp: cb_inv_def dequeueAll_def)
  have "[hdr. Some (CbHeader hdr) \<leftarrow> map Some q, hf_onOrphaned hdr] = [hdr. CbHeader hdr \<leftarrow> q, hf_onOrphaned hdr]"
    by (induction q) (auto split: cbItem.splits)
  then show ?thesis
    using assms l by (auto simp: cb_finish_def cb_inv_def cb_put_def executeAndPut_def cb_get_def)
qed

theorem finish_orphans_queued_headers_witness:
  "let h = \<lparr>hf_streamID = 1, hf_hf = [], hf_endStream = False, hf_initStream = InitOk, hf_wq = newWriteQuota 0,
            hf_cleanup = None, hf_onOrphaned = True\<rparr>;
       c = snd (cb_put (CbHeader h) (snd (cb_put (CbPing True []) newControlBuffer)))
   in fst (snd (cb_finish ErrConnClosing c)) = [h]"
proof -
  let ?h = "\<lparr>hf_streamID = 1, hf_hf = [], hf_endStream = False, hf_initStream = InitOk, hf_wq = newWriteQuota 0,
            hf_cleanup = None, hf_onOrphaned = True\<rparr>"
  let ?c1 = "snd (cb_put (CbPing True []) newControlBuffer)" and ?q = "[CbPing True [], CbHeader ?h]"
  have "cb_inv ?c1 [CbPing True []]" using cb_put_inv[OF cb_inv_new, of "CbPing True []"] by auto
  then have i: "cb_inv (snd (cb_put (CbHeader ?h) ?c1)) ?q" using cb_put_inv[of ?c1 "[CbPing True []]" "CbHeader ?h"] by auto
  obtain e' os c' where f: "cb_finish ErrConnClosing (snd (cb_put (CbHeader ?h) ?c1)) = (e', os, c')"
    by (cases "cb_finish ErrConnClosing (snd (cb_put (CbHeader ?h) ?c1))")
  from finish_orphans_queued_headers[OF i f, where it = "CbHeader ?h" and block = True] f show ?thesis by simp
qed

end
