(* ===== verification/OutStreamList.thy ===== *)
theory OutStreamList
  imports Prelude
begin

text \<open>
  The doubly linked list of active streams of the gRPC writer (\<^verbatim>\<open>outStreamList\<close> and
  \<^verbatim>\<open>outStream.deleteSelf\<close> of \<^verbatim>\<open>pkg/remote/trans/nphttp2/grpc/controlbuf.go\<close>), at the level of its pointers. Streams
  and the two sentinels are addresses; \<open>os_next\<close> and \<open>os_prev\<close> are the fields, \<open>None\<close> is nil. The locale
  \<open>worklist\<close> is what the writer relies on: a queue without repetition from which any member can be deleted.
\<close>

section \<open>The code\<close>

record osl =
  os_next :: "nat \<Rightarrow> nat option"
  os_prev :: "nat \<Rightarrow> nat option"

definition head_addr :: nat where "head_addr = 0"

definition tail_addr :: nat where "tail_addr = 1"

definition newOutStreamList :: osl where
  "newOutStreamList = \<lparr>os_next = (\<lambda>_. None)(head_addr := Some tail_addr), os_prev = (\<lambda>_. None)(tail_addr := Some head_addr)\<rparr>"

definition deleteSelf :: "nat \<Rightarrow> osl \<Rightarrow> osl" where
  "deleteSelf s l =
     (let l = (case os_prev l s of Some p \<Rightarrow> l\<lparr>os_next := (os_next l)(p := os_next l s)\<rparr> | None \<Rightarrow> l);
          l = (case os_next l s of Some n \<Rightarrow> l\<lparr>os_prev := (os_prev l)(n := os_prev l s)\<rparr> | None \<Rightarrow> l)
      in l\<lparr>os_next := (os_next l)(s := None), os_prev := (os_prev l)(s := None)\<rparr>)"

text \<open>\<open>None\<close> as the result of an operation is a nil dereference.\<close>

definition osl_enqueue :: "nat \<Rightarrow> osl \<Rightarrow> osl option" where
  "osl_enqueue s l =
     (case os_prev l tail_addr of
        None \<Rightarrow> None
      | Some e \<Rightarrow>
          let l = l\<lparr>os_next := (os_next l)(e := Some s)\<rparr>;
              l = l\<lparr>os_prev := (os_prev l)(s := Some e)\<rparr>;
              l = l\<lparr>os_next := (os_next l)(s := Some tail_addr)\<rparr>
          in Some (l\<lparr>os_prev := (os_prev l)(tail_addr := Some s)\<rparr>))"

definition osl_dequeue :: "osl \<Rightarrow> (nat option \<times> osl) option" where
  "osl_dequeue l =
     (case os_next l head_addr of
        None \<Rightarrow> None
      | Some b \<Rightarrow> if b = tail_addr then Some (None, l) else Some (Some b, deleteSelf b l))"

section \<open>The contract of a work list\<close>

locale worklist =
  fixes R :: "'l \<Rightarrow> 'a list \<Rightarrow> bool"
    and valid :: "'a \<Rightarrow> bool"
    and new :: 'l
    and enq :: "'a \<Rightarrow> 'l \<Rightarrow> 'l option"
    and deq :: "'l \<Rightarrow> ('a option \<times> 'l) option"
    and del :: "'a \<Rightarrow> 'l \<Rightarrow> 'l"
  assumes R_new: "R new []"
    and R_distinct: "R l xs \<Longrightarrow> distinct xs \<and> (\<forall>x\<in>set xs. valid x)"
    and R_enq: "R l xs \<Longrightarrow> valid x \<Longrightarrow> x \<notin> set xs \<Longrightarrow> \<exists>l'. enq x l = Some l' \<and> R l' (xs @ [x])"
    and R_deq_Nil: "R l [] \<Longrightarrow> deq l = Some (None, l)"
    and R_deq_Cons: "R l (x # xs) \<Longrightarrow> \<exists>l'. deq l = Some (Some x, l') \<and> R l' xs"
    and R_del: "R l xs \<Longrightarrow> valid x \<Longrightarrow> R (del x l) (removeAll x xs)"
begin

lemma enq_all:
  "R l xs \<Longrightarrow> distinct ys \<Longrightarrow> set ys \<inter> set xs = {} \<Longrightarrow> (\<forall>y\<in>set ys. valid y) \<Longrightarrow>
   \<exists>l'. foldl (\<lambda>l y. Option.bind l (enq y)) (Some l) ys = Some l' \<and> R l' (xs @ ys)"
proof (induction ys arbitrary: l xs)
  case (Cons y ys)
  obtain l1 where "enq y l = Some l1" "R l1 (xs @ [y])" using R_enq[OF Cons.prems(1), of y] Cons.prems by auto
  with Cons.IH[of l1 "xs @ [y]"] Cons.prems show ?case by auto
qed simp

text \<open>Taking the first member and putting it back at the end rotates the list: round robin.\<close>

lemma rotate_law: "R l (x # xs) \<Longrightarrow> \<exists>l1 l2. deq l = Some (Some x, l1) \<and> enq x l1 = Some l2 \<and> R l2 (xs @ [x])"
  using R_deq_Cons[of l x xs] R_enq[of _ xs x] R_distinct[of l "x # xs"] by force

end

section \<open>The linked list is a work list\<close>

fun seg :: "(nat \<Rightarrow> nat option) \<Rightarrow> (nat \<Rightarrow> nat option) \<Rightarrow> nat \<Rightarrow> nat list \<Rightarrow> nat \<Rightarrow> bool" where
  "seg nx pv a [] b \<longleftrightarrow> nx a = Some b \<and> pv b = Some a"
| "seg nx pv a (x # xs) b \<longleftrightarrow> nx a = Some x \<and> pv x = Some a \<and> seg nx pv x xs b"

definition dll :: "osl \<Rightarrow> nat list \<Rightarrow> bool" where
  "dll l xs \<longleftrightarrow> seg (os_next l) (os_prev l) head_addr xs tail_addr \<and> distinct (head_addr # xs @ [tail_addr])
     \<and> (\<forall>a. a \<notin> set xs \<longrightarrow> a \<noteq> head_addr \<longrightarrow> a \<noteq> tail_addr \<longrightarrow> os_next l a = None \<and> os_prev l a = None)"

lemma seg_append: "seg nx pv a (xs @ y # ys) b \<longleftrightarrow> seg nx pv a xs y \<and> seg nx pv y ys b"
  by (induction xs arbitrary: a) auto

lemma seg_first: "seg nx pv a xs b \<Longrightarrow> nx a = Some (hd (xs @ [b]))"
  by (cases xs) auto

lemma seg_last: "seg nx pv a xs b \<Longrightarrow> pv b = Some (last (a # xs))"
  by (induction xs arbitrary: a) auto

lemma seg_cong:
  "seg nx pv a xs b \<Longrightarrow> (\<And>x. x \<in> set (a # xs) \<Longrightarrow> nx' x = nx x) \<Longrightarrow> (\<And>x. x \<in> set (xs @ [b]) \<Longrightarrow> pv' x = pv x)
   \<Longrightarrow> seg nx' pv' a xs b"
  by (induction xs arbitrary: a) auto

lemma seg_unlink:
  assumes "seg nx pv a us y" "seg nx pv y vs b" "distinct (a # us @ y # vs @ [b])"
  shows "seg (nx(last (a # us) := Some (hd (vs @ [b])), y := None)) (pv(hd (vs @ [b]) := Some (last (a # us)), y := None))
           a (us @ vs) b"
proof -
  have tl: "seg (nx(p := Some (hd (vs @ [b])), y := None)) (pv(hd (vs @ [b]) := Some p, y := None)) p vs b"
    if "p \<notin> set (y # vs @ [b])" for p
  proof (cases vs)
    case Nil
    then show ?thesis using that assms(3) by auto
  next
    case (Cons v ws)
    then have "seg nx pv v ws b" using assms(2) by simp
    then have "seg (nx(p := Some v, y := None)) (pv(v := Some p, y := None)) v ws b"
      by (rule seg_cong) (use that assms(3) Cons in auto)
    then show ?thesis using Cons that assms(3) by auto
  qed
  show ?thesis
  proof (cases us rule: rev_cases)
    case Nil
    then show ?thesis using tl[of a] assms(3) by simp
  next
    case (snoc ws p)
    then have s: "seg nx pv a ws p" using assms(1) by (simp add: seg_append)
    have "hd (vs @ [b]) \<in> set (vs @ [b])" by (cases vs) auto
    then have "seg (nx(p := Some (hd (vs @ [b])), y := None)) (pv(hd (vs @ [b]) := Some p, y := None)) a ws p"
      by (intro seg_cong[OF s]) (use assms(3) snoc in auto)
    with tl[of p] show ?thesis using assms(3) snoc by (simp add: seg_append)
  qed
qed

lemma dll_new: "dll newOutStreamList []"
  by (simp add: dll_def newOutStreamList_def head_addr_def tail_addr_def)

lemma dll_enqueue:
  assumes "dll l xs" "head_addr < s" "tail_addr < s" "s \<notin> set xs"
  shows "\<exists>l'. osl_enqueue s l = Some l' \<and> dll l' (xs @ [s])"
proof -
  let ?e = "last (head_addr # xs)"
  have pv: "os_prev l tail_addr = Some ?e" using assms(1) seg_last unfolding dll_def by blast
  let ?nx = "(os_next l)(?e := Some s, s := Some tail_addr)" and ?pv = "(os_prev l)(s := Some ?e, tail_addr := Some s)"
  have d: "distinct (head_addr # xs @ [tail_addr])" "seg (os_next l) (os_prev l) head_addr xs tail_addr"
    using assms(1) by (auto simp: dll_def)
  have "seg ?nx ?pv head_addr xs s"
  proof (cases xs rule: rev_cases)
    case (snoc ws p)
    then have "seg (os_next l) (os_prev l) head_addr ws p" using d(2) by (simp add: seg_append)
    then have "seg ?nx ?pv head_addr ws p"
      by (rule seg_cong) (use d(1) assms(2-4) snoc in auto)
    then show ?thesis using snoc assms(2-4) d(1) by (simp add: seg_append)
  qed (use assms(2,3) in auto)
  moreover have "seg ?nx ?pv s [] tail_addr" using assms(3) by simp
  moreover have "?e \<in> insert head_addr (set xs)" by (cases xs rule: rev_cases) auto
  ultimately show ?thesis
    using pv assms by (auto simp: osl_enqueue_def Let_def dll_def seg_append)
qed

lemma deleteSelf_outside: "os_next l s = None \<Longrightarrow> os_prev l s = None \<Longrightarrow> deleteSelf s l = l"
  by (intro osl.equality) (auto simp: deleteSelf_def Let_def)

lemma dll_deleteSelf_mem:
  assumes "dll l (us @ y # vs)"
  shows "dll (deleteSelf y l) (us @ vs)"
proof -
  let ?p = "last (head_addr # us)" and ?n = "hd (vs @ [tail_addr])"
  have s: "seg (os_next l) (os_prev l) head_addr us y" "seg (os_next l) (os_prev l) y vs tail_addr"
    and d: "distinct (head_addr # us @ y # vs @ [tail_addr])"
    using assms by (auto simp: dll_def seg_append)
  have pv: "os_prev l y = Some ?p" and nx: "os_next l y = Some ?n"
    using seg_last[OF s(1)] seg_first[OF s(2)] by auto
  have mem: "?p \<in> insert head_addr (set us)" "?n \<in> insert tail_addr (set vs)"
    by (cases us rule: rev_cases; simp) (cases vs; simp)
  then have ne: "?p \<noteq> y" "?n \<noteq> y" using d by auto
  have del: "deleteSelf y l
      = l\<lparr>os_next := (os_next l)(?p := Some ?n, y := None), os_prev := (os_prev l)(?n := Some ?p, y := None)\<rparr>"
    using pv nx ne by (intro osl.equality) (auto simp: deleteSelf_def Let_def)
  show ?thesis
    using seg_unlink[OF s d] assms d mem by (auto simp: dll_def del)
qed

lemma dll_deleteSelf:
  assumes "dll l xs" "tail_addr < s"
  shows "dll (deleteSelf s l) (removeAll s xs)"
proof (cases "s \<in> set xs")
  case True
  then obtain us vs where xs: "xs = us @ s # vs" using split_list by fast
  then have "s \<notin> set us" "s \<notin> set vs" using assms(1) by (auto simp: dll_def)
  then show ?thesis using dll_deleteSelf_mem[of l us s vs] assms(1) xs by simp
next
  case False
  then have "os_next l s = None" "os_prev l s = None" using assms by (auto simp: dll_def head_addr_def tail_addr_def)
  with False assms(1) show ?thesis by (simp add: deleteSelf_outside)
qed

lemma dll_dequeue_Cons: "dll l (x # xs) \<Longrightarrow> \<exists>l'. osl_dequeue l = Some (Some x, l') \<and> dll l' xs"
  using dll_deleteSelf_mem[of l "[]" x xs] by (auto simp: osl_dequeue_def dll_def)

interpretation osw: worklist dll "\<lambda>s. tail_addr < s" newOutStreamList osl_enqueue osl_dequeue deleteSelf
proof unfold_locales
  fix l xs
  assume "dll l xs"
  then show "distinct xs \<and> (\<forall>x\<in>set xs. tail_addr < x)"
    by (auto simp: dll_def head_addr_def tail_addr_def) (metis One_nat_def less_one linorder_neqE_nat)
qed (use dll_new dll_enqueue dll_dequeue_Cons dll_deleteSelf in
    \<open>auto simp: osl_dequeue_def dll_def head_addr_def tail_addr_def\<close>)

end
