(* ===== verification/Loopy.thy ===== *)
theory Loopy
  imports ControlBuf OutStreamList GrpcFrameProps "HOL-Library.AList"
begin

text \<open>
  The gRPC writer goroutine (\<^verbatim>\<open>loopyWriter\<close> of \<^verbatim>\<open>pkg/remote/trans/nphttp2/grpc/controlbuf.go\<close>): the handlers of
  the control items, \<^verbatim>\<open>processData\<close> and the loop that alternates them. Streams are objects in a heap, reached
  through the map of established streams and through the list of active ones. The frames go out through the
  framer of \<^verbatim>\<open>GrpcFrame\<close>; \<open>l_sent\<close> records the calls it answered without an error, for the statements below.
\<close>

section \<open>State\<close>

datatype side = clientSide | serverSide

datatype outStreamState = st_active | st_empty | st_waitingOnStreamQuota

record outStream =
  str_id :: u32
  str_state :: outStreamState
  str_itl :: "cbItem itemList"
  str_bytesOutStanding :: int
  str_wq :: writeQuota

text \<open>The HPACK encoder is a package outside this repository: its state \<open>'h\<close> and two of its operations.\<close>

record 'h hpackEnc =
  he_WriteField :: "gostring \<times> gostring \<Rightarrow> 'h \<Rightarrow> byte list \<times> 'h"
  he_SetMaxDynamicTableSize :: "u32 \<Rightarrow> 'h \<Rightarrow> 'h"

datatype lerr = LConnClosing | LFramer h2err | LGoAway string

text \<open>
  \<open>l_obj\<close> is the heap of stream objects, \<open>l_fresh\<close> its first unused address; \<open>l_estd\<close> maps a stream id to its object.
\<close>

record ('h, 'f) loopyWriter =
  l_side :: side
  l_sendQuota :: u32
  l_oiws :: u32
  l_estd :: "(u32 \<times> nat) list"
  l_active :: osl
  l_framer :: framer_w
  l_hEnc :: 'h
  l_bdpEst :: "'f bdpEstimator"
  l_draining :: bool
  l_obj :: "nat \<Rightarrow> outStream"
  l_fresh :: nat
  l_sent :: "wcmd list"

text \<open>
  What varies from turn to turn: the clock, the order in which a range over the map visits its keys (one order
  for each such loop), the length of the write buffer, and the side-specific GOAWAY handler (the frames it writes
  and its answer).
\<close>

record 'h lenv =
  e_hpack :: "'h hpackEnc"
  e_now :: int
  e_order :: "nat \<Rightarrow> u32 list"
  e_offset :: int
  e_ssGoAwayHandler :: "(u32 \<Rightarrow> byte list \<Rightarrow> bool \<Rightarrow> bool \<Rightarrow> wcmd list \<times> (lerr, bool) res) option"

type_synonym ('h, 'f, 'a) lprog = "(('h, 'f) loopyWriter, lerr, 'a) prog"

definition defaultWindowSize :: u32 where "defaultWindowSize = 65535"

definition http2MaxFrameLen :: nat where "http2MaxFrameLen = 16384"

definition minBatchSize :: int where "minBatchSize = 1000"

definition newLoopyWriter :: "side \<Rightarrow> framer_w \<Rightarrow> 'h \<Rightarrow> 'f bdpEstimator \<Rightarrow> ('h, 'f) loopyWriter" where
  "newLoopyWriter s fr hEnc est =
     \<lparr>l_side = s, l_sendQuota = defaultWindowSize, l_oiws = defaultWindowSize, l_estd = [], l_active = newOutStreamList,
      l_framer = fr, l_hEnc = hEnc, l_bdpEst = est, l_draining = False,
      l_obj = (\<lambda>_. \<lparr>str_id = 0, str_state = st_empty, str_itl = newItemList, str_bytesOutStanding = 0,
                     str_wq = newWriteQuota 0\<rparr>),
      l_fresh = tail_addr + 1, l_sent = []\<rparr>"

section \<open>Steps on the state\<close>

definition lw_write :: "wcmd \<Rightarrow> ('h, 'f, unit) lprog" where
  "lw_write c l =
     (case run_wcmd c (l_framer l) of
        (Ok _, fr) \<Rightarrow> (Ok (), l\<lparr>l_framer := fr, l_sent := l_sent l @ [c]\<rparr>)
      | (Err e, fr) \<Rightarrow> (Err (LFramer e), l\<lparr>l_framer := fr\<rparr>)
      | (Panic, fr) \<Rightarrow> (Panic, l\<lparr>l_framer := fr\<rparr>)
      | (Diverge, fr) \<Rightarrow> (Diverge, l\<lparr>l_framer := fr\<rparr>))"

fun lw_write_all :: "wcmd list \<Rightarrow> ('h, 'f, unit) lprog" where
  "lw_write_all [] = ret ()"
| "lw_write_all (c # cs) = bindP (lw_write c) (\<lambda>_. lw_write_all cs)"

definition upd_str :: "nat \<Rightarrow> (outStream \<Rightarrow> outStream) \<Rightarrow> ('h, 'f) loopyWriter \<Rightarrow> ('h, 'f) loopyWriter" where
  "upd_str a f l = l\<lparr>l_obj := (l_obj l)(a := f (l_obj l a))\<rparr>"

text \<open>Appending a stream to the list of active streams; a nil dereference in the list is a panic.\<close>

definition lw_activate :: "nat \<Rightarrow> ('h, 'f, unit) lprog" where
  "lw_activate a l =
     (case osl_enqueue a (l_active l) of None \<Rightarrow> (Panic, l) | Some q \<Rightarrow> (Ok (), l\<lparr>l_active := q\<rparr>))"

definition new_stream :: "u32 \<Rightarrow> writeQuota \<Rightarrow> outStream" where
  "new_stream sid wq = \<lparr>str_id = sid, str_state = st_empty, str_itl = newItemList, str_bytesOutStanding = 0, str_wq = wq\<rparr>"

definition alloc_stream :: "outStream \<Rightarrow> ('h, 'f) loopyWriter \<Rightarrow> nat \<times> ('h, 'f) loopyWriter" where
  "alloc_stream s l = (l_fresh l, l\<lparr>l_obj := (l_obj l)(l_fresh l := s), l_fresh := l_fresh l + 1\<rparr>)"

section \<open>Handlers\<close>

definition outgoingWindowUpdateHandler :: "u32 \<Rightarrow> u32 \<Rightarrow> ('h, 'f, unit) lprog" where
  "outgoingWindowUpdateHandler sid inc = lw_write (WWindow sid inc)"

definition incomingWindowUpdateHandler :: "u32 \<Rightarrow> u32 \<Rightarrow> ('h, 'f, unit) lprog" where
  "incomingWindowUpdateHandler sid inc l =
     (if sid = 0 then (Ok (), l\<lparr>l_sendQuota := l_sendQuota l + inc\<rparr>)
      else case map_of (l_estd l) sid of
             None \<Rightarrow> (Ok (), l)
           | Some a \<Rightarrow>
               let l = upd_str a (\<lambda>s. s\<lparr>str_bytesOutStanding := str_bytesOutStanding s - uint inc\<rparr>) l;
                   strQuota = uint (l_oiws l) - str_bytesOutStanding (l_obj l a) in
               if strQuota > 0 \<and> str_state (l_obj l a) = st_waitingOnStreamQuota
               then lw_activate a (upd_str a (\<lambda>s. s\<lparr>str_state := st_active\<rparr>) l)
               else (Ok (), l))"

definition outgoingSettingsHandler :: "(u16 \<times> u32) list \<Rightarrow> ('h, 'f, unit) lprog" where
  "outgoingSettingsHandler ss = lw_write (WSettings ss)"

text \<open>The range loop of \<^verbatim>\<open>applySettings\<close> over the established streams, in the order \<open>sids\<close>.\<close>

fun activate_waiting :: "u32 list \<Rightarrow> ('h, 'f, unit) lprog" where
  "activate_waiting [] l = (Ok (), l)"
| "activate_waiting (sid # sids) l =
     (case map_of (l_estd l) sid of
        None \<Rightarrow> activate_waiting sids l
      | Some a \<Rightarrow>
          if str_state (l_obj l a) = st_waitingOnStreamQuota
          then bindP (lw_activate a) (\<lambda>_. activate_waiting sids) (upd_str a (\<lambda>s. s\<lparr>str_state := st_active\<rparr>) l)
          else activate_waiting sids l)"

definition SettingHeaderTableSize :: u16 where "SettingHeaderTableSize = 1"

fun applySettings :: "'h lenv \<Rightarrow> (u16 \<times> u32) list \<Rightarrow> ('h, 'f, unit) lprog" where
  "applySettings env [] l = (Ok (), l)"
| "applySettings env ((i, v) # ss) l =
     (if i = SettingInitialWindowSize then
        (let oldv = l_oiws l; l = l\<lparr>l_oiws := v\<rparr> in
         bindP (if oldv < v then activate_waiting (e_order env (length ss)) else ret ()) (\<lambda>_. applySettings env ss) l)
      else if i = SettingHeaderTableSize then
        applySettings env ss (l\<lparr>l_hEnc := he_SetMaxDynamicTableSize (e_hpack env) v (l_hEnc l)\<rparr>)
      else applySettings env ss l)"

definition incomingSettingsHandler :: "'h lenv \<Rightarrow> (u16 \<times> u32) list \<Rightarrow> ('h, 'f, unit) lprog" where
  "incomingSettingsHandler env ss = bindP (applySettings env ss) (\<lambda>_. lw_write WSettingsAck)"

definition registerStreamHandler :: "u32 \<Rightarrow> writeQuota \<Rightarrow> ('h, 'f, unit) lprog" where
  "registerStreamHandler sid wq l =
     (case alloc_stream (new_stream sid wq) l of (a, l) \<Rightarrow> (Ok (), l\<lparr>l_estd := AList.update sid a (l_estd l)\<rparr>))"

text \<open>Header blocks: the fields are encoded into \<^verbatim>\<open>hBuf\<close>, which is then cut into frames.\<close>

fun encodeFields :: "'h hpackEnc \<Rightarrow> (gostring \<times> gostring) list \<Rightarrow> 'h \<Rightarrow> byte list \<times> 'h" where
  "encodeFields he [] h = ([], h)"
| "encodeFields he (f # fs) h =
     (let (bs, h) = he_WriteField he f h; (cs, h) = encodeFields he fs h in (bs @ cs, h))"

definition header_cmd :: "u32 \<Rightarrow> bool \<Rightarrow> bool \<Rightarrow> bool \<Rightarrow> byte list \<Rightarrow> wcmd" where
  "header_cmd sid endStream first endHeaders frag =
     (if first then WHeaders \<lparr>hp_StreamID = sid, hp_BlockFragment = frag, hp_EndStream = endStream,
                              hp_EndHeaders = endHeaders, hp_PadLength = 0, hp_Priority = prio0\<rparr>
      else WCont sid endHeaders frag)"

function writeFragments :: "u32 \<Rightarrow> bool \<Rightarrow> bool \<Rightarrow> byte list \<Rightarrow> ('h, 'f, unit) lprog" where
  "writeFragments sid endStream first hBuf =
     (if length hBuf > http2MaxFrameLen then
        bindP (lw_write (header_cmd sid endStream first False (take http2MaxFrameLen hBuf)))
          (\<lambda>_. writeFragments sid endStream False (drop http2MaxFrameLen hBuf))
      else lw_write (header_cmd sid endStream first True hBuf))"
  by pat_completeness auto

termination
  by (relation "measure (\<lambda>(_, _, _, hBuf). length hBuf)") (auto simp: http2MaxFrameLen_def)

declare writeFragments.simps [simp del]

definition writeHeader :: "'h lenv \<Rightarrow> u32 \<Rightarrow> bool \<Rightarrow> (gostring \<times> gostring) list \<Rightarrow> ('h, 'f, unit) lprog" where
  "writeHeader env sid endStream hf l =
     (case encodeFields (e_hpack env) hf (l_hEnc l) of (hBuf, h) \<Rightarrow>
        writeFragments sid endStream True hBuf (l\<lparr>l_hEnc := h\<rparr>))"

text \<open>A missing cleanup item is a nil dereference.\<close>

definition cleanupStreamHandler :: "cleanupStream option \<Rightarrow> ('h, 'f, unit) lprog" where
  "cleanupStreamHandler co l =
     (case co of
        None \<Rightarrow> (Panic, l)
      | Some c \<Rightarrow>
          let l = (case map_of (l_estd l) (cs_streamID c) of
                     Some a \<Rightarrow> l\<lparr>l_estd := AList.delete (cs_streamID c) (l_estd l), l_active := deleteSelf a (l_active l)\<rparr>
                   | None \<Rightarrow> l) in
          bindP (if cs_rst c then lw_write (WRST (cs_streamID c) (cs_rstCode c)) else ret ())
            (\<lambda>_ l. if l_side l = clientSide \<and> l_draining l \<and> l_estd l = [] then (Err LConnClosing, l) else (Ok (), l)) l)"

definition originateStream :: "'h lenv \<Rightarrow> nat \<Rightarrow> ('h, 'f, unit) lprog" where
  "originateStream env a l =
     (case dequeue (str_itl (l_obj l a)) of
        (Some (CbHeader hdr), itl) \<Rightarrow>
          (let l = upd_str a (\<lambda>s. s\<lparr>str_itl := itl\<rparr>) l; sid = str_id (l_obj l a) in
           (case hf_initStream hdr of
              InitConnClosing \<Rightarrow> (Err LConnClosing, l)
            | InitOther \<Rightarrow> (Ok (), l)
            | InitOk \<Rightarrow>
                bindP (writeHeader env sid (hf_endStream hdr) (hf_hf hdr))
                  (\<lambda>_ l. (Ok (), l\<lparr>l_estd := AList.update sid a (l_estd l)\<rparr>)) l))
      | _ \<Rightarrow> (Panic, l))"

definition headerHandler :: "'h lenv \<Rightarrow> headerFrame \<Rightarrow> ('h, 'f, unit) lprog" where
  "headerHandler env h l =
     (if l_side l = serverSide then
        (case map_of (l_estd l) (hf_streamID h) of
           None \<Rightarrow> (Ok (), l)
         | Some a \<Rightarrow>
             if \<not> hf_endStream h then writeHeader env (hf_streamID h) (hf_endStream h) (hf_hf h) l
             else if str_state (l_obj l a) \<noteq> st_empty
             then (Ok (), upd_str a (\<lambda>s. s\<lparr>str_itl := enqueue (CbHeader h) (str_itl s)\<rparr>) l)
             else bindP (writeHeader env (hf_streamID h) (hf_endStream h) (hf_hf h))
                    (\<lambda>_. cleanupStreamHandler (hf_cleanup h)) l)
      else
        (case alloc_stream (new_stream (hf_streamID h) (hf_wq h)) l of (a, l) \<Rightarrow>
           originateStream env a (upd_str a (\<lambda>s. s\<lparr>str_itl := enqueue (CbHeader h) (str_itl s)\<rparr>) l)))"

definition preprocessData :: "dataFrame \<Rightarrow> ('h, 'f, unit) lprog" where
  "preprocessData df l =
     (case map_of (l_estd l) (df_streamID df) of
        None \<Rightarrow> (Ok (), l)
      | Some a \<Rightarrow>
          let l = upd_str a (\<lambda>s. s\<lparr>str_itl := enqueue (CbData df) (str_itl s)\<rparr>) l in
          if str_state (l_obj l a) = st_empty
          then lw_activate a (upd_str a (\<lambda>s. s\<lparr>str_state := st_active\<rparr>) l)
          else (Ok (), l))"

definition pingHandler :: "'h lenv \<Rightarrow> bool \<Rightarrow> byte list \<Rightarrow> ('h, 'f, unit) lprog" where
  "pingHandler env ack d l =
     lw_write (WPing ack d) (if \<not> ack then l\<lparr>l_bdpEst := timesnap (e_now env) d (l_bdpEst l)\<rparr> else l)"

text \<open>The reply to an \<^verbatim>\<open>outFlowControlSizeRequest\<close> goes to a channel; it leaves the writer unchanged.\<close>

definition outFlowControlSizeRequestHandler :: "('h, 'f, unit) lprog" where
  "outFlowControlSizeRequestHandler = ret ()"

definition incomingGoAwayHandler :: "('h, 'f, unit) lprog" where
  "incomingGoAwayHandler l =
     (if l_side l = clientSide then
        (let l = l\<lparr>l_draining := True\<rparr> in if l_estd l = [] then (Err LConnClosing, l) else (Ok (), l))
      else (Ok (), l))"

definition goAwayHandler :: "'h lenv \<Rightarrow> u32 \<Rightarrow> byte list \<Rightarrow> bool \<Rightarrow> bool \<Rightarrow> ('h, 'f, unit) lprog" where
  "goAwayHandler env code debug headsUp closeConn =
     (case e_ssGoAwayHandler env of
        None \<Rightarrow> ret ()
      | Some f \<Rightarrow>
          (case f code debug headsUp closeConn of (cs, r) \<Rightarrow>
             bindP (lw_write_all cs) (\<lambda>_ l. bindP (\<lambda>l. (r, l)) (\<lambda>draining l. (Ok (), l\<lparr>l_draining := draining\<rparr>)) l)))"

fun handle :: "'h lenv \<Rightarrow> cbItem \<Rightarrow> ('h, 'f, unit) lprog" where
  "handle env (CbIncomingWindowUpdate sid inc) = incomingWindowUpdateHandler sid inc"
| "handle env (CbOutgoingWindowUpdate sid inc) = outgoingWindowUpdateHandler sid inc"
| "handle env (CbIncomingSettings ss) = incomingSettingsHandler env ss"
| "handle env (CbOutgoingSettings ss) = outgoingSettingsHandler ss"
| "handle env (CbHeader h) = headerHandler env h"
| "handle env (CbRegisterStream sid wq) = registerStreamHandler sid wq"
| "handle env (CbCleanup c) = cleanupStreamHandler (Some c)"
| "handle env CbIncomingGoAway = incomingGoAwayHandler"
| "handle env (CbData df) = preprocessData df"
| "handle env (CbPing ack d) = pingHandler env ack d"
| "handle env (CbGoAway code debug headsUp closeConn) = goAwayHandler env code debug headsUp closeConn"
| "handle env CbOutFlowControlSizeRequest = outFlowControlSizeRequestHandler"

section \<open>Sending data\<close>

text \<open>Assigning to the data item at the head of a stream's list, which the list holds by reference.\<close>

definition set_head :: "'a \<Rightarrow> 'a itemList \<Rightarrow> 'a itemList" where
  "set_head x il =
     (case il_head il of None \<Rightarrow> il | Some h \<Rightarrow> il\<lparr>il_heap := (il_heap il)(h := (il_heap il h)\<lparr>nd_it := Some x\<rparr>)\<rparr>)"

definition drop_item :: "nat \<Rightarrow> ('h, 'f) loopyWriter \<Rightarrow> ('h, 'f) loopyWriter" where
  "drop_item a = upd_str a (\<lambda>s. s\<lparr>str_itl := snd (dequeue (str_itl s))\<rparr>)"

text \<open>The empty data frame, and what happens to its stream then: an error of the final cleanup is dropped here.\<close>

definition requeueEmpty :: "'h lenv \<Rightarrow> nat \<Rightarrow> ('h, 'f, bool) lprog" where
  "requeueEmpty env a l =
     (let itl = str_itl (l_obj l a) in
      if isEmpty itl then (Ok False, upd_str a (\<lambda>s. s\<lparr>str_state := st_empty\<rparr>) l)
      else case peek itl of
             Some (CbHeader t) \<Rightarrow>
               bindP (writeHeader env (hf_streamID t) (hf_endStream t) (hf_hf t)) (\<lambda>_.
               bindP (attempt (cleanupStreamHandler (hf_cleanup t))) (\<lambda>_. ret False)) l
           | _ \<Rightarrow> bindP (lw_activate a) (\<lambda>_. ret False) l)"

definition processEmpty :: "'h lenv \<Rightarrow> nat \<Rightarrow> dataFrame \<Rightarrow> ('h, 'f, bool) lprog" where
  "processEmpty env a df =
     bindP (lw_write (WData (df_streamID df) (df_endStream df) [])) (\<lambda>_ l. requeueEmpty env a (drop_item a l))"

text \<open>What happens to a stream after one of its frames went out.\<close>

definition requeue :: "'h lenv \<Rightarrow> nat \<Rightarrow> ('h, 'f, bool) lprog" where
  "requeue env a l =
     (let itl = str_itl (l_obj l a) in
      if isEmpty itl then (Ok False, upd_str a (\<lambda>s. s\<lparr>str_state := st_empty\<rparr>) l)
      else case peek itl of
             Some (CbHeader t) \<Rightarrow>
               bindP (writeHeader env (hf_streamID t) (hf_endStream t) (hf_hf t)) (\<lambda>_.
               bindP (cleanupStreamHandler (hf_cleanup t)) (\<lambda>_. ret False)) l
           | _ \<Rightarrow>
               if uint (l_oiws l) - str_bytesOutStanding (l_obj l a) \<le> 0
               then (Ok False, upd_str a (\<lambda>s. s\<lparr>str_state := st_waitingOnStreamQuota\<rparr>) l)
               else bindP (lw_activate a) (\<lambda>_. ret False) l)"

text \<open>
  One DATA frame of a non-empty item: how much of the message header and of the data fits the frame, the stream's
  window and the connection's window; the bytes; and the state once they are written.
\<close>

definition chunk_sizes :: "int \<Rightarrow> int \<Rightarrow> dataFrame \<Rightarrow> nat \<times> nat" where
  "chunk_sizes strQuota sendQuota df =
     (let maxSize = int http2MaxFrameLen;
          maxSize = (if maxSize > strQuota then strQuota else maxSize);
          maxSize = (if maxSize > sendQuota then sendQuota else maxSize);
          hSize = min (nat maxSize) (length (df_h df));
          dSize = min (nat maxSize - hSize) (length (df_d df))
      in (hSize, dSize))"

definition chunk_buf :: "dataFrame \<Rightarrow> nat \<Rightarrow> nat \<Rightarrow> byte list" where
  "chunk_buf df hSize dSize =
     (if hSize \<noteq> 0 then (if dSize = 0 then df_h df else take hSize (df_h df) @ take dSize (df_d df)) else df_d df)"

definition chunk_done :: "nat \<Rightarrow> dataFrame \<Rightarrow> nat \<Rightarrow> nat \<Rightarrow> ('h, 'f) loopyWriter \<Rightarrow> ('h, 'f) loopyWriter" where
  "chunk_done a df hSize dSize l =
     (let size = hSize + dSize;
          l = upd_str a (\<lambda>s. s\<lparr>str_bytesOutStanding := str_bytesOutStanding s + int size\<rparr>) l;
          l = l\<lparr>l_sendQuota := l_sendQuota l - of_nat size\<rparr>;
          df = df\<lparr>df_h := drop hSize (df_h df), df_d := drop dSize (df_d df)\<rparr>;
          l = upd_str a (\<lambda>s. s\<lparr>str_itl := set_head (CbData df) (str_itl s)\<rparr>) l
      in if df_h df = [] \<and> df_d df = [] then drop_item a l else l)"

definition processChunk :: "'h lenv \<Rightarrow> nat \<Rightarrow> dataFrame \<Rightarrow> ('h, 'f, bool) lprog" where
  "processChunk env a df l =
     (let strQuota = uint (l_oiws l) - str_bytesOutStanding (l_obj l a) in
      if strQuota \<le> 0 then (Ok False, upd_str a (\<lambda>s. s\<lparr>str_state := st_waitingOnStreamQuota\<rparr>) l)
      else
        case chunk_sizes strQuota (uint (l_sendQuota l)) df of (hSize, dSize) \<Rightarrow>
          let buf = chunk_buf df hSize dSize;
              size = hSize + dSize;
              l = upd_str a (\<lambda>s. s\<lparr>str_wq := realReplenish (of_nat size) (str_wq s)\<rparr>) l;
              endStream = (df_endStream df \<and> length (df_h df) + length (df_d df) \<le> size)
          in bindP (lw_write (WData (df_streamID df) endStream (take size buf)))
               (\<lambda>_ l. requeue env a (chunk_done a df hSize dSize l)) l)"

definition processData :: "'h lenv \<Rightarrow> ('h, 'f, bool) lprog" where
  "processData env l =
     (if l_sendQuota l = 0 then (Ok True, l)
      else case osl_dequeue (l_active l) of
             None \<Rightarrow> (Panic, l)
           | Some (None, q) \<Rightarrow> (Ok True, l\<lparr>l_active := q\<rparr>)
           | Some (Some a, q) \<Rightarrow>
               let l = l\<lparr>l_active := q\<rparr> in
               (case peek (str_itl (l_obj l a)) of
                  Some (CbData df) \<Rightarrow>
                    if df_h df = [] \<and> df_d df = [] then processEmpty env a df l else processChunk env a df l
                | _ \<Rightarrow> (Panic, l)))"

section \<open>The loop\<close>

text \<open>
  Where the loop stands: before the blocking \<^verbatim>\<open>get\<close>, or in the inner loop with the flag \<^verbatim>\<open>gosched\<close>. One step consumes
  one answer of \<^verbatim>\<open>get\<close>; the result says where the loop stands next and whether the buffered frames were flushed.
\<close>

datatype runpc = Blocking | HasData bool

definition run_step :: "'h lenv \<Rightarrow> cbItem option \<Rightarrow> runpc \<Rightarrow> ('h, 'f, runpc \<times> bool) lprog" where
  "run_step env it pc =
     (case (pc, it) of
        (Blocking, Some i) \<Rightarrow> bindP (handle env i) (\<lambda>_. bindP (processData env) (\<lambda>_. ret (HasData True, False)))
      | (Blocking, None) \<Rightarrow> ret (Blocking, False)
      | (HasData g, Some i) \<Rightarrow> bindP (handle env i) (\<lambda>_. bindP (processData env) (\<lambda>_. ret (HasData g, False)))
      | (HasData g, None) \<Rightarrow>
          bindP (processData env) (\<lambda>isEmpty.
            if \<not> isEmpty then ret (HasData g, False)
            else if g \<and> e_offset env < minBatchSize then ret (HasData False, False)
            else ret (Blocking, True)))"

end
