(* ===== verification/LoopyInv.thy ===== *)
theory LoopyInv
  imports Loopy
begin

text \<open>
  The invariant of the gRPC writer and the proof that every handler and every turn of the loop keeps it, for runs
  in which control items arrive as the transports produce them (\<open>item_ok\<close>). The programs are handled with a
  weakest precondition \<open>wp\<close> that has one post-condition for results and one for errors and excludes panics.
\<close>

section \<open>Programs with two outcomes\<close>

text \<open>\<open>wp p P E s\<close>: run from \<open>s\<close>, the program returns a value with \<open>P\<close> or an error with \<open>E\<close>; it neither panics nor hangs.\<close>

definition wp :: "('s, 'e, 'a) prog \<Rightarrow> ('a \<Rightarrow> 's \<Rightarrow> bool) \<Rightarrow> ('s \<Rightarrow> bool) \<Rightarrow> 's \<Rightarrow> bool" where
  "wp p P E s = (case p s of (Ok x, s') \<Rightarrow> P x s' | (Err e, s') \<Rightarrow> E s' | (Panic, s') \<Rightarrow> False | (Diverge, s') \<Rightarrow> False)"

lemma wp_ret [simp]: "wp (ret x) P E s = P x s"
  by (simp add: wp_def ret_def)

lemma wp_bind: "wp (bindP p f) P E s = wp p (\<lambda>x. wp (f x) P E) E s"
  by (simp add: wp_def bindP_def split: prod.splits res.splits)

lemma wp_attempt: "wp (attempt p) P E s = wp p (\<lambda>x. P (Ok x)) (\<lambda>s'. \<exists>e. fst (p s) = Err e \<and> P (Err e) s') s"
  by (simp add: wp_def attempt_def split: prod.splits res.splits)

lemma wp_mono: "wp p P E s \<Longrightarrow> (\<And>x s'. P x s' \<Longrightarrow> P' x s') \<Longrightarrow> (\<And>s'. E s' \<Longrightarrow> E' s') \<Longrightarrow> wp p P' E' s"
  by (auto simp: wp_def split: prod.splits res.splits)

lemma wp_Ok: "p s = (Ok x, s') \<Longrightarrow> wp p P E s = P x s'"
  by (simp add: wp_def)

lemma wp_Err: "p s = (Err e, s') \<Longrightarrow> wp p P E s = E s'"
  by (simp add: wp_def)

lemma wp_cong: "p s = p' s' \<Longrightarrow> wp p P E s = wp p' P E s'"
  by (simp add: wp_def)

section \<open>Writing frames\<close>

definition ends :: "('s, 'e, 'a) prog \<Rightarrow> bool" where
  "ends p = (\<forall>s. wp p (\<lambda>_ _. True) (\<lambda>_. True) s)"

lemma ends_bind [intro!]: "ends p \<Longrightarrow> (\<And>x. ends (f x)) \<Longrightarrow> ends (bindP p f)"
  unfolding ends_def wp_bind by (intro allI, rule wp_mono [of p "\<lambda>_ _. True" "\<lambda>_. True"]) auto

lemma ends_if [intro!]: "(c \<Longrightarrow> ends p) \<Longrightarrow> (\<not> c \<Longrightarrow> ends q) \<Longrightarrow> ends (if c then p else q)"
  by simp

lemma ends_guard: "ends p \<Longrightarrow> ends (\<lambda>s. if c s then (Err (e s), s) else p s)"
  by (simp add: ends_def wp_def)

lemma ends_writeBytes: "ends (writeBytes bs)"
  by (simp add: ends_def wp_def writeBytes_def)

lemma ends_startWrite: "ends (startWrite t fl sid n)"
  by (simp add: ends_def wp_def startWrite_def)

lemma ends_endWrite: "ends endWrite"
  by (simp add: ends_def wp_def endWrite_def Let_def split: option.split)

lemma ends_settings: "ends (writeSettingList ss)"
  by (simp add: ends_def wp_def writeSettingList_run)

lemma ends_ret: "ends (ret x)"
  by (simp add: ends_def)

lemmas ends_prims [simp] = ends_writeBytes ends_startWrite ends_endWrite ends_settings ends_ret
  ends_writeBytes [of "[b]" for b, folded writeByte_def]
  ends_writeBytes [of "PutUint32 v" for v, folded writeUint32_def]
  ends_writeBytes [of "PutUint16 v" for v, folded writeUint16_def]

lemmas write_abs_defs = WriteData_def [abs_def] WriteHeaders_def [abs_def] WritePriority_def [abs_def] WriteRSTStream_def [abs_def]
  WriteSettings_def [abs_def] WriteSettingsAck_def [abs_def] WritePushPromise_def [abs_def] WritePing_def [abs_def]
  WriteGoAway_def [abs_def] WriteWindowUpdate_def [abs_def] WriteContinuation_def [abs_def] Let_def

lemma ends_run_wcmd: "ends (run_wcmd c)"
  by (cases c; hypsubst; unfold run_wcmd.simps write_abs_defs; (intro ends_guard ends_bind ends_if; simp)?)

lemma wp_write:
  assumes "\<And>fr. P () (l\<lparr>l_framer := fr, l_sent := l_sent l @ [c]\<rparr>)" "\<And>fr. E (l\<lparr>l_framer := fr\<rparr>)"
  shows "wp (lw_write c) P E l"
  using ends_run_wcmd[of c] assms
  by (auto simp: ends_def wp_def lw_write_def split: prod.splits res.splits)

section \<open>What a run says about streams\<close>

text \<open>Payload bytes written on a stream and in total; window credit received; data handed in; ids in use.\<close>

fun data_bytes :: "u32 \<Rightarrow> wcmd \<Rightarrow> byte list" where
  "data_bytes sid (WData s es d) = (if s = sid then d else [])"
| "data_bytes sid _ = []"

fun data_len :: "wcmd \<Rightarrow> nat" where
  "data_len (WData s es d) = length d"
| "data_len _ = 0"

definition sent_on :: "u32 \<Rightarrow> wcmd list \<Rightarrow> byte list" where
  "sent_on sid cs = concat (map (data_bytes sid) cs)"

definition sent_total :: "wcmd list \<Rightarrow> nat" where
  "sent_total cs = sum_list (map data_len cs)"

fun inc_of :: "u32 \<Rightarrow> cbItem \<Rightarrow> int" where
  "inc_of sid (CbIncomingWindowUpdate s i) = (if s = sid then uint i else 0)"
| "inc_of sid _ = 0"

definition inc_on :: "u32 \<Rightarrow> cbItem list \<Rightarrow> int" where
  "inc_on sid tr = sum_list (map (inc_of sid) tr)"

fun in_data :: "u32 \<Rightarrow> cbItem \<Rightarrow> byte list" where
  "in_data sid (CbData df) = (if df_streamID df = sid then df_h df @ df_d df else [])"
| "in_data sid _ = []"

definition data_in :: "u32 \<Rightarrow> cbItem list \<Rightarrow> byte list" where
  "data_in sid tr = concat (map (in_data sid) tr)"

fun item_data :: "cbItem \<Rightarrow> byte list" where
  "item_data (CbData df) = df_h df @ df_d df"
| "item_data _ = []"

definition data_of :: "cbItem list \<Rightarrow> byte list" where
  "data_of q = concat (map item_data q)"

fun names :: "cbItem \<Rightarrow> u32 list" where
  "names (CbRegisterStream sid wq) = [sid]"
| "names (CbHeader h) = [hf_streamID h]"
| "names (CbData df) = [df_streamID df]"
| "names _ = []"

definition named :: "cbItem list \<Rightarrow> u32 list" where
  "named tr = concat (map names tr)"

lemma trace_simps [simp]:
  "sent_on sid [] = []" "sent_on sid (cs @ ds) = sent_on sid cs @ sent_on sid ds" "sent_on sid (c # cs) = data_bytes sid c @ sent_on sid cs"
  "sent_total [] = 0" "sent_total (cs @ ds) = sent_total cs + sent_total ds" "sent_total (c # cs) = data_len c + sent_total cs"
  "inc_on sid [] = 0" "inc_on sid (tr @ [it]) = inc_on sid tr + inc_of sid it"
  "data_in sid [] = []" "data_in sid (tr @ [it]) = data_in sid tr @ in_data sid it"
  "data_of [] = []" "data_of (x # q) = item_data x @ data_of q" "data_of (q @ q') = data_of q @ data_of q'"
  "named [] = []" "named (tr @ [it]) = named tr @ names it"
  by (simp_all add: sent_on_def sent_total_def inc_on_def data_in_def data_of_def named_def)

lemma inc_nonneg [simp]: "0 \<le> inc_of sid it" "0 \<le> inc_on sid tr"
proof -
  show i: "0 \<le> inc_of sid it" for it by (cases it) auto
  show "0 \<le> inc_on sid tr" by (induction tr) (auto simp: inc_on_def i)
qed

lemma data_in_named: "sid \<notin> set (named tr) \<Longrightarrow> data_in sid tr = []"
proof (induction tr rule: rev_induct)
  case (snoc it tr)
  then show ?case by (cases it) auto
qed simp

fun is_data_cmd :: "wcmd \<Rightarrow> bool" where
  "is_data_cmd (WData s es d) = True"
| "is_data_cmd _ = False"

definition no_data :: "wcmd list \<Rightarrow> bool" where
  "no_data cs = list_all (\<lambda>c. \<not> is_data_cmd c) cs"

lemma no_data_simps [simp]: "no_data []" "no_data (c # cs) \<longleftrightarrow> \<not> is_data_cmd c \<and> no_data cs"
  "no_data (cs @ ds) \<longleftrightarrow> no_data cs \<and> no_data ds"
  by (auto simp: no_data_def)

lemma no_data_sent: "no_data cs \<Longrightarrow> sent_on sid cs = [] \<and> sent_total cs = 0 \<and> (\<forall>c\<in>set cs. data_len c = 0)"
proof (induction cs)
  case (Cons c cs)
  then show ?case by (cases c) auto
qed simp

section \<open>The invariant\<close>

fun is_data_item :: "cbItem \<Rightarrow> bool" where
  "is_data_item (CbData df) = True"
| "is_data_item _ = False"

text \<open>The items a stream's list holds: its own data, and trailers that end in its own cleanup.\<close>

fun own_item :: "u32 \<Rightarrow> cbItem \<Rightarrow> bool" where
  "own_item sid (CbData df) \<longleftrightarrow> df_streamID df = sid"
| "own_item sid (CbHeader h) \<longleftrightarrow> (case hf_cleanup h of Some c \<Rightarrow> cs_streamID c = sid | None \<Rightarrow> False)"
| "own_item sid _ \<longleftrightarrow> False"

definition base_ok :: "cbItem list \<Rightarrow> ('h, 'f) loopyWriter \<Rightarrow> u32 \<Rightarrow> nat \<Rightarrow> cbItem list \<Rightarrow> bool" where
  "base_ok tr l sid a q \<longleftrightarrow> tail_addr < a \<and> a < l_fresh l \<and> str_id (l_obj l a) = sid \<and> il_R (str_itl (l_obj l a)) q
     \<and> (\<forall>x\<in>set q. own_item sid x)
     \<and> int (length (sent_on sid (l_sent l))) \<le> str_bytesOutStanding (l_obj l a) + inc_on sid tr
     \<and> sent_on sid (l_sent l) @ data_of q = data_in sid tr"

definition state_ok :: "('h, 'f) loopyWriter \<Rightarrow> nat \<Rightarrow> cbItem list \<Rightarrow> bool" where
  "state_ok l a q \<longleftrightarrow> (str_state (l_obj l a) = st_empty \<longleftrightarrow> q = []) \<and> (q \<noteq> [] \<longrightarrow> is_data_item (hd q))
     \<and> (str_state (l_obj l a) = st_waitingOnStreamQuota \<longrightarrow> uint (l_oiws l) \<le> str_bytesOutStanding (l_obj l a))"

text \<open>
  \<open>tr\<close> are the items handled so far, \<open>Q a\<close> the queue of the stream at \<open>a\<close>, \<open>xs\<close> the active streams; the streams in
  \<open>D\<close> are being worked on and are exempt from the conditions on their state.
\<close>

definition lw_inv :: "cbItem list \<Rightarrow> ('h, 'f) loopyWriter \<Rightarrow> (nat \<Rightarrow> cbItem list) \<Rightarrow> nat list \<Rightarrow> nat set \<Rightarrow> bool" where
  "lw_inv tr l Q xs D \<longleftrightarrow> dll (l_active l) xs \<and> tail_addr < l_fresh l \<and> distinct (map fst (l_estd l))
     \<and> (\<forall>sid a. (sid, a) \<in> set (l_estd l) \<longrightarrow>
          base_ok tr l sid a (Q a) \<and> (a \<notin> D \<longrightarrow> state_ok l a (Q a)) \<and> sid \<noteq> 0 \<and> sid \<in> set (named tr))
     \<and> set xs = {a. (\<exists>sid. (sid, a) \<in> set (l_estd l)) \<and> str_state (l_obj l a) = st_active} - D
     \<and> (\<forall>sid. sent_on sid (l_sent l) \<noteq> [] \<longrightarrow> sid \<in> set (named tr))
     \<and> uint (l_sendQuota l) + int (sent_total (l_sent l)) \<le> 65535 + inc_on 0 tr
     \<and> (\<forall>c\<in>set (l_sent l). data_len c \<le> http2MaxFrameLen)"

lemma lw_inv_new: "lw_inv [] (newLoopyWriter s fr h est) Q [] {}"
  by (simp add: lw_inv_def newLoopyWriter_def dll_new defaultWindowSize_def)

lemma lw_invD:
  assumes "lw_inv tr l Q xs D"
  shows "dll (l_active l) xs" "tail_addr < l_fresh l" "distinct (map fst (l_estd l))"
    "(sid, a) \<in> set (l_estd l) \<Longrightarrow> base_ok tr l sid a (Q a)"
    "(sid, a) \<in> set (l_estd l) \<Longrightarrow> a \<notin> D \<Longrightarrow> state_ok l a (Q a)"
    "(sid, a) \<in> set (l_estd l) \<Longrightarrow> sid \<noteq> 0 \<and> sid \<in> set (named tr)"
    "set xs = {a. (\<exists>sid. (sid, a) \<in> set (l_estd l)) \<and> str_state (l_obj l a) = st_active} - D"
    "sent_on sid (l_sent l) \<noteq> [] \<Longrightarrow> sid \<in> set (named tr)"
    "uint (l_sendQuota l) + int (sent_total (l_sent l)) \<le> 65535 + inc_on 0 tr"
    "c \<in> set (l_sent l) \<Longrightarrow> data_len c \<le> http2MaxFrameLen"
  using assms unfolding lw_inv_def by blast+

lemma lw_invI:
  assumes "dll (l_active l) xs" "tail_addr < l_fresh l" "distinct (map fst (l_estd l))"
    "\<And>sid a. (sid, a) \<in> set (l_estd l) \<Longrightarrow> base_ok tr l sid a (Q a)"
    "\<And>sid a. (sid, a) \<in> set (l_estd l) \<Longrightarrow> a \<notin> D \<Longrightarrow> state_ok l a (Q a)"
    "\<And>sid a. (sid, a) \<in> set (l_estd l) \<Longrightarrow> sid \<noteq> 0 \<and> sid \<in> set (named tr)"
    "set xs = {a. (\<exists>sid. (sid, a) \<in> set (l_estd l)) \<and> str_state (l_obj l a) = st_active} - D"
    "\<And>sid. sent_on sid (l_sent l) \<noteq> [] \<Longrightarrow> sid \<in> set (named tr)"
    "uint (l_sendQuota l) + int (sent_total (l_sent l)) \<le> 65535 + inc_on 0 tr"
    "\<And>c. c \<in> set (l_sent l) \<Longrightarrow> data_len c \<le> http2MaxFrameLen"
  shows "lw_inv tr l Q xs D"
  using assms unfolding lw_inv_def by blast

lemma base_mono:
  "base_ok tr l sid a q \<Longrightarrow> data_in sid tr' = data_in sid tr \<Longrightarrow> inc_on sid tr \<le> inc_on sid tr' \<Longrightarrow> base_ok tr' l sid a q"
  by (auto simp: base_ok_def)

lemma base_cong:
  "l_obj l' a = l_obj l a \<Longrightarrow> l_fresh l \<le> l_fresh l' \<Longrightarrow> sent_on sid (l_sent l') = sent_on sid (l_sent l)
   \<Longrightarrow> base_ok tr l sid a q \<Longrightarrow> base_ok tr l' sid a q"
  by (auto simp: base_ok_def)

lemma state_cong: "l_obj l' a = l_obj l a \<Longrightarrow> l_oiws l' = l_oiws l \<Longrightarrow> state_ok l' a q = state_ok l a q"
  by (simp add: state_ok_def)

lemma ok_simps [simp]:
  "base_ok tr (l\<lparr>l_active := q\<rparr>) sid a x = base_ok tr l sid a x" "state_ok (l\<lparr>l_active := q\<rparr>) a x = state_ok l a x"
  "base_ok tr (l\<lparr>l_estd := e\<rparr>) sid a x = base_ok tr l sid a x" "state_ok (l\<lparr>l_estd := e\<rparr>) a x = state_ok l a x"
  "base_ok tr (l\<lparr>l_sendQuota := n\<rparr>) sid a x = base_ok tr l sid a x" "state_ok (l\<lparr>l_sendQuota := n\<rparr>) a x = state_ok l a x"
  "base_ok tr (l\<lparr>l_estd := e, l_active := q\<rparr>) sid a x = base_ok tr l sid a x"
  "state_ok (l\<lparr>l_estd := e, l_active := q\<rparr>) a x = state_ok l a x"
  by (simp_all add: base_ok_def state_ok_def)

text \<open>Writing frames other than DATA, and changes of the fields the invariant does not mention.\<close>

definition wr_ext :: "('h, 'f) loopyWriter \<Rightarrow> ('h, 'f) loopyWriter \<Rightarrow> bool" where
  "wr_ext l l' \<longleftrightarrow> l_obj l' = l_obj l \<and> l_estd l' = l_estd l \<and> l_active l' = l_active l \<and> l_oiws l' = l_oiws l
     \<and> l_sendQuota l' = l_sendQuota l \<and> l_fresh l' = l_fresh l \<and> l_side l' = l_side l
     \<and> (\<exists>cs. no_data cs \<and> l_sent l' = l_sent l @ cs)"

lemma wr_ext_intros [intro, simp]:
  "wr_ext l l" "wr_ext l (l\<lparr>l_framer := fr\<rparr>)" "wr_ext l (l\<lparr>l_hEnc := h\<rparr>)" "wr_ext l (l\<lparr>l_draining := dr\<rparr>)" "wr_ext l (l\<lparr>l_bdpEst := be\<rparr>)"
  "\<not> is_data_cmd c \<Longrightarrow> wr_ext l (l\<lparr>l_framer := fr, l_sent := l_sent l @ [c]\<rparr>)"
  by (auto simp: wr_ext_def intro: exI[of _ "[]"])

lemma wr_ext_trans: "wr_ext l l' \<Longrightarrow> wr_ext l' l'' \<Longrightarrow> wr_ext l l''"
  by (auto simp: wr_ext_def)

lemma wr_ext_same:
  "wr_ext l l' \<Longrightarrow> l_obj l' = l_obj l \<and> l_estd l' = l_estd l \<and> l_active l' = l_active l \<and> l_oiws l' = l_oiws l
     \<and> l_sendQuota l' = l_sendQuota l \<and> l_fresh l' = l_fresh l \<and> l_side l' = l_side l
     \<and> (\<forall>sid. sent_on sid (l_sent l') = sent_on sid (l_sent l)) \<and> sent_total (l_sent l') = sent_total (l_sent l)"
  by (auto simp: wr_ext_def no_data_sent)

lemma inv_ext:
  assumes "lw_inv tr l Q xs D" "wr_ext l l'"
  shows "lw_inv tr l' Q xs D"
proof -
  note e = wr_ext_same[OF assms(2)]
  have "data_len c \<le> http2MaxFrameLen" if "c \<in> set (l_sent l')" for c
    using assms that no_data_sent by (fastforce simp: wr_ext_def lw_inv_def)
  moreover have "base_ok tr l' sid a q = base_ok tr l sid a q" for sid a q using e by (simp add: base_ok_def)
  moreover have "state_ok l' a q = state_ok l a q" for a q using e by (simp add: state_ok_def)
  ultimately show ?thesis using assms(1) e by (simp add: lw_inv_def)
qed

text \<open>The trace grows by items that bring no data for other streams than \<open>sid\<close>.\<close>

definition tr_le :: "u32 \<Rightarrow> cbItem list \<Rightarrow> cbItem list \<Rightarrow> bool" where
  "tr_le sid tr tr' \<longleftrightarrow> (\<forall>s. s \<noteq> sid \<longrightarrow> data_in s tr' = data_in s tr) \<and> (\<forall>s. inc_on s tr \<le> inc_on s tr')
     \<and> set (named tr) \<subseteq> set (named tr')"

lemma tr_le_refl [simp]: "tr_le sid tr tr"
  by (simp add: tr_le_def)

lemma tr_le_item: "(\<And>s. s \<noteq> sid \<Longrightarrow> in_data s it = []) \<Longrightarrow> tr_le sid tr (tr @ [it])"
  by (auto simp: tr_le_def)

lemma inv_trace:
  assumes "lw_inv tr l Q xs D" "tr_le sid tr tr'" "\<And>a. (sid, a) \<in> set (l_estd l) \<Longrightarrow> data_in sid tr' = data_in sid tr"
  shows "lw_inv tr' l Q xs D"
proof -
  note t = assms(2)[unfolded tr_le_def]
  have "base_ok tr' l s a (Q a)" if "(s, a) \<in> set (l_estd l)" for s a
    using base_mono[OF lw_invD(4)[OF assms(1) that]] assms(3) t that by metis
  moreover have "uint (l_sendQuota l) + int (sent_total (l_sent l)) \<le> 65535 + inc_on 0 tr'"
    using lw_invD(9)[OF assms(1)] t by (meson add_left_mono order_trans)
  ultimately show ?thesis using assms(1) t unfolding lw_inv_def by (auto simp: subset_iff)
qed

lemma estd_unique:
  assumes "lw_inv tr l Q xs D" "(sid, a) \<in> set (l_estd l)" "(sid', a') \<in> set (l_estd l)"
  shows "sid = sid' \<longleftrightarrow> a = a'"
proof
  assume "a = a'"
  then show "sid = sid'" using lw_invD(4)[OF assms(1,2)] lw_invD(4)[OF assms(1,3)] by (auto simp: base_ok_def)
next
  assume "sid = sid'"
  then show "a = a'" using assms(2,3) lw_invD(3)[OF assms(1)] by (auto dest: eq_key_imp_eq_value)
qed

text \<open>Replacing the object of one stream.\<close>

lemma inv_upd_detached:
  assumes "lw_inv tr l Q xs D" "(sid, a) \<in> set (l_estd l)" "a \<notin> set xs" "tr_le sid tr tr'"
    and "base_ok tr' (l\<lparr>l_obj := (l_obj l)(a := s)\<rparr>) sid a q"
  shows "lw_inv tr' (l\<lparr>l_obj := (l_obj l)(a := s)\<rparr>) (Q(a := q)) xs (insert a D)"
proof -
  have u: "s' = sid" if "(s', a) \<in> set (l_estd l)" for s' using estd_unique[OF assms(1) that assms(2)] by simp
  have i: "inc_on s tr \<le> inc_on s tr'" for s using assms(4) by (auto simp: tr_le_def)
  have "base_ok tr' (l\<lparr>l_obj := (l_obj l)(a := s)\<rparr>) s' b (Q b)" if "(s', b) \<in> set (l_estd l)" "b \<noteq> a" for s' b
  proof -
    have "s' \<noteq> sid" using estd_unique[OF assms(1) that(1) assms(2)] that(2) by simp
    then have "data_in s' tr' = data_in s' tr" using assms(4) by (auto simp: tr_le_def)
    moreover have "base_ok tr l s' b (Q b)" using assms(1) that by (auto simp: lw_inv_def)
    ultimately show ?thesis using that(2) i[of s'] by (auto simp: base_ok_def)
  qed
  note base = this
  have n: "set (named tr) \<subseteq> set (named tr')" using assms(4) by (auto simp: tr_le_def)
  let ?l = "l\<lparr>l_obj := (l_obj l)(a := s)\<rparr>"
  show ?thesis
  proof (rule lw_invI)
    show "base_ok tr' ?l s' b ((Q(a := q)) b)" if "(s', b) \<in> set (l_estd ?l)" for s' b
      using base[of s' b] assms(5) u that by (cases "b = a") auto
    show "state_ok ?l b ((Q(a := q)) b)" if "(s', b) \<in> set (l_estd ?l)" "b \<notin> insert a D" for s' b
      using lw_invD(5)[OF assms(1), of s' b] that by (simp add: state_ok_def)
    show "set xs = {b. (\<exists>s'. (s', b) \<in> set (l_estd ?l)) \<and> str_state (l_obj ?l b) = st_active} - insert a D"
      using lw_invD(7)[OF assms(1)] assms(3) by auto
    show "uint (l_sendQuota ?l) + int (sent_total (l_sent ?l)) \<le> 65535 + inc_on 0 tr'"
      using lw_invD(9)[OF assms(1)] i[of 0] by simp
    show "s' \<noteq> 0 \<and> s' \<in> set (named tr')" if "(s', b) \<in> set (l_estd ?l)" for s' b
      using lw_invD(6)[OF assms(1), of s' b] that n by auto
    show "s' \<in> set (named tr')" if "sent_on s' (l_sent ?l) \<noteq> []" for s'
      using lw_invD(8)[OF assms(1), of s'] that n by auto
    show "data_len c \<le> http2MaxFrameLen" if "c \<in> set (l_sent ?l)" for c
      using lw_invD(10)[OF assms(1), of c] that by simp
  qed (simp_all add: lw_invD(1-3)[OF assms(1)])
qed

text \<open>A stream whose state is in order again, inactive or active.\<close>

lemma inv_attach_idle:
  assumes "lw_inv tr l Q xs {a}" "(sid, a) \<in> set (l_estd l)" "state_ok l a (Q a)" "str_state (l_obj l a) \<noteq> st_active"
  shows "lw_inv tr l Q xs {}"
  using assms unfolding lw_inv_def by auto

lemma inv_drop_detached:
  assumes "lw_inv tr l Q xs {a}" "\<And>sid. (sid, a) \<notin> set (l_estd l)"
  shows "lw_inv tr l Q xs {}"
  using assms unfolding lw_inv_def by auto

lemma inv_activate:
  assumes "lw_inv tr l Q xs {a}" "(sid, a) \<in> set (l_estd l)" "state_ok l a (Q a)" "str_state (l_obj l a) = st_active"
  shows "\<exists>q. lw_activate a l = (Ok (), l\<lparr>l_active := q\<rparr>) \<and> lw_inv tr (l\<lparr>l_active := q\<rparr>) Q (xs @ [a]) {}"
proof -
  have "tail_addr < a" "a \<notin> set xs" using lw_invD(4)[OF assms(1,2)] lw_invD(7)[OF assms(1)] by (auto simp: base_ok_def)
  then obtain q where q: "osl_enqueue a (l_active l) = Some q" "dll q (xs @ [a])"
    using osw.R_enq[OF lw_invD(1)[OF assms(1)]] by blast
  have "lw_inv tr (l\<lparr>l_active := q\<rparr>) Q (xs @ [a]) {}"
    using assms q(2) unfolding lw_inv_def by auto
  with q(1) show ?thesis by (auto simp: lw_activate_def)
qed

lemma inv_deq:
  assumes "lw_inv tr l Q (a # xs) {}"
  shows "\<exists>q sid. osl_dequeue (l_active l) = Some (Some a, q) \<and> lw_inv tr (l\<lparr>l_active := q\<rparr>) Q xs {a}
     \<and> (sid, a) \<in> set (l_estd l) \<and> state_ok l a (Q a) \<and> str_state (l_obj l a) = st_active"
proof -
  obtain q where q: "osl_dequeue (l_active l) = Some (Some a, q)" "dll q xs"
    using osw.R_deq_Cons[OF lw_invD(1)[OF assms]] by blast
  have a: "a \<in> {a. (\<exists>sid. (sid, a) \<in> set (l_estd l)) \<and> str_state (l_obj l a) = st_active}"
    using lw_invD(7)[OF assms] by auto
  then obtain sid where sid: "(sid, a) \<in> set (l_estd l)" "str_state (l_obj l a) = st_active" by auto
  have "a \<notin> set xs" using osw.R_distinct[OF lw_invD(1)[OF assms]] by simp
  then have xs: "set xs = set (a # xs) - {a}" by auto
  have "lw_inv tr (l\<lparr>l_active := q\<rparr>) Q xs {a}"
    using assms q(2) lw_invD(7)[OF assms] unfolding lw_inv_def xs by auto
  with q sid lw_invD(5)[OF assms sid(1)] show ?thesis by auto
qed

text \<open>Ending a stream.\<close>

lemma set_delete: "set (AList.delete k al) = {(k', v). (k', v) \<in> set al \<and> k' \<noteq> k}"
  by (auto simp: AList.delete_eq)

lemma inv_remove:
  assumes "lw_inv tr l Q xs D" "map_of (l_estd l) sid = Some a"
  shows "lw_inv tr (l\<lparr>l_estd := AList.delete sid (l_estd l), l_active := deleteSelf a (l_active l)\<rparr>) Q (removeAll a xs) D"
proof -
  have m: "(sid, a) \<in> set (l_estd l)" using assms(2) by (rule map_of_SomeD)
  have u: "(s, b) \<in> set (l_estd l) \<Longrightarrow> s = sid \<longleftrightarrow> b = a" for s b using estd_unique[OF assms(1) _ m] by blast
  have "dll (deleteSelf a (l_active l)) (removeAll a xs)"
    using osw.R_del[OF lw_invD(1)[OF assms(1)]] lw_invD(4)[OF assms(1) m] by (auto simp: base_ok_def)
  moreover have "distinct (map fst (AList.delete sid (l_estd l)))"
    using lw_invD(3)[OF assms(1)] by (rule distinct_delete)
  moreover have "set (removeAll a xs)
      = {b. (\<exists>s. (s, b) \<in> set (AList.delete sid (l_estd l))) \<and> str_state (l_obj l b) = st_active} - D"
    using lw_invD(7)[OF assms(1)] u by (auto simp: set_delete)
  ultimately show ?thesis
  proof (intro lw_invI)
    fix s b
    assume "(s, b) \<in> set (l_estd (l\<lparr>l_estd := AList.delete sid (l_estd l), l_active := deleteSelf a (l_active l)\<rparr>))"
    then have m: "(s, b) \<in> set (l_estd l)" by (simp add: set_delete)
    show "s \<noteq> 0 \<and> s \<in> set (named tr)" using lw_invD(6)[OF assms(1) m] .
    show "b \<notin> D \<Longrightarrow> state_ok (l\<lparr>l_estd := AList.delete sid (l_estd l), l_active := deleteSelf a (l_active l)\<rparr>) b (Q b)"
      using lw_invD(5)[OF assms(1) m] by simp
    show "base_ok tr (l\<lparr>l_estd := AList.delete sid (l_estd l), l_active := deleteSelf a (l_active l)\<rparr>) s b (Q b)"
      using lw_invD(4)[OF assms(1) m] by simp
  qed (simp_all add: lw_invD(2)[OF assms(1)] lw_invD(8)[OF assms(1)] lw_invD(9)[OF assms(1)] lw_invD(10)[OF assms(1)])
qed

lemma cleanup_wp:
  assumes "lw_inv tr l Q xs D"
  shows "wp (cleanupStreamHandler (Some c))
     (\<lambda>_ l'. \<exists>xs'. lw_inv tr l' Q xs' D \<and> l_estd l' = AList.delete (cs_streamID c) (l_estd l))
     (\<lambda>l'. \<exists>xs'. lw_inv tr l' Q xs' D \<and> l_estd l' = AList.delete (cs_streamID c) (l_estd l)) l"
proof -
  let ?l = "case map_of (l_estd l) (cs_streamID c) of
      Some a \<Rightarrow> l\<lparr>l_estd := AList.delete (cs_streamID c) (l_estd l), l_active := deleteSelf a (l_active l)\<rparr> | None \<Rightarrow> l"
  have "\<exists>xs'. lw_inv tr ?l Q xs' D"
  proof (cases "map_of (l_estd l) (cs_streamID c)")
    case None
    with assms show ?thesis by auto
  next
    case (Some a)
    with inv_remove[OF assms Some] show ?thesis by auto
  qed
  then obtain xs' where i: "lw_inv tr ?l Q xs' D" ..
  have e: "l_estd ?l = AList.delete (cs_streamID c) (l_estd l)"
  proof (cases "map_of (l_estd l) (cs_streamID c)")
    case None
    then have "cs_streamID c \<notin> fst ` set (l_estd l)" by (simp add: map_of_eq_None_iff)
    then have "AList.delete (cs_streamID c) (l_estd l) = l_estd l" by (force simp: AList.delete_eq intro!: filter_True)
    with None show ?thesis by simp
  qed simp
  define l1 where "l1 = ?l"
  let ?P = "\<lambda>l'. \<exists>xs'. lw_inv tr l' Q xs' D \<and> l_estd l' = AList.delete (cs_streamID c) (l_estd l)"
  let ?rst = "if cs_rst c then lw_write (WRST (cs_streamID c) (cs_rstCode c)) else ret ()"
  have p: "?P l'" if "wr_ext l1 l'" for l'
    using inv_ext[OF i[folded l1_def] that] wr_ext_same[OF that] e[folded l1_def] by metis
  have r: "wp ?rst (\<lambda>_. wr_ext l1) (wr_ext l1) l1"
    by (cases "cs_rst c") (simp_all add: wp_write)
  have "wp (bindP ?rst
      (\<lambda>_ l. if l_side l = clientSide \<and> l_draining l \<and> l_estd l = [] then (Err LConnClosing, l) else (Ok (), l)))
      (\<lambda>_. ?P) ?P l1"
    unfolding wp_bind by (rule wp_mono[OF r]; drule p; auto simp: wp_def)
  then show ?thesis by (simp add: wp_def cleanupStreamHandler_def Let_def l1_def)
qed

section \<open>Header blocks\<close>

text \<open>The frames of a header block: one HEADERS frame and as many CONTINUATION frames as the block needs.\<close>

function header_cmds :: "u32 \<Rightarrow> bool \<Rightarrow> bool \<Rightarrow> byte list \<Rightarrow> wcmd list" where
  "header_cmds sid es first buf =
     (if length buf > http2MaxFrameLen then
        header_cmd sid es first False (take http2MaxFrameLen buf) # header_cmds sid es False (drop http2MaxFrameLen buf)
      else [header_cmd sid es first True buf])"
  by pat_completeness auto

termination
  by (relation "measure (\<lambda>(_, _, _, buf). length buf)") (auto simp: http2MaxFrameLen_def)

declare header_cmds.simps [simp del]

lemma header_cmd_no_data [simp]: "\<not> is_data_cmd (header_cmd sid es first eh frag)"
  by (simp add: header_cmd_def)

lemma header_cmds_no_data [simp]: "no_data (header_cmds sid es first buf)"
  by (induction sid es first buf rule: header_cmds.induct) (subst header_cmds.simps, simp)

text \<open>Success writes the whole block, failure a prefix of it; nothing else of the writer changes.\<close>

lemma writeFragments_wp:
  "wp (writeFragments sid es first buf)
     (\<lambda>_ l'. \<exists>fr. l' = l\<lparr>l_framer := fr, l_sent := l_sent l @ header_cmds sid es first buf\<rparr>)
     (wr_ext l) (l :: ('h, 'f) loopyWriter)"
proof (induction sid es first buf arbitrary: l rule: header_cmds.induct)
  case (1 sid es first buf)
  show ?case
  proof (cases "length buf > http2MaxFrameLen")
    case True
    let ?c = "header_cmd sid es first False (take http2MaxFrameLen buf)"
    have e: "wr_ext l (l\<lparr>l_framer := fr, l_sent := l_sent l @ [?c]\<rparr>)" for fr by simp
    have "wp (writeFragments sid es False (drop http2MaxFrameLen buf))
        (\<lambda>_ l'. \<exists>fr. l' = l\<lparr>l_framer := fr, l_sent := l_sent l @ header_cmds sid es first buf\<rparr>) (wr_ext l)
        (l\<lparr>l_framer := fr, l_sent := l_sent l @ [?c]\<rparr>)" for fr
      by (rule wp_mono[OF 1[OF True]]) (use True in \<open>auto simp: header_cmds.simps[of sid es first] intro: wr_ext_trans[OF e]\<close>)
    then show ?thesis
      using True by (simp add: writeFragments.simps[of sid es first] wp_bind wp_write)
  next
    case False
    then show ?thesis
      by (simp add: writeFragments.simps[of sid es first] header_cmds.simps[of sid es first]) (rule wp_write, auto)
  qed
qed

lemma writeHeader_wp: "wp (writeHeader env sid es hf) (\<lambda>_. wr_ext l) (wr_ext l) (l :: ('h, 'f) loopyWriter)"
proof -
  obtain buf h where b: "encodeFields (e_hpack env) hf (l_hEnc l) = (buf, h)" by fastforce
  have "wp (writeFragments sid es True buf) (\<lambda>_. wr_ext l) (wr_ext l) (l\<lparr>l_hEnc := h\<rparr>)"
    by (rule wp_mono[OF writeFragments_wp[of sid es True buf "l\<lparr>l_hEnc := h\<rparr>"]])
      (auto simp: wr_ext_def)
  then show ?thesis using b by (simp add: wp_def writeHeader_def)
qed

section \<open>Handlers keep the invariant\<close>

text \<open>A write of another frame than DATA.\<close>

lemma write_inv: "lw_inv tr l Q xs D \<Longrightarrow> \<not> is_data_cmd c \<Longrightarrow> wp (lw_write c) (\<lambda>_ l'. lw_inv tr l' Q xs D) (\<lambda>_. True) l"
  by (rule wp_write) (auto intro: inv_ext)

lemma write_all_ext: "no_data cs \<Longrightarrow> wp (lw_write_all cs) (\<lambda>_. wr_ext l) (wr_ext l) l"
proof (induction cs arbitrary: l)
  case (Cons c cs)
  have e: "wr_ext l (l\<lparr>l_framer := fr, l_sent := l_sent l @ [c]\<rparr>)" for fr using Cons.prems by simp
  have "wp (lw_write_all cs) (\<lambda>_. wr_ext l) (wr_ext l) (l\<lparr>l_framer := fr, l_sent := l_sent l @ [c]\<rparr>)" for fr
    by (rule wp_mono[OF Cons.IH]) (use Cons.prems in \<open>auto intro: wr_ext_trans[OF e]\<close>)
  then show ?case by (simp add: wp_bind wp_write)
qed simp

lemma inv_set_state:
  assumes "lw_inv tr l Q xs {a}" "(sid, a) \<in> set (l_estd l)"
  shows "lw_inv tr (upd_str a (\<lambda>s. s\<lparr>str_state := st\<rparr>) l) Q xs {a}"
proof -
  have "base_ok tr (l\<lparr>l_obj := (l_obj l)(a := (l_obj l a)\<lparr>str_state := st\<rparr>)\<rparr>) sid a (Q a)"
    using lw_invD(4)[OF assms] by (simp add: base_ok_def)
  moreover have "a \<notin> set xs" using lw_invD(7)[OF assms(1)] by simp
  ultimately show ?thesis using inv_upd_detached[OF assms _ tr_le_refl] by (simp add: upd_str_def) (metis fun_upd_triv)
qed

lemma upd_str_sel [simp]:
  "l_obj (upd_str a f l) = (l_obj l)(a := f (l_obj l a))" "l_estd (upd_str a f l) = l_estd l" "l_oiws (upd_str a f l) = l_oiws l"
  "l_sendQuota (upd_str a f l) = l_sendQuota l" "l_sent (upd_str a f l) = l_sent l" "l_active (upd_str a f l) = l_active l"
  "l_side (upd_str a f l) = l_side l" "l_fresh (upd_str a f l) = l_fresh l"
  by (simp_all add: upd_str_def)

text \<open>The post-condition of a step that keeps the invariant.\<close>

definition keeps :: "cbItem list \<Rightarrow> ('h, 'f) loopyWriter \<Rightarrow> bool" where
  "keeps tr l = (\<exists>Q xs. lw_inv tr l Q xs {})"

lemma keepsI: "lw_inv tr l Q xs {} \<Longrightarrow> keeps tr l"
  by (auto simp: keeps_def)

lemma keepsE: "keeps tr l \<Longrightarrow> (\<And>Q xs. lw_inv tr l Q xs {} \<Longrightarrow> thesis) \<Longrightarrow> thesis"
  by (auto simp: keeps_def)

lemma park_inv:
  assumes "lw_inv tr l Q xs {a}" "(sid, a) \<in> set (l_estd l)"
    and "st = st_empty \<and> Q a = [] \<or> st = st_waitingOnStreamQuota \<and> Q a \<noteq> [] \<and> is_data_item (hd (Q a))
           \<and> uint (l_oiws l) \<le> str_bytesOutStanding (l_obj l a)"
  shows "lw_inv tr (upd_str a (\<lambda>s. s\<lparr>str_state := st\<rparr>) l) Q xs {}"
  by (rule inv_attach_idle[OF inv_set_state[OF assms(1,2), of st]]) (use assms(2,3) in \<open>auto simp: state_ok_def\<close>)

lemma peek_item:
  assumes "lw_inv tr l Q xs D" "(sid, a) \<in> set (l_estd l)"
  shows "isEmpty (str_itl (l_obj l a)) \<longleftrightarrow> Q a = []"
    "Q a = x # q \<Longrightarrow> peek (str_itl (l_obj l a)) = Some x \<and> own_item sid x"
  using lw_invD(4)[OF assms] ilq.R_empty[of "str_itl (l_obj l a)" "Q a"] il_R_peek[of "str_itl (l_obj l a)" "Q a"]
  by (auto simp: base_ok_def)

text \<open>Trailers: the header block goes out and the stream is cleaned up.\<close>

lemma trailers_wp:
  assumes "lw_inv tr l Q xs {a}" "(sid, a) \<in> set (l_estd l)" "own_item sid (CbHeader t)"
  shows "wp (writeHeader env i e f) (\<lambda>_. wp (cleanupStreamHandler (hf_cleanup t)) (\<lambda>_. keeps tr) (keeps tr)) (\<lambda>_. True) l"
proof (rule wp_mono[OF writeHeader_wp])
  fix l'
  assume e: "wr_ext l l'"
  obtain c where c: "hf_cleanup t = Some c" "cs_streamID c = sid" using assms(3) by (auto split: option.splits)
  have "keeps tr l2" if i: "\<exists>xs'. lw_inv tr l2 Q xs' {a} \<and> l_estd l2 = AList.delete sid (l_estd l')" for l2
  proof -
    obtain xs' where x: "lw_inv tr l2 Q xs' {a}" "l_estd l2 = AList.delete sid (l_estd l)"
      using i wr_ext_same[OF e] by auto
    have "(s, a) \<notin> set (l_estd l2)" for s
      using estd_unique[OF assms(1) _ assms(2), of s] by (auto simp: x(2) set_delete)
    then show ?thesis using inv_drop_detached[OF x(1)] by (auto intro: keepsI)
  qed
  note k = this
  show "wp (cleanupStreamHandler (hf_cleanup t)) (\<lambda>_. keeps tr) (keeps tr) l'"
    unfolding c(1) by (rule wp_mono[OF cleanup_wp[OF inv_ext[OF assms(1) e], of c]]; rule k; simp add: c(2))
qed simp

lemma activate_wp:
  assumes "lw_inv tr l Q xs {a}" "(sid, a) \<in> set (l_estd l)" "str_state (l_obj l a) = st_active"
    and "Q a \<noteq> []" "is_data_item (hd (Q a))"
  shows "wp (bindP (lw_activate a) (\<lambda>_. ret x)) (\<lambda>_. keeps tr) E l"
proof -
  have "state_ok l a (Q a)" using assms(3-5) by (simp add: state_ok_def)
  from inv_activate[OF assms(1,2) this assms(3)] obtain q where
    q: "lw_activate a l = (Ok (), l\<lparr>l_active := q\<rparr>)" "lw_inv tr (l\<lparr>l_active := q\<rparr>) Q (xs @ [a]) {}" by blast
  show ?thesis unfolding wp_def using q(1) keepsI[OF q(2)] by (simp add: bindP_def ret_def)
qed

lemma park_wp:
  assumes "p l = (Ok x, upd_str a (\<lambda>s. s\<lparr>str_state := st\<rparr>) l)" "lw_inv tr l Q xs {a}" "(sid, a) \<in> set (l_estd l)"
    and "st = st_empty \<and> Q a = [] \<or> st = st_waitingOnStreamQuota \<and> Q a \<noteq> [] \<and> is_data_item (hd (Q a))
           \<and> uint (l_oiws l) \<le> str_bytesOutStanding (l_obj l a)"
  shows "wp p (\<lambda>_. keeps tr) E l"
  using keepsI[OF park_inv[OF assms(2-4)]] assms(1) by (simp add: wp_def)

lemma requeue_wp:
  assumes "lw_inv tr l Q xs {a}" "(sid, a) \<in> set (l_estd l)" "str_state (l_obj l a) = st_active"
  shows "wp (requeue env a) (\<lambda>_. keeps tr) (\<lambda>_. True) l"
proof (cases "Q a")
  case Nil
  then show ?thesis using peek_item(1)[OF assms(1,2)] by (intro park_wp[OF _ assms(1,2)]) (auto simp: requeue_def)
next
  case (Cons x q)
  note p = peek_item(1)[OF assms(1,2)] peek_item(2)[OF assms(1,2) Cons]
  show ?thesis
  proof (cases x)
    case (CbHeader t)
    have "wp (bindP (writeHeader env (hf_streamID t) (hf_endStream t) (hf_hf t))
        (\<lambda>_. bindP (cleanupStreamHandler (hf_cleanup t)) (\<lambda>_. ret False))) (\<lambda>_. keeps tr) (\<lambda>_. True) l"
      unfolding wp_bind wp_ret
      by (rule wp_mono[OF trailers_wp[OF assms(1,2)]]) (use p CbHeader in \<open>auto elim: wp_mono\<close>)
    then show ?thesis using p Cons CbHeader by (simp add: wp_def requeue_def)
  next
    case (CbData df)
    show ?thesis
    proof (cases "uint (l_oiws l) - str_bytesOutStanding (l_obj l a) \<le> 0")
      case True
      then show ?thesis using p Cons CbData by (intro park_wp[OF _ assms(1,2)]) (auto simp: requeue_def)
    next
      case False
      then show ?thesis
        using p Cons CbData activate_wp[OF assms, where x = False and E = "\<lambda>_. True"] by (simp add: wp_def requeue_def)
    qed
  qed (use p in auto)
qed

lemma requeueEmpty_wp:
  assumes "lw_inv tr l Q xs {a}" "(sid, a) \<in> set (l_estd l)" "str_state (l_obj l a) = st_active"
  shows "wp (requeueEmpty env a) (\<lambda>_. keeps tr) (\<lambda>_. True) l"
proof (cases "Q a")
  case Nil
  then show ?thesis using peek_item(1)[OF assms(1,2)] by (intro park_wp[OF _ assms(1,2)]) (auto simp: requeueEmpty_def)
next
  case (Cons x q)
  note p = peek_item(1)[OF assms(1,2)] peek_item(2)[OF assms(1,2) Cons]
  show ?thesis
  proof (cases x)
    case (CbHeader t)
    have "wp (bindP (writeHeader env (hf_streamID t) (hf_endStream t) (hf_hf t))
        (\<lambda>_. bindP (attempt (cleanupStreamHandler (hf_cleanup t))) (\<lambda>_. ret False))) (\<lambda>_. keeps tr) (\<lambda>_. True) l"
      unfolding wp_bind wp_ret by (rule wp_mono[OF trailers_wp[OF assms(1,2), of t]])
        (use p CbHeader in \<open>auto simp: wp_def attempt_def split: prod.splits res.splits\<close>)
    then show ?thesis using p Cons CbHeader by (simp add: wp_def requeueEmpty_def)
  next
    case (CbData df)
    then show ?thesis
      using p Cons activate_wp[OF assms, where x = False and E = "\<lambda>_. True"] by (simp add: wp_def requeueEmpty_def)
  qed (use p in auto)
qed

section \<open>Sending data\<close>

lemma il_R_set_head: "il_R il (x # q) \<Longrightarrow> il_R (set_head y il) (y # q)"
proof -
  assume "il_R il (x # q)"
  then obtain as fs where r: "il_rep il as fs (x # q)" by (auto simp: il_R_def)
  then obtain a as' where as: "as = a # as'" by (cases as) (auto simp: il_rep_def)
  have h: "il_head il = Some a" "a \<notin> set as'" "a \<notin> set fs" using r as by (auto simp: il_rep_def)
  let ?h = "(il_heap il)(a := (il_heap il a)\<lparr>nd_it := Some y\<rparr>)"
  have p: "path ?h p bs" if "path (il_heap il) p bs" for p bs
    by (rule path_cong[OF that]) simp
  have m: "map (\<lambda>b. nd_it (?h b)) as' = map (\<lambda>b. nd_it (il_heap il b)) as'" using h(2) by auto
  have "il_rep (set_head y il) as fs (y # q)"
    using r h p[of "il_head il" as] p[of "il_free il" fs] m as unfolding il_rep_def set_head_def by (simp add: fun_upd_def)
  then show ?thesis by (auto simp: il_R_def)
qed

lemma inv_send:
  assumes i: "lw_inv tr l Q xs {a}" and m: "(sid, a) \<in> set (l_estd l)"
    and d: "data_of (Q a) = d @ data_of q'" "\<forall>x\<in>set q'. own_item sid x"
    and n: "int (length d) \<le> uint (l_sendQuota l)" "length d \<le> http2MaxFrameLen"
    and s: "str_id s = sid" "il_R (str_itl s) q'" "str_bytesOutStanding s = str_bytesOutStanding (l_obj l a) + int (length d)"
  shows "lw_inv tr (l\<lparr>l_sendQuota := l_sendQuota l - of_nat (length d), l_framer := fr, l_obj := (l_obj l)(a := s),
      l_sent := l_sent l @ [WData sid es d]\<rparr>) (Q(a := q')) xs {a}"
proof (rule lw_invI)
  let ?l = "l\<lparr>l_sendQuota := l_sendQuota l - of_nat (length d), l_framer := fr, l_obj := (l_obj l)(a := s),
      l_sent := l_sent l @ [WData sid es d]\<rparr>"
  have u: "(s', b) \<in> set (l_estd l) \<Longrightarrow> s' = sid \<longleftrightarrow> b = a" for s' b using estd_unique[OF i _ m] by blast
  note b = lw_invD(4)[OF i m]
  show "base_ok tr ?l s' c ((Q(a := q')) c)" if "(s', c) \<in> set (l_estd ?l)" for s' c
  proof (cases "c = a")
    case True
    then have "s' = sid" using u that by simp
    then show ?thesis using True b d n s by (auto simp: base_ok_def)
  next
    case False
    then have "s' \<noteq> sid" using u that by simp
    then show ?thesis using lw_invD(4)[OF i, of s' c] that False by (auto simp: base_ok_def)
  qed
  show "set xs = {c. (\<exists>s'. (s', c) \<in> set (l_estd ?l)) \<and> str_state (l_obj ?l c) = st_active} - {a}"
    using lw_invD(7)[OF i] by auto
  have "uint (l_sendQuota l - of_nat (length d)) = uint (l_sendQuota l) - int (length d)"
  proof -
    have "length d < 2 ^ 32" using n(1) uint_lt2p[of "l_sendQuota l"] by simp
    then have "uint (of_nat (length d) :: u32) = int (length d)" using uint_of_nat32 by blast
    then show ?thesis using n(1) by (simp add: uint_sub_le)
  qed
  then show "uint (l_sendQuota ?l) + int (sent_total (l_sent ?l)) \<le> 65535 + inc_on 0 tr"
    using lw_invD(9)[OF i] by simp
  show "s' \<in> set (named tr)" if "sent_on s' (l_sent ?l) \<noteq> []" for s'
    using that lw_invD(8)[OF i, of s'] lw_invD(6)[OF i m] by (auto split: if_splits)
  show "data_len c \<le> http2MaxFrameLen" if "c \<in> set (l_sent ?l)" for c
    using that lw_invD(10)[OF i, of c] n(2) by auto
  show "state_ok ?l c ((Q(a := q')) c)" if "(s', c) \<in> set (l_estd ?l)" "c \<notin> {a}" for s' c
    using lw_invD(5)[OF i, of s' c] that by (simp add: state_ok_def)
  show "s' \<noteq> 0 \<and> s' \<in> set (named tr)" if "(s', c) \<in> set (l_estd ?l)" for s' c
    using lw_invD(6)[OF i, of s' c] that by simp
qed (simp_all add: lw_invD(1-3)[OF i])

text \<open>Steps that write no DATA frame and leave the stream window alone.\<close>

definition quiet :: "('h, 'f) loopyWriter \<Rightarrow> ('h, 'f) loopyWriter \<Rightarrow> bool" where
  "quiet l l' \<longleftrightarrow> l_oiws l' = l_oiws l \<and> (\<forall>sid. sent_on sid (l_sent l') = sent_on sid (l_sent l))"

definition quietP :: "('h, 'f, 'a) lprog \<Rightarrow> bool" where
  "quietP p = (\<forall>l. quiet l (snd (p l)))"

lemma quietD:
  "quietP p \<Longrightarrow> l_oiws (snd (p l)) = l_oiws l" "quietP p \<Longrightarrow> sent_on sid (l_sent (snd (p l))) = sent_on sid (l_sent l)"
  by (auto simp: quietP_def quiet_def)

lemma quiet_bind [intro]: "quietP p \<Longrightarrow> (\<And>x. quietP (f x)) \<Longrightarrow> quietP (bindP p f)"
  by (auto simp: quietP_def bindP_def quiet_def split: prod.splits res.splits) (metis snd_conv)+

lemma quiet_ret [simp]: "quietP (ret x)"
  by (simp add: quietP_def quiet_def ret_def)

lemma quiet_write [simp]: "\<not> is_data_cmd c \<Longrightarrow> quietP (lw_write c)"
  by (cases c) (auto simp: quietP_def quiet_def lw_write_def split: prod.splits res.splits)

lemma quiet_activate [simp]: "quietP (lw_activate a)"
  by (auto simp: quietP_def quiet_def lw_activate_def split: option.splits)

lemma quiet_fragments [simp]: "quietP (writeFragments sid es first buf)"
proof (induction sid es first buf rule: header_cmds.induct)
  case (1 sid es first buf)
  then show ?case by (auto simp: writeFragments.simps[of sid es first])
qed

lemma quiet_header [simp]: "quietP (writeHeader env sid es hf)"
  unfolding quietP_def quiet_def writeHeader_def by (simp add: quietD[OF quiet_fragments] split: prod.split)

lemma quiet_closing [simp]:
  "quietP (\<lambda>l. if l_side l = clientSide \<and> l_draining l \<and> l_estd l = [] then (Err LConnClosing, l) else (Ok (), l))"
  by (auto simp: quietP_def quiet_def)

lemma quiet_cleanup [simp]: "quietP (cleanupStreamHandler co)"
proof (cases co)
  case (Some c)
  let ?p = "bindP (if cs_rst c then lw_write (WRST (cs_streamID c) (cs_rstCode c)) else ret ())
     (\<lambda>_ l. if l_side l = clientSide \<and> l_draining l \<and> l_estd l = [] then (Err LConnClosing, l) else (Ok (), l))"
  have q: "quietP ?p" by (cases "cs_rst c"; intro quiet_bind) simp_all
  show ?thesis unfolding quietP_def
  proof
    fix l
    show "quiet l (snd (cleanupStreamHandler co l))"
      using Some by (cases "map_of (l_estd l) (cs_streamID c)")
        (simp_all add: quiet_def cleanupStreamHandler_def Let_def quietD[OF q])
  qed
qed (simp add: quietP_def quiet_def cleanupStreamHandler_def)

lemma quiet_requeue [simp]: "quietP (requeue env a)"
  unfolding quietP_def
proof
  fix l
  have q: "quietP (bindP (writeHeader env i e f) (\<lambda>_. bindP (cleanupStreamHandler c) (\<lambda>_. ret False)))"
    "quietP (bindP (lw_activate a) (\<lambda>_. ret False))" for i e f c by (intro quiet_bind; simp)+
  show "quiet l (snd (requeue env a l))"
  proof (cases "peek (str_itl (l_obj l a))")
    case (Some x)
    then show ?thesis by (cases x) (simp_all add: quiet_def requeue_def Let_def quietD[OF q(1)] quietD[OF q(2)])
  qed (simp add: quiet_def requeue_def Let_def quietD[OF q(2)])
qed

lemma quiet_attempt [simp]: "quietP p \<Longrightarrow> quietP (attempt p)"
  by (auto simp: quietP_def quiet_def attempt_def split: prod.splits res.splits) (metis snd_conv)+

lemma quiet_requeueEmpty [simp]: "quietP (requeueEmpty env a)"
  unfolding quietP_def
proof
  fix l
  have q: "quietP (bindP (writeHeader env i e f) (\<lambda>_. bindP (attempt (cleanupStreamHandler c)) (\<lambda>_. ret False)))"
    "quietP (bindP (lw_activate a) (\<lambda>_. ret False))" for i e f c by (intro quiet_bind; simp)+
  show "quiet l (snd (requeueEmpty env a l))"
  proof (cases "peek (str_itl (l_obj l a))")
    case (Some x)
    then show ?thesis by (cases x) (simp_all add: quiet_def requeueEmpty_def Let_def quietD[OF q(1)] quietD[OF q(2)])
  qed (simp add: quiet_def requeueEmpty_def Let_def quietD[OF q(2)])
qed

text \<open>What a step that may send DATA does to the windows.\<close>

definition sends :: "cbItem list \<Rightarrow> ('h, 'f) loopyWriter \<Rightarrow> ('h, 'f) loopyWriter \<Rightarrow> bool" where
  "sends tr l l' \<longleftrightarrow> l_oiws l' = l_oiws l
     \<and> (\<forall>sid. sent_on sid (l_sent l') = sent_on sid (l_sent l)
          \<or> int (length (sent_on sid (l_sent l'))) \<le> uint (l_oiws l') + inc_on sid tr)"

lemma quiet_sends: "quiet l l' \<Longrightarrow> sends tr l l'"
  by (simp add: quiet_def sends_def)

lemma sends_quiet: "sends tr l l' \<Longrightarrow> quiet l' l'' \<Longrightarrow> sends tr l l''"
  unfolding quiet_def sends_def by metis

lemma quiet_sends_trans: "quiet l l' \<Longrightarrow> sends tr l' l'' \<Longrightarrow> sends tr l l''"
  unfolding quiet_def sends_def by metis

lemma wp_quiet: "wp p P E l \<Longrightarrow> quietP p \<Longrightarrow> wp p (\<lambda>x l'. P x l' \<and> quiet l l') E l"
  by (auto simp: wp_def quietP_def split: prod.splits res.splits) (metis snd_conv)

lemma chunk_sizes_bounds:
  assumes "chunk_sizes q c df = (h, d)" "0 < q" "0 \<le> c"
  shows "h \<le> length (df_h df)" "d \<le> length (df_d df)" "h + d \<le> http2MaxFrameLen" "int (h + d) \<le> q" "int (h + d) \<le> c"
    "d \<noteq> 0 \<Longrightarrow> h = length (df_h df)"
proof -
  define m where "m = min (min (int http2MaxFrameLen) q) c"
  have "chunk_sizes q c df = (let h = min (nat m) (length (df_h df)) in (h, min (nat m - h) (length (df_d df))))"
    by (simp add: chunk_sizes_def m_def Let_def min_def)
  then have hd: "h = min (nat m) (length (df_h df))" "d = min (nat m - h) (length (df_d df))"
    using assms(1) by (simp_all add: Let_def)
  have m: "m \<le> int http2MaxFrameLen" "m \<le> q" "m \<le> c" "0 \<le> m" using assms(2,3) by (simp_all add: m_def)
  show "h \<le> length (df_h df)" "d \<le> length (df_d df)" using hd by simp_all
  have "h + d \<le> nat m" using hd by linarith
  then show "h + d \<le> http2MaxFrameLen" "int (h + d) \<le> q" "int (h + d) \<le> c" using m by linarith+
  show "d \<noteq> 0 \<Longrightarrow> h = length (df_h df)" using hd by linarith
qed

lemma chunk_buf_take:
  assumes "h \<le> length (df_h df)" "d \<le> length (df_d df)"
  shows "take (h + d) (chunk_buf df h d) = take h (df_h df) @ take d (df_d df)"
  using assms by (auto simp: chunk_buf_def)

lemma chunk_done_eq:
  fixes l :: "('h, 'f) loopyWriter" and a :: nat
  assumes "hSize \<le> length (df_h df)" "dSize \<le> length (df_d df)"
  defines "df' \<equiv> df\<lparr>df_h := drop hSize (df_h df), df_d := drop dSize (df_d df)\<rparr>"
    and "s \<equiv> l_obj l a"
    and "il \<equiv> set_head (CbData (df\<lparr>df_h := drop hSize (df_h df), df_d := drop dSize (df_d df)\<rparr>)) (str_itl (l_obj l a))"
  shows "chunk_done a df hSize dSize ((upd_str a (\<lambda>s. s\<lparr>str_wq := f (str_wq s)\<rparr>) l)\<lparr>l_framer := fr, l_sent := sent\<rparr>)
    = l\<lparr>l_sendQuota := l_sendQuota l - of_nat (hSize + dSize), l_framer := fr,
        l_obj := (l_obj l)(a := s\<lparr>str_itl := (if df_h df' = [] \<and> df_d df' = [] then snd (dequeue il) else il),
          str_bytesOutStanding := str_bytesOutStanding s + int (hSize + dSize), str_wq := f (str_wq s)\<rparr>), l_sent := sent\<rparr>"
  by (intro loopyWriter.equality)
    (auto simp: chunk_done_def Let_def upd_str_def drop_item_def df'_def s_def il_def fun_eq_iff intro!: outStream.equality)

lemma processChunk_wp:
  assumes i: "lw_inv tr l Q xs {a}" and m: "(sid, a) \<in> set (l_estd l)" and st: "str_state (l_obj l a) = st_active"
    and q: "Q a = CbData df # q"
  shows "wp (processChunk env a df) (\<lambda>_ l'. keeps tr l' \<and> sends tr l l') (\<lambda>_. True) l"
proof (cases "uint (l_oiws l) - str_bytesOutStanding (l_obj l a) \<le> 0")
  case True
  then have "processChunk env a df l = (Ok False, upd_str a (\<lambda>s. s\<lparr>str_state := st_waitingOnStreamQuota\<rparr>) l)"
    by (simp add: processChunk_def)
  moreover have "keeps tr (upd_str a (\<lambda>s. s\<lparr>str_state := st_waitingOnStreamQuota\<rparr>) l)"
    by (rule keepsI, rule park_inv[OF i m]) (use True q in auto)
  ultimately show ?thesis by (simp add: wp_def sends_def)
next
  case False
  let ?q = "uint (l_oiws l) - str_bytesOutStanding (l_obj l a)"
  obtain h d where hd: "chunk_sizes ?q (uint (l_sendQuota l)) df = (h, d)" by fastforce
  have b: "h \<le> length (df_h df)" "d \<le> length (df_d df)" "h + d \<le> http2MaxFrameLen" "int (h + d) \<le> ?q"
      "int (h + d) \<le> uint (l_sendQuota l)" "d \<noteq> 0 \<Longrightarrow> h = length (df_h df)"
    using chunk_sizes_bounds[OF hd] False by auto
  let ?d = "take h (df_h df) @ take d (df_d df)" and ?e = "df_endStream df \<and> length (df_h df) + length (df_d df) \<le> h + d"
  let ?l1 = "upd_str a (\<lambda>s. s\<lparr>str_wq := realReplenish (of_nat (h + d)) (str_wq s)\<rparr>) l"
  let ?df = "df\<lparr>df_h := drop h (df_h df), df_d := drop d (df_d df)\<rparr>"
  define q' where "q' = (if df_h ?df = [] \<and> df_d ?df = [] then q else CbData ?df # q)"
  have base: "base_ok tr l sid a (CbData df # q)" using lw_invD(4)[OF i m] q by simp
  then have sid: "df_streamID df = sid" by (simp add: base_ok_def)
  have len: "length ?d = h + d" using b(1,2) by simp
  have split: "df_h df @ df_d df = ?d @ df_h ?df @ df_d ?df"
    using b(1,6) by (cases "d = 0") simp_all
  let ?il = "set_head (CbData ?df) (str_itl (l_obj l a))"
  have il: "il_R ?il (CbData ?df # q)" using il_R_set_head base by (auto simp: base_ok_def)
  then have il': "il_R (if df_h ?df = [] \<and> df_d ?df = [] then snd (dequeue ?il) else ?il) q'"
    using ilq.R_deq_Cons[OF il] by (auto simp: q'_def)
  define l2 where "l2 fr = chunk_done a df h d (?l1\<lparr>l_framer := fr, l_sent := l_sent l @ [WData sid ?e ?d]\<rparr>)" for fr
  have l2: "l2 fr = l\<lparr>l_sendQuota := l_sendQuota l - of_nat (length ?d), l_framer := fr,
      l_obj := (l_obj l)(a := (l_obj l a)\<lparr>str_itl := (if df_h ?df = [] \<and> df_d ?df = [] then snd (dequeue ?il) else ?il),
          str_bytesOutStanding := str_bytesOutStanding (l_obj l a) + int (length ?d),
          str_wq := realReplenish (of_nat (h + d)) (str_wq (l_obj l a))\<rparr>), l_sent := l_sent l @ [WData sid ?e ?d]\<rparr>" for fr
    unfolding l2_def len by (rule chunk_done_eq[OF b(1,2)])
  have inv2: "lw_inv tr (l2 fr) (Q(a := q')) xs {a}" for fr
    unfolding l2
  proof (rule inv_send[OF i m])
    show "data_of (Q a) = ?d @ data_of q'" using split q by (simp add: q'_def)
    show "\<forall>x\<in>set q'. own_item sid x" using base sid by (auto simp: base_ok_def q'_def)
    show "str_id ((l_obj l a)\<lparr>str_itl := (if df_h ?df = [] \<and> df_d ?df = [] then snd (dequeue ?il) else ?il),
          str_bytesOutStanding := str_bytesOutStanding (l_obj l a) + int (length ?d),
          str_wq := realReplenish (of_nat (h + d)) (str_wq (l_obj l a))\<rparr>) = sid" using base by (simp add: base_ok_def)
  qed (use b il' len in \<open>simp_all del: length_append\<close>)
  have m2: "(sid, a) \<in> set (l_estd (l2 fr))" and st2: "str_state (l_obj (l2 fr) a) = st_active" for fr
    using m st by (simp_all add: l2)
  have "int (length (sent_on sid (l_sent l))) + int (h + d) \<le> uint (l_oiws l) + inc_on sid tr"
    using base b(4) by (simp add: base_ok_def)
  then have snd2: "sends tr l (l2 fr)" for fr using b(1,2) by (auto simp: sends_def l2 min_absorb2)
  have r: "wp (\<lambda>l. requeue env a (chunk_done a df h d l)) (\<lambda>_ l'. keeps tr l' \<and> sends tr l l') (\<lambda>_. True)
      (?l1\<lparr>l_framer := fr, l_sent := l_sent l @ [WData sid ?e ?d]\<rparr>)" for fr
  proof -
    have "wp (requeue env a) (\<lambda>_ l'. keeps tr l' \<and> sends tr l l') (\<lambda>_. True) (l2 fr)"
      by (rule wp_mono[OF wp_quiet[OF requeue_wp[OF inv2 m2 st2] quiet_requeue]]) (auto intro: sends_quiet[OF snd2])
    then show ?thesis by (simp add: wp_def l2_def)
  qed
  have "processChunk env a df l
      = bindP (lw_write (WData sid ?e ?d)) (\<lambda>_ l. requeue env a (chunk_done a df h d l)) ?l1"
    using False hd chunk_buf_take[OF b(1,2)] sid by (simp add: processChunk_def Let_def)
  moreover have "wp (bindP (lw_write (WData sid ?e ?d)) (\<lambda>_ l. requeue env a (chunk_done a df h d l)))
      (\<lambda>_ l'. keeps tr l' \<and> sends tr l l') (\<lambda>_. True) ?l1"
    unfolding wp_bind by (rule wp_write) (use r in simp_all)
  ultimately show ?thesis by (simp add: wp_def)
qed

lemma processEmpty_wp:
  assumes i: "lw_inv tr l Q xs {a}" and m: "(sid, a) \<in> set (l_estd l)" and st: "str_state (l_obj l a) = st_active"
    and q: "Q a = CbData df # q" and e: "df_h df = []" "df_d df = []"
  shows "wp (processEmpty env a df) (\<lambda>_ l'. keeps tr l' \<and> sends tr l l') (\<lambda>_. True) l"
proof -
  have base: "base_ok tr l sid a (CbData df # q)" using lw_invD(4)[OF i m] q by simp
  then have sid: "df_streamID df = sid" by (simp add: base_ok_def)
  let ?s = "(l_obj l a)\<lparr>str_itl := snd (dequeue (str_itl (l_obj l a)))\<rparr>"
  define l2 where "l2 fr = drop_item a (l\<lparr>l_framer := fr, l_sent := l_sent l @ [WData sid (df_endStream df) []]\<rparr>)" for fr
  have l2: "l2 fr = l\<lparr>l_sendQuota := l_sendQuota l - of_nat (length ([] :: byte list)), l_framer := fr, l_obj := (l_obj l)(a := ?s),
      l_sent := l_sent l @ [WData sid (df_endStream df) []]\<rparr>" for fr
    by (simp add: l2_def drop_item_def upd_str_def)
  have "il_R (str_itl (l_obj l a)) (CbData df # q)" using base by (simp add: base_ok_def)
  then have il: "il_R (str_itl ?s) q" using ilq.R_deq_Cons by fastforce
  have inv2: "lw_inv tr (l2 fr) (Q(a := q)) xs {a}" for fr
    unfolding l2 by (rule inv_send[OF i m]) (use base q e il in \<open>auto simp: base_ok_def\<close>)
  have m2: "(sid, a) \<in> set (l_estd (l2 fr))" and st2: "str_state (l_obj (l2 fr) a) = st_active" for fr
    using m st by (simp_all add: l2)
  have snd2: "sends tr l (l2 fr)" for fr by (simp add: sends_def l2)
  have "wp (\<lambda>l. requeueEmpty env a (drop_item a l)) (\<lambda>_ l'. keeps tr l' \<and> sends tr l l') (\<lambda>_. True)
      (l\<lparr>l_framer := fr, l_sent := l_sent l @ [WData sid (df_endStream df) []]\<rparr>)" for fr
  proof -
    have "wp (requeueEmpty env a) (\<lambda>_ l'. keeps tr l' \<and> sends tr l l') (\<lambda>_. True) (l2 fr)"
      by (rule wp_mono[OF wp_quiet[OF requeueEmpty_wp[OF inv2 m2 st2] quiet_requeueEmpty]]) (auto intro: sends_quiet[OF snd2])
    then show ?thesis by (simp add: wp_def l2_def)
  qed
  then show ?thesis unfolding processEmpty_def wp_bind sid by (intro wp_write) simp_all
qed

text \<open>Only an idle turn reports that there is nothing to send.\<close>

definition falseP :: "('h, 'f, bool) lprog \<Rightarrow> bool" where
  "falseP p = (\<forall>l. fst (p l) \<noteq> Ok True)"

lemma falseP_bind [simp]: "(\<And>x. falseP (f x)) \<Longrightarrow> falseP (bindP p f)"
  by (auto simp: falseP_def bindP_def split: prod.splits res.splits)

lemma falseP_ret [simp]: "falseP (ret False)"
  by (simp add: falseP_def ret_def)

lemma falsePD: "falseP p \<Longrightarrow> fst (p l) \<noteq> Ok True"
  by (simp add: falseP_def)

lemma falseP_requeue: "falseP (requeue env a)" "falseP (requeueEmpty env a)"
  by (auto simp: falseP_def requeue_def requeueEmpty_def Let_def falsePD[OF falseP_bind] split: option.splits cbItem.splits)

lemma falseP_requeue_after: "falseP (\<lambda>l. requeue env a (f l))" "falseP (\<lambda>l. requeueEmpty env a (g l))"
  by (simp_all add: falseP_def falsePD[OF falseP_requeue(1)] falsePD[OF falseP_requeue(2)])

lemma falseP_process: "falseP (processEmpty env a df)" "falseP (processChunk env a df)"
  unfolding processEmpty_def
  by (intro falseP_bind falseP_requeue_after)
    (auto simp: falseP_def processChunk_def Let_def falsePD[OF falseP_bind[OF falseP_requeue_after(1)]] split: prod.splits)

lemma wp_false: "wp p P E l \<Longrightarrow> fst (p l) \<noteq> Ok True \<Longrightarrow> wp p (\<lambda>b l'. P b l' \<and> \<not> b) E l"
  by (auto simp: wp_def split: prod.splits res.splits)

lemma processData_wp:
  assumes "keeps tr l"
  shows "wp (processData env) (\<lambda>b l'. keeps tr l' \<and> sends tr l l'
     \<and> (b \<longrightarrow> l_sendQuota l' = 0 \<or> (\<exists>Q. lw_inv tr l' Q [] {}))) (\<lambda>_. True) l"
proof (cases "l_sendQuota l = 0")
  case True
  then show ?thesis using assms by (simp add: wp_def processData_def sends_def)
next
  case False
  obtain Q xs where i: "lw_inv tr l Q xs {}" using assms by (auto simp: keeps_def)
  show ?thesis
  proof (cases xs)
    case Nil
    then have "processData env l = (Ok True, l)"
      using False osw.R_deq_Nil[of "l_active l"] lw_invD(1)[OF i] by (simp add: processData_def)
    then show ?thesis using assms i Nil by (auto simp: wp_def sends_def)
  next
    case (Cons a xs')
    obtain q sid where d: "osl_dequeue (l_active l) = Some (Some a, q)" "lw_inv tr (l\<lparr>l_active := q\<rparr>) Q xs' {a}"
      "(sid, a) \<in> set (l_estd l)" "state_ok l a (Q a)" "str_state (l_obj l a) = st_active"
      using inv_deq i Cons by blast
    obtain df q' where qa: "Q a = CbData df # q'"
      using d(4,5) by (cases "Q a") (auto simp: state_ok_def elim: is_data_item.elims)
    have m: "(sid, a) \<in> set (l_estd (l\<lparr>l_active := q\<rparr>))" "str_state (l_obj (l\<lparr>l_active := q\<rparr>) a) = st_active"
      using d by simp_all
    have pk: "peek (str_itl (l_obj l a)) = Some (CbData df)" using peek_item(2)[OF i d(3) qa] by simp
    have sd: "sends tr l l' = sends tr (l\<lparr>l_active := q\<rparr>) l'" for l' by (simp add: sends_def)
    let ?p = "if df_h df = [] \<and> df_d df = [] then processEmpty env a df else processChunk env a df"
    have "wp ?p (\<lambda>_ l'. keeps tr l' \<and> sends tr l l') (\<lambda>_. True) (l\<lparr>l_active := q\<rparr>)"
      unfolding sd using processEmpty_wp[OF d(2) m qa] processChunk_wp[OF d(2) m qa] by simp
    from wp_false[OF this] have "wp ?p (\<lambda>b l'. (keeps tr l' \<and> sends tr l l') \<and> \<not> b) (\<lambda>_. True) (l\<lparr>l_active := q\<rparr>)"
      by (simp add: falsePD[OF falseP_process(1)] falsePD[OF falseP_process(2)])
    moreover have p: "processData env l = ?p (l\<lparr>l_active := q\<rparr>)"
      using False d(1) pk by (simp add: processData_def Let_def)
    ultimately show ?thesis
      unfolding wp_cong[of "processData env" l ?p "l\<lparr>l_active := q\<rparr>", OF p] by (elim wp_mono) auto
  qed
qed

section \<open>Handling a control item\<close>

text \<open>
  The items the transports put: a stream is opened once and with a non-zero id, and trailers of the server come with the
  cleanup of their own stream. The range loops visit every established stream once; the GOAWAY handler
  writes no DATA.
\<close>

definition item_ok :: "cbItem list \<Rightarrow> side \<Rightarrow> cbItem \<Rightarrow> bool" where
  "item_ok tr sd it = (case it of
      CbRegisterStream sid wq \<Rightarrow> sid \<noteq> 0 \<and> sid \<notin> set (named tr)
    | CbHeader h \<Rightarrow>
        if sd = clientSide then hf_streamID h \<noteq> 0 \<and> hf_streamID h \<notin> set (named tr)
        else hf_endStream h \<longrightarrow> own_item (hf_streamID h) it
    | _ \<Rightarrow> True)"

definition env_ok :: "'h lenv \<Rightarrow> ('h, 'f) loopyWriter \<Rightarrow> bool" where
  "env_ok env l \<longleftrightarrow> (\<forall>i. distinct (e_order env i) \<and> set (e_order env i) = set (map fst (l_estd l)))
     \<and> (\<forall>f. e_ssGoAwayHandler env = Some f \<longrightarrow> (\<forall>c d h k. no_data (fst (f c d h k)) \<and> snd (f c d h k) \<noteq> Panic \<and> snd (f c d h k) \<noteq> Diverge))"

lemma tr_le_quiet_item: "(\<And>s. in_data s it = []) \<Longrightarrow> tr_le sid tr (tr @ [it])"
  by (rule tr_le_item)

lemma inv_item: "lw_inv tr l Q xs D \<Longrightarrow> (\<And>s. in_data s it = []) \<Longrightarrow> lw_inv (tr @ [it]) l Q xs D"
  by (rule inv_trace[OF _ tr_le_item]) simp_all

text \<open>An item that is answered by frames other than DATA.\<close>

lemma ext_keeps: "keeps tr l \<Longrightarrow> wr_ext l l' \<Longrightarrow> keeps tr l'"
  by (erule keepsE) (rule keepsI, rule inv_ext)

lemma keeps_item: "keeps tr l \<Longrightarrow> (\<And>s. in_data s it = []) \<Longrightarrow> keeps (tr @ [it]) l"
  by (erule keepsE) (rule keepsI, rule inv_item)

lemma write_keeps: "keeps tr l \<Longrightarrow> \<not> is_data_cmd c \<Longrightarrow> wp (lw_write c) (\<lambda>_. keeps tr) (\<lambda>_. True) l"
  by (rule wp_write) (auto intro: ext_keeps)

lemma map_of_estd: "lw_inv tr l Q xs D \<Longrightarrow> map_of (l_estd l) sid = Some a \<longleftrightarrow> (sid, a) \<in> set (l_estd l)"
  by (rule map_of_eq_Some_iff) (rule lw_invD(3))

text \<open>
  Replacing the object of a stream together with the item that caused it: the stream keeps its place when its state
  is unchanged, and has to be queued when it becomes active.
\<close>

lemma inv_upd_same:
  assumes "lw_inv tr l Q xs {}" "(sid, a) \<in> set (l_estd l)" "tr_le sid tr tr'"
    and "base_ok tr' (l\<lparr>l_obj := (l_obj l)(a := s)\<rparr>) sid a q" "state_ok (l\<lparr>l_obj := (l_obj l)(a := s)\<rparr>) a q"
    and "str_state s = str_state (l_obj l a)"
  shows "lw_inv tr' (l\<lparr>l_obj := (l_obj l)(a := s)\<rparr>) (Q(a := q)) xs {}"
proof -
  let ?l = "l\<lparr>l_obj := (l_obj l)(a := s)\<rparr>"
  have u: "(s', b) \<in> set (l_estd l) \<Longrightarrow> s' = sid \<longleftrightarrow> b = a" for s' b using estd_unique[OF assms(1) _ assms(2)] by blast
  note t = assms(3)[unfolded tr_le_def]
  show ?thesis
  proof (rule lw_invI)
    fix s' b
    assume m: "(s', b) \<in> set (l_estd ?l)"
    then have m': "(s', b) \<in> set (l_estd l)" by simp
    show "s' \<noteq> 0 \<and> s' \<in> set (named tr')" using lw_invD(6)[OF assms(1) m'] t by auto
    show "base_ok tr' ?l s' b ((Q(a := q)) b)"
    proof (cases "b = a")
      case False
      then have "base_ok tr' l s' b (Q b)" using base_mono[OF lw_invD(4)[OF assms(1) m']] t u[OF m'] by metis
      with False show ?thesis by (simp add: base_ok_def)
    qed (use assms(4) u[OF m'] in simp)
    show "state_ok ?l b ((Q(a := q)) b)" if "b \<notin> {}"
      using lw_invD(5)[OF assms(1) m'] assms(5) by (cases "b = a") (simp_all add: state_ok_def)
  next
    show "set xs = {b. (\<exists>s'. (s', b) \<in> set (l_estd ?l)) \<and> str_state (l_obj ?l b) = st_active} - {}"
      using lw_invD(7)[OF assms(1)] assms(6) by auto
    have "inc_on 0 tr \<le> inc_on 0 tr'" using t by blast
    then show "uint (l_sendQuota ?l) + int (sent_total (l_sent ?l)) \<le> 65535 + inc_on 0 tr'"
      using lw_invD(9)[OF assms(1)] by simp
    show "s' \<in> set (named tr')" if "sent_on s' (l_sent ?l) \<noteq> []" for s'
      using lw_invD(8)[OF assms(1), of s'] that t by auto
  qed (use lw_invD(10)[OF assms(1)] in \<open>simp_all add: lw_invD(1-3)[OF assms(1)]\<close>)
qed

lemma inv_wake:
  assumes "lw_inv tr l Q xs {}" "(sid, a) \<in> set (l_estd l)" "tr_le sid tr tr'" "str_state (l_obj l a) \<noteq> st_active"
    and "base_ok tr' (l\<lparr>l_obj := (l_obj l)(a := s)\<rparr>) sid a q" "state_ok (l\<lparr>l_obj := (l_obj l)(a := s)\<rparr>) a q"
    and "str_state s = st_active"
  shows "wp (lw_activate a) (\<lambda>_ l'. \<exists>act. l' = l\<lparr>l_obj := (l_obj l)(a := s), l_active := act\<rparr>
      \<and> lw_inv tr' l' (Q(a := q)) (xs @ [a]) {}) E (l\<lparr>l_obj := (l_obj l)(a := s)\<rparr>)"
proof -
  have "a \<notin> set xs" using lw_invD(7)[OF assms(1)] assms(4) by auto
  from inv_upd_detached[OF assms(1,2) this assms(3,5)]
  have "lw_inv tr' (l\<lparr>l_obj := (l_obj l)(a := s)\<rparr>) (Q(a := q)) xs {a}" by simp
  from inv_activate[OF this, of sid] assms(2,6,7) obtain act where
    "lw_activate a (l\<lparr>l_obj := (l_obj l)(a := s)\<rparr>) = (Ok (), l\<lparr>l_obj := (l_obj l)(a := s), l_active := act\<rparr>)"
    "lw_inv tr' (l\<lparr>l_obj := (l_obj l)(a := s), l_active := act\<rparr>) (Q(a := q)) (xs @ [a]) {}" by auto
  then show ?thesis by (auto simp: wp_def)
qed

lemma stream_credit_wp:
  assumes i: "lw_inv tr l Q xs {}" and sid: "map_of (l_estd l) sid = Some a" "sid \<noteq> 0"
  shows "wp (incomingWindowUpdateHandler sid inc) (\<lambda>_. keeps (tr @ [CbIncomingWindowUpdate sid inc])) (\<lambda>_. True) l"
proof -
  let ?it = "CbIncomingWindowUpdate sid inc"
  have m: "(sid, a) \<in> set (l_estd l)" using map_of_estd[OF i] sid(1) by simp
  let ?s = "(l_obj l a)\<lparr>str_bytesOutStanding := str_bytesOutStanding (l_obj l a) - uint inc\<rparr>"
  have t: "tr_le sid tr (tr @ [?it])" by (rule tr_le_item) simp
  have base: "base_ok (tr @ [?it]) (l\<lparr>l_obj := (l_obj l)(a := ?s\<lparr>str_state := st\<rparr>)\<rparr>) sid a (Q a)" for st
    using lw_invD(4)[OF i m] by (simp add: base_ok_def)
  note so = lw_invD(5)[OF i m, simplified]
  show ?thesis
  proof (cases "uint (l_oiws l) - str_bytesOutStanding ?s > 0 \<and> str_state (l_obj l a) = st_waitingOnStreamQuota")
    case True
    have "wp (lw_activate a) (\<lambda>_. keeps (tr @ [?it])) (\<lambda>_. True) (l\<lparr>l_obj := (l_obj l)(a := ?s\<lparr>str_state := st_active\<rparr>)\<rparr>)"
      by (rule wp_mono[OF inv_wake[OF i m t _ base]]) (use True so in \<open>auto simp: state_ok_def intro: keepsI\<close>)
    then show ?thesis using sid True by (simp add: wp_def incomingWindowUpdateHandler_def upd_str_def Let_def)
  next
    case False
    have "state_ok (l\<lparr>l_obj := (l_obj l)(a := ?s)\<rparr>) a (Q a)" using so False by (auto simp: state_ok_def)
    from keepsI[OF inv_upd_same[OF i m t _ this]] base[of "str_state (l_obj l a)"] show ?thesis
      using sid False by (auto simp: wp_def incomingWindowUpdateHandler_def upd_str_def Let_def)
  qed
qed

lemma incomingWindowUpdate_wp:
  assumes "keeps tr l"
  shows "wp (incomingWindowUpdateHandler sid inc) (\<lambda>_. keeps (tr @ [CbIncomingWindowUpdate sid inc])) (\<lambda>_. True) l"
proof -
  let ?it = "CbIncomingWindowUpdate sid inc"
  obtain Q xs where i: "lw_inv tr l Q xs {}" using assms by (rule keepsE)
  consider "sid = 0" | "sid \<noteq> 0" "map_of (l_estd l) sid = None" | a where "sid \<noteq> 0" "map_of (l_estd l) sid = Some a" by blast
  then show ?thesis
  proof cases
    case 1
    have "uint (l_sendQuota l + inc) \<le> uint (l_sendQuota l) + uint inc" by (rule uint_add_le)
    then have "lw_inv (tr @ [?it]) (l\<lparr>l_sendQuota := l_sendQuota l + inc\<rparr>) Q xs {}"
      using inv_item[OF i, of ?it] lw_invD(9)[OF i] 1 unfolding lw_inv_def by simp
    then show ?thesis using 1 by (simp add: wp_def incomingWindowUpdateHandler_def keepsI)
  next
    case 2
    then show ?thesis using keeps_item[OF assms, of ?it] by (simp add: wp_def incomingWindowUpdateHandler_def)
  qed (rule stream_credit_wp[OF i])
qed

text \<open>A new initial window: every stream that waited is put back to work.\<close>

lemma inv_wake_state:
  assumes "lw_inv tr l Q xs {}" "(sid, a) \<in> set (l_estd l)" "str_state (l_obj l a) = st_waitingOnStreamQuota"
  shows "wp (lw_activate a) (\<lambda>_ l'. \<exists>act. l' = (upd_str a (\<lambda>s. s\<lparr>str_state := st_active\<rparr>) l)\<lparr>l_active := act\<rparr>
      \<and> lw_inv tr l' Q (xs @ [a]) {}) E (upd_str a (\<lambda>s. s\<lparr>str_state := st_active\<rparr>) l)"
  unfolding upd_str_def using lw_invD(4)[OF assms(1,2)] lw_invD(5)[OF assms(1,2)] assms(3)
  by (intro wp_mono[OF inv_wake[OF assms(1,2) tr_le_refl, where q = "Q a"]]) (auto simp: base_ok_def state_ok_def)

definition waiting :: "('h, 'f) loopyWriter \<Rightarrow> u32 set" where
  "waiting l = {sid. \<exists>a. (sid, a) \<in> set (l_estd l) \<and> str_state (l_obj l a) = st_waitingOnStreamQuota}"

lemma inv_oiws:
  assumes "lw_inv tr l Q xs {}" "v \<le> l_oiws l \<or> waiting l = {}"
  shows "lw_inv tr (l\<lparr>l_oiws := v\<rparr>) Q xs {}"
proof (rule lw_invI)
  fix sid a
  assume m: "(sid, a) \<in> set (l_estd (l\<lparr>l_oiws := v\<rparr>))"
  then have m': "(sid, a) \<in> set (l_estd l)" by simp
  show "base_ok tr (l\<lparr>l_oiws := v\<rparr>) sid a (Q a)" using lw_invD(4)[OF assms(1) m'] by (simp add: base_ok_def)
  show "sid \<noteq> 0 \<and> sid \<in> set (named tr)" using lw_invD(6)[OF assms(1) m'] .
  show "state_ok (l\<lparr>l_oiws := v\<rparr>) a (Q a)" if "a \<notin> {}"
    using lw_invD(5)[OF assms(1) m' that] assms(2) m' by (auto simp: state_ok_def waiting_def word_le_def)
qed (use lw_invD(8)[OF assms(1)] lw_invD(10)[OF assms(1)] in \<open>simp_all add: lw_invD(1-3,7,9)[OF assms(1)]\<close>)

lemma activate_waiting_oiws:
  "activate_waiting sids (l\<lparr>l_oiws := v\<rparr>) = (case activate_waiting sids l of (r, l') \<Rightarrow> (r, l'\<lparr>l_oiws := v\<rparr>))"
proof (induction sids arbitrary: l)
  case (Cons sid sids)
  have c: "l\<lparr>l_oiws := v, l_obj := ob, l_active := q\<rparr> = (l\<lparr>l_obj := ob, l_active := q\<rparr>)\<lparr>l_oiws := v\<rparr>" for ob q by simp
  show ?case
    using Cons by (auto simp: upd_str_def lw_activate_def bindP_def c simp del: loopyWriter.simps
        split: option.splits prod.splits res.splits)
qed simp

lemma activate_waiting_wp:
  assumes "lw_inv tr l Q xs {}"
  shows "wp (activate_waiting sids) (\<lambda>_ l'. keeps tr l' \<and> l_estd l' = l_estd l \<and> waiting l' \<subseteq> waiting l - set sids)
    (\<lambda>_. True) l"
  using assms
proof (induction sids arbitrary: l xs)
  case Nil
  then show ?case by (auto simp: wp_def keepsI)
next
  case (Cons sid sids)
  show ?case
  proof (cases "\<exists>a. map_of (l_estd l) sid = Some a \<and> str_state (l_obj l a) = st_waitingOnStreamQuota")
    case True
    then obtain a where a: "map_of (l_estd l) sid = Some a" "str_state (l_obj l a) = st_waitingOnStreamQuota" by blast
    then have m: "(sid, a) \<in> set (l_estd l)" using map_of_estd[OF Cons.prems] by simp
    let ?l = "upd_str a (\<lambda>s. s\<lparr>str_state := st_active\<rparr>) l"
    have "wp (activate_waiting sids) (\<lambda>_ l'. keeps tr l' \<and> l_estd l' = l_estd l \<and> waiting l' \<subseteq> waiting l - set (sid # sids)) (\<lambda>_. True) l'"
      if l': "\<exists>act. l' = ?l\<lparr>l_active := act\<rparr> \<and> lw_inv tr l' Q (xs @ [a]) {}" for l'
    proof -
      obtain act where act: "l' = ?l\<lparr>l_active := act\<rparr>" "lw_inv tr l' Q (xs @ [a]) {}" using l' by blast
      have "waiting l' \<subseteq> waiting l - {sid}"
        using estd_unique[OF Cons.prems _ m] by (auto simp: waiting_def act(1) split: if_splits)
      then show ?thesis by (intro wp_mono[OF Cons.IH[OF act(2)]]) (auto simp: act(1))
    qed
    then have "wp (bindP (lw_activate a) (\<lambda>_. activate_waiting sids))
        (\<lambda>_ l'. keeps tr l' \<and> l_estd l' = l_estd l \<and> waiting l' \<subseteq> waiting l - set (sid # sids)) (\<lambda>_. True) ?l"
      unfolding wp_bind by (rule wp_mono[OF inv_wake_state[OF Cons.prems m a(2)]])
    then show ?thesis using a by (simp add: wp_def)
  next
    case False
    then have "activate_waiting (sid # sids) l = activate_waiting sids l" by (auto split: option.splits)
    moreover have "sid \<notin> waiting l" using False map_of_estd[OF Cons.prems] by (auto simp: waiting_def)
    ultimately show ?thesis using wp_mono[OF Cons.IH[OF Cons.prems]] by (simp add: wp_def)
  qed
qed

lemma applySettings_wp:
  assumes "keeps tr l" "\<forall>i. set (e_order env i) = fst ` set (l_estd l)"
  shows "wp (applySettings env ss) (\<lambda>_. keeps tr) (\<lambda>_. True) l"
  using assms
proof (induction ss arbitrary: l)
  case Nil
  then show ?case by (simp add: wp_def)
next
  case (Cons iv ss)
  obtain i v where iv: "iv = (i, v)" by (cases iv)
  obtain Q xs where inv: "lw_inv tr l Q xs {}" using Cons.prems(1) by (rule keepsE)
  consider (win) "i = SettingInitialWindowSize" | (tbl) "i = SettingHeaderTableSize" "i \<noteq> SettingInitialWindowSize"
    | (none) "i \<noteq> SettingInitialWindowSize" "i \<noteq> SettingHeaderTableSize" by blast
  then show ?case
  proof cases
    case win
    let ?act = "if l_oiws l < v then activate_waiting (e_order env (length ss)) else ret ()"
    have "wp ?act (\<lambda>_ l'. keeps tr l' \<and> l_estd l' = l_estd l) (\<lambda>_. True) (l\<lparr>l_oiws := v\<rparr>)"
    proof (cases "l_oiws l < v")
      case True
      have w: "waiting l - set (e_order env (length ss)) = {}" using Cons.prems(2) by (force simp: waiting_def)
      have "keeps tr (l'\<lparr>l_oiws := v\<rparr>)" if "keeps tr l'" "waiting l' = {}" for l'
        using that by (elim keepsE) (rule keepsI, rule inv_oiws, auto)
      then show ?thesis
        using activate_waiting_wp[OF inv, of "e_order env (length ss)"] w True
        by (auto simp: wp_def activate_waiting_oiws split: prod.splits res.splits)
    next
      case False
      then have "v \<le> l_oiws l" by simp
      then show ?thesis using keepsI[OF inv_oiws[OF inv, of v]] False by simp
    qed
    then have "wp (bindP ?act (\<lambda>_. applySettings env ss)) (\<lambda>_. keeps tr) (\<lambda>_. True) (l\<lparr>l_oiws := v\<rparr>)"
      unfolding wp_bind by (rule wp_mono) (use Cons.IH Cons.prems(2) in auto)
    then show ?thesis using win by (simp add: wp_def iv Let_def)
  next
    case tbl
    have "keeps tr (l\<lparr>l_hEnc := h\<rparr>)" for h using ext_keeps[OF Cons.prems(1)] by simp
    then show ?thesis using Cons.IH Cons.prems(2) tbl by (simp add: wp_def iv)
  next
    case none
    then show ?thesis using Cons.IH[OF Cons.prems] by (simp add: wp_def iv)
  qed
qed

text \<open>Opening a stream.\<close>

lemma inv_obj_free:
  assumes "lw_inv tr l Q xs D" "\<And>sid. (sid, a) \<notin> set (l_estd l)" "l_fresh l \<le> n"
  shows "lw_inv tr (l\<lparr>l_obj := (l_obj l)(a := s), l_fresh := n\<rparr>) Q xs D"
proof (rule lw_invI)
  let ?l = "l\<lparr>l_obj := (l_obj l)(a := s), l_fresh := n\<rparr>"
  fix sid b
  assume "(sid, b) \<in> set (l_estd ?l)"
  then have m: "(sid, b) \<in> set (l_estd l)" "b \<noteq> a" using assms(2) by auto
  show "base_ok tr ?l sid b (Q b)" by (rule base_cong[OF _ _ _ lw_invD(4)[OF assms(1) m(1)]]) (use m assms(3) in auto)
  show "sid \<noteq> 0 \<and> sid \<in> set (named tr)" using lw_invD(6)[OF assms(1) m(1)] .
  show "state_ok ?l b (Q b)" if "b \<notin> D" using lw_invD(5)[OF assms(1) m(1) that] m(2) by (simp add: state_ok_def)
next
  show "set xs = {b. (\<exists>sid. (sid, b) \<in> set (l_estd (l\<lparr>l_obj := (l_obj l)(a := s), l_fresh := n\<rparr>)))
      \<and> str_state (l_obj (l\<lparr>l_obj := (l_obj l)(a := s), l_fresh := n\<rparr>) b) = st_active} - D"
    using lw_invD(7)[OF assms(1)] assms(2) by (auto split: if_splits)
qed (use lw_invD(8)[OF assms(1)] lw_invD(10)[OF assms(1)] lw_invD(2)[OF assms(1)] assms(3) in \<open>simp_all add: lw_invD(1,3,9)[OF assms(1)]\<close>)

lemma fresh_free: "lw_inv tr l Q xs D \<Longrightarrow> (sid, l_fresh l) \<notin> set (l_estd l)"
  using lw_invD(4)[of tr l Q xs D sid "l_fresh l"] by (auto simp: base_ok_def)

lemma set_update_new: "k \<notin> fst ` set al \<Longrightarrow> AList.update k v al = al @ [(k, v)]"
  by (induction al) auto

lemma inv_establish:
  assumes i: "lw_inv tr l Q xs {}" and a: "\<And>s. (s, a) \<notin> set (l_estd l)" "tail_addr < a" "a < l_fresh l"
    and s: "sid \<notin> fst ` set (l_estd l)" "sid \<noteq> 0" "sid \<in> set (named tr)" "sent_on sid (l_sent l) = []" "data_in sid tr = []"
    and o: "str_id (l_obj l a) = sid" "il_R (str_itl (l_obj l a)) []" "str_state (l_obj l a) = st_empty"
      "str_bytesOutStanding (l_obj l a) = 0"
  shows "lw_inv tr (l\<lparr>l_estd := AList.update sid a (l_estd l)\<rparr>) (Q(a := [])) xs {}"
proof (rule lw_invI)
  let ?l = "l\<lparr>l_estd := AList.update sid a (l_estd l)\<rparr>"
  have u: "set (l_estd ?l) = insert (sid, a) (set (l_estd l))" using set_update_new[OF s(1)] by auto
  fix s' b
  assume m: "(s', b) \<in> set (l_estd ?l)"
  show "base_ok tr ?l s' b ((Q(a := [])) b)"
    using m u a s o lw_invD(4)[OF i, of s' b] by (auto simp: base_ok_def)
  show "s' \<noteq> 0 \<and> s' \<in> set (named tr)" using m u s lw_invD(6)[OF i, of s' b] by auto
  show "state_ok ?l b ((Q(a := [])) b)" if "b \<notin> {}"
    using m u a o lw_invD(5)[OF i, of s' b] by (auto simp: state_ok_def)
next
  show "distinct (map fst (l_estd (l\<lparr>l_estd := AList.update sid a (l_estd l)\<rparr>)))"
    using set_update_new[OF s(1)] s(1) lw_invD(3)[OF i] by simp
  show "set xs = {b. (\<exists>s'. (s', b) \<in> set (l_estd (l\<lparr>l_estd := AList.update sid a (l_estd l)\<rparr>)))
      \<and> str_state (l_obj (l\<lparr>l_estd := AList.update sid a (l_estd l)\<rparr>) b) = st_active} - {}"
    using lw_invD(7)[OF i] set_update_new[OF s(1)] o(3) by auto
qed (use lw_invD(8)[OF i] lw_invD(10)[OF i] in \<open>simp_all add: lw_invD(1,2,9)[OF i]\<close>)

lemma new_id_facts:
  assumes "lw_inv tr l Q xs {}" "sid \<notin> set (named tr)" "names it = [sid]" "\<And>s. in_data s it = []"
  shows "sid \<notin> fst ` set (l_estd l)" "sid \<in> set (named (tr @ [it]))" "sent_on sid (l_sent l) = []" "data_in sid (tr @ [it]) = []"
  using assms lw_invD(6)[OF assms(1), of sid] lw_invD(8)[OF assms(1), of sid] data_in_named[OF assms(2)] by auto

lemma registerStream_wp:
  assumes "keeps tr l" "item_ok tr sd (CbRegisterStream sid wq)"
  shows "wp (registerStreamHandler sid wq) (\<lambda>_. keeps (tr @ [CbRegisterStream sid wq])) E l"
proof -
  let ?it = "CbRegisterStream sid wq" and ?a = "l_fresh l"
  let ?l = "l\<lparr>l_obj := (l_obj l)(?a := new_stream sid wq), l_fresh := ?a + 1\<rparr>"
  obtain Q xs where i: "lw_inv tr l Q xs {}" using assms(1) by (rule keepsE)
  have n: "sid \<notin> set (named tr)" "sid \<noteq> 0" using assms(2) by (auto simp: item_ok_def)
  note f = new_id_facts[OF i n(1), of ?it]
  have "lw_inv (tr @ [?it]) ?l Q xs {}" by (rule inv_obj_free[OF inv_item[OF i]]) (use fresh_free[OF i] in auto)
  from keepsI[OF inv_establish[OF this, of ?a sid]] show ?thesis
    using f n(2) fresh_free[OF i] lw_invD(2)[OF i] ilq.R_new
    by (simp add: wp_def registerStreamHandler_def alloc_stream_def new_stream_def)
qed

lemma cleanup_keeps:
  assumes "keeps tr l"
  shows "wp (cleanupStreamHandler (Some c)) (\<lambda>_. keeps tr) (keeps tr) l"
proof -
  obtain Q xs where "lw_inv tr l Q xs {}" using assms by (rule keepsE)
  from cleanup_wp[OF this, of c] show ?thesis by (rule wp_mono) (elim exE conjE, erule keepsI)+
qed

lemma clientHeader_wp:
  assumes "keeps tr l" "item_ok tr (l_side l) (CbHeader h)" "l_side l = clientSide"
  shows "wp (headerHandler env h) (\<lambda>_. keeps (tr @ [CbHeader h])) (\<lambda>_. True) l"
proof -
  let ?it = "CbHeader h" and ?a = "l_fresh l" and ?sid = "hf_streamID h"
  obtain Q xs where i: "lw_inv tr l Q xs {}" using assms(1) by (rule keepsE)
  have n: "?sid \<notin> set (named tr)" "?sid \<noteq> 0" using assms(2,3) by (auto simp: item_ok_def)
  have "il_R (enqueue ?it newItemList) [?it]" using ilq.R_enq[OF ilq.R_new] by auto
  from ilq.R_deq_Cons[OF this] obtain il where il: "dequeue (enqueue ?it newItemList) = (Some ?it, il)" "il_R il []" by blast
  define l1 where "l1 = l\<lparr>l_fresh := Suc ?a, l_obj := (l_obj l)(?a := \<lparr>str_id = ?sid, str_state = st_empty, str_itl = il,
      str_bytesOutStanding = 0, str_wq = hf_wq h\<rparr>)\<rparr>"
  have "l1 = l\<lparr>l_obj := (l_obj l)(?a := \<lparr>str_id = ?sid, str_state = st_empty, str_itl = il,
      str_bytesOutStanding = 0, str_wq = hf_wq h\<rparr>), l_fresh := Suc ?a\<rparr>" by (simp add: l1_def)
  then have i1: "lw_inv (tr @ [?it]) l1 Q xs {}"
    by (simp only:) (rule inv_obj_free[OF inv_item[OF i]], use fresh_free[OF i] in auto)
  note f = new_id_facts[OF i n(1), of ?it]
  have "keeps (tr @ [?it]) (l2\<lparr>l_estd := AList.update ?sid ?a (l_estd l2)\<rparr>)" if e: "wr_ext l1 l2" for l2
    using keepsI[OF inv_establish[OF inv_ext[OF i1 e], of ?a ?sid]] wr_ext_same[OF e] f n(2) fresh_free[OF i] lw_invD(2)[OF i] il(2)
    by (simp add: l1_def new_stream_def)
  then have w: "wp (bindP (writeHeader env ?sid (hf_endStream h) (hf_hf h))
      (\<lambda>_ l. (Ok (), l\<lparr>l_estd := AList.update ?sid ?a (l_estd l)\<rparr>))) (\<lambda>_. keeps (tr @ [?it])) (\<lambda>_. True) l1"
    unfolding wp_bind by (intro wp_mono[OF writeHeader_wp]) (auto simp: wp_def)
  have "headerHandler env h l = (case hf_initStream h of InitConnClosing \<Rightarrow> (Err LConnClosing, l1) | InitOther \<Rightarrow> (Ok (), l1)
      | InitOk \<Rightarrow> bindP (writeHeader env ?sid (hf_endStream h) (hf_hf h))
            (\<lambda>_ l. (Ok (), l\<lparr>l_estd := AList.update ?sid ?a (l_estd l)\<rparr>)) l1)"
    using assms(3) il(1) by (cases "hf_initStream h")
      (simp_all add: headerHandler_def originateStream_def alloc_stream_def upd_str_def new_stream_def Let_def l1_def)
  then show ?thesis using w keepsI[OF i1] by (cases "hf_initStream h") (simp_all add: wp_def)
qed

lemma serverHeader_wp:
  assumes "keeps tr l" "item_ok tr (l_side l) (CbHeader h)" "l_side l = serverSide"
  shows "wp (headerHandler env h) (\<lambda>_. keeps (tr @ [CbHeader h])) (\<lambda>_. True) l"
proof -
  let ?it = "CbHeader h" and ?sid = "hf_streamID h"
  obtain Q xs where i0: "lw_inv tr l Q xs {}" using assms(1) by (rule keepsE)
  have i: "lw_inv (tr @ [?it]) l Q xs {}" by (rule inv_item[OF i0]) simp
  have own: "hf_endStream h \<Longrightarrow> own_item ?sid ?it" using assms(2,3) by (simp add: item_ok_def)
  consider (none) "map_of (l_estd l) ?sid = None" | (headers) a where "map_of (l_estd l) ?sid = Some a" "\<not> hf_endStream h"
    | (queue) a where "map_of (l_estd l) ?sid = Some a" "hf_endStream h" "str_state (l_obj l a) \<noteq> st_empty"
    | (now) a where "map_of (l_estd l) ?sid = Some a" "hf_endStream h" "str_state (l_obj l a) = st_empty" by blast
  then show ?thesis
  proof cases
    case none
    then show ?thesis using assms(3) keepsI[OF i] by (simp add: wp_def headerHandler_def)
  next
    case (headers a)
    then show ?thesis
      using assms(3) wp_mono[OF writeHeader_wp[of env ?sid False "hf_hf h" l], of "\<lambda>_. keeps (tr @ [?it])" "\<lambda>_. True"] ext_keeps[OF keepsI[OF i]]
      by (simp add: wp_def headerHandler_def)
  next
    case (queue a)
    then have m: "(?sid, a) \<in> set (l_estd l)" using map_of_estd[OF i] by simp
    let ?s = "(l_obj l a)\<lparr>str_itl := enqueue ?it (str_itl (l_obj l a))\<rparr>"
    have "base_ok (tr @ [?it]) (l\<lparr>l_obj := (l_obj l)(a := ?s)\<rparr>) ?sid a (Q a @ [?it])"
      using lw_invD(4)[OF i m] ilq.R_enq own queue(2) by (auto simp: base_ok_def)
    moreover have "state_ok (l\<lparr>l_obj := (l_obj l)(a := ?s)\<rparr>) a (Q a @ [?it])"
      using lw_invD(5)[OF i m] queue(3) by (cases "Q a") (auto simp: state_ok_def)
    ultimately have "keeps (tr @ [?it]) (l\<lparr>l_obj := (l_obj l)(a := ?s)\<rparr>)"
      by (intro keepsI[OF inv_upd_same[OF i m tr_le_refl]]) simp_all
    then show ?thesis using queue assms(3) by (simp add: wp_def headerHandler_def upd_str_def)
  next
    case (now a)
    then obtain c where c: "hf_cleanup h = Some c" using own by (auto split: option.splits)
    have "wp (bindP (writeHeader env ?sid True (hf_hf h)) (\<lambda>_. cleanupStreamHandler (hf_cleanup h)))
        (\<lambda>_. keeps (tr @ [?it])) (\<lambda>_. True) l"
      unfolding wp_bind c
      by (rule wp_mono[OF writeHeader_wp]) (auto intro!: wp_mono[OF cleanup_keeps[OF ext_keeps[OF keepsI[OF i]]]])
    then show ?thesis using now assms(3) by (simp add: wp_def headerHandler_def)
  qed
qed

lemma preprocessData_wp:
  assumes "keeps tr l"
  shows "wp (preprocessData df) (\<lambda>_. keeps (tr @ [CbData df])) (\<lambda>_. True) l"
proof -
  let ?it = "CbData df" and ?sid = "df_streamID df"
  obtain Q xs where i: "lw_inv tr l Q xs {}" using assms by (rule keepsE)
  have t: "tr_le ?sid tr (tr @ [?it])" by (rule tr_le_item) simp
  show ?thesis
  proof (cases "map_of (l_estd l) ?sid")
    case None
    then have "keeps (tr @ [?it]) l" using map_of_estd[OF i, of ?sid] by (intro keepsI[OF inv_trace[OF i t]]) auto
    then show ?thesis using None by (simp add: wp_def preprocessData_def)
  next
    case (Some a)
    then have m: "(?sid, a) \<in> set (l_estd l)" using map_of_estd[OF i] by simp
    let ?s = "(l_obj l a)\<lparr>str_itl := enqueue ?it (str_itl (l_obj l a))\<rparr>"
    have base: "base_ok (tr @ [?it]) (l\<lparr>l_obj := (l_obj l)(a := ?s\<lparr>str_state := st\<rparr>)\<rparr>) ?sid a (Q a @ [?it])" for st
      using lw_invD(4)[OF i m] ilq.R_enq by (auto simp: base_ok_def)
    note so = lw_invD(5)[OF i m, simplified]
    show ?thesis
    proof (cases "str_state (l_obj l a) = st_empty")
      case True
      have "wp (lw_activate a) (\<lambda>_. keeps (tr @ [?it])) (\<lambda>_. True) (l\<lparr>l_obj := (l_obj l)(a := ?s\<lparr>str_state := st_active\<rparr>)\<rparr>)"
        by (rule wp_mono[OF inv_wake[OF i m t _ base]]) (use True so in \<open>auto simp: state_ok_def intro: keepsI\<close>)
      then show ?thesis using Some True by (simp add: wp_def preprocessData_def upd_str_def Let_def)
    next
      case False
      have "state_ok (l\<lparr>l_obj := (l_obj l)(a := ?s)\<rparr>) a (Q a @ [?it])"
        using so False by (cases "Q a") (auto simp: state_ok_def)
      from keepsI[OF inv_upd_same[OF i m t _ this]] base[of "str_state (l_obj l a)"] show ?thesis
        using Some False by (simp add: wp_def preprocessData_def upd_str_def Let_def)
    qed
  qed
qed

lemma goAway_wp:
  assumes "keeps tr l" "env_ok env l"
  shows "wp (goAwayHandler env code debug hu cc) (\<lambda>_. keeps tr) (\<lambda>_. True) l"
proof (cases "e_ssGoAwayHandler env")
  case (Some f)
  obtain cs r where f: "f code debug hu cc = (cs, r)" by fastforce
  then have c: "no_data cs" "r \<noteq> Panic" "r \<noteq> Diverge" using assms(2) Some by (auto simp: env_ok_def) (metis fst_conv snd_conv)+
  have "wp (\<lambda>l. bindP (\<lambda>l. (r, l)) (\<lambda>draining l. (Ok (), l\<lparr>l_draining := draining\<rparr>)) l) (\<lambda>_. keeps tr) (\<lambda>_. True) l'" if "wr_ext l l'" for l'
    using ext_keeps[OF ext_keeps[OF assms(1) that]] c by (cases r) (auto simp: wp_def bindP_def)
  then show ?thesis
    unfolding goAwayHandler_def Some option.case f prod.case wp_bind by (intro wp_mono[OF write_all_ext[OF c(1)]]) auto
qed (use assms in \<open>simp add: goAwayHandler_def\<close>)

lemma handle_wp:
  assumes "keeps tr l" "item_ok tr (l_side l) it" "env_ok env l"
  shows "wp (handle env it) (\<lambda>_. keeps (tr @ [it])) (\<lambda>_. True) l"
proof -
  note k = keeps_item[OF assms(1), of it]
  show ?thesis
  proof (cases it)
    case (CbHeader h)
    then show ?thesis using assms by (cases "l_side l") (simp_all add: clientHeader_wp serverHeader_wp)
  next
    case (CbCleanup c)
    then show ?thesis using k by (auto intro!: wp_mono[OF cleanup_keeps])
  next
    case (CbIncomingSettings ss)
    have "wp (bindP (applySettings env ss) (\<lambda>_. lw_write WSettingsAck)) (\<lambda>_. keeps (tr @ [it])) (\<lambda>_. True) l"
      unfolding wp_bind using k CbIncomingSettings assms(3)
      by (intro wp_mono[OF applySettings_wp]) (auto simp: env_ok_def intro: write_keeps)
    then show ?thesis using CbIncomingSettings by (simp add: incomingSettingsHandler_def)
  next
    case (CbPing ack d)
    have "keeps (tr @ [it]) (if \<not> ack then l\<lparr>l_bdpEst := timesnap (e_now env) d (l_bdpEst l)\<rparr> else l)"
      using k CbPing ext_keeps by (cases ack) auto
    from write_keeps[OF this, of "WPing ack d"] show ?thesis using CbPing by (simp add: wp_def pingHandler_def)
  next
    case CbIncomingGoAway
    then show ?thesis using k ext_keeps[of _ l "l\<lparr>l_draining := True\<rparr>"] by (simp add: wp_def incomingGoAwayHandler_def Let_def)
  qed (use assms k in \<open>auto simp: outgoingWindowUpdateHandler_def outgoingSettingsHandler_def outFlowControlSizeRequestHandler_def
      intro: write_keeps incomingWindowUpdate_wp registerStream_wp preprocessData_wp goAway_wp\<close>)
qed

text \<open>Handlers write no DATA frame.\<close>

definition muteP :: "('h, 'f, 'a) lprog \<Rightarrow> bool" where
  "muteP p = (\<forall>l sid. sent_on sid (l_sent (snd (p l))) = sent_on sid (l_sent l))"

lemma muteD: "muteP p \<Longrightarrow> sent_on sid (l_sent (snd (p l))) = sent_on sid (l_sent l)"
  by (simp add: muteP_def)

lemma quiet_mute [simp]: "quietP p \<Longrightarrow> muteP p"
  by (simp add: muteP_def quietD(2))

lemma mute_bind [intro]: "muteP p \<Longrightarrow> (\<And>x. muteP (f x)) \<Longrightarrow> muteP (bindP p f)"
  unfolding muteP_def bindP_def by (auto split: prod.splits res.splits) (metis snd_conv)+

lemma mute_write_all: "no_data cs \<Longrightarrow> muteP (lw_write_all cs)"
  by (induction cs) (auto intro!: mute_bind)

lemma mute_activate_waiting: "muteP (activate_waiting sids)"
proof (induction sids)
  case (Cons sid sids)
  note m = muteD[OF mute_bind[OF quiet_mute[OF quiet_activate] Cons.IH]] muteD[OF Cons.IH]
  show ?case by (simp add: muteP_def m split: option.split)
qed (simp add: muteP_def)

lemma mute_if: "muteP p \<Longrightarrow> muteP q \<Longrightarrow> muteP (if c then p else q)"
  by simp

lemma mute_applySettings: "muteP (applySettings env ss)"
proof (induction ss)
  case (Cons iv ss)
  note m = muteD[OF mute_bind[OF mute_if[OF mute_activate_waiting quiet_mute[OF quiet_ret]] Cons.IH]] muteD[OF Cons.IH]
  show ?case by (cases iv) (simp add: muteP_def Let_def m del: if_split)
qed (simp add: muteP_def)

lemma mute_write_establish:
  "muteP (bindP (writeHeader env i e f) (\<lambda>_ l. (Ok (), l\<lparr>l_estd := AList.update s a (l_estd l)\<rparr>)))"
  by (intro mute_bind) (simp, simp add: muteP_def)

lemma mute_originate: "muteP (originateStream env a)"
  by (auto simp: muteP_def originateStream_def Let_def muteD[OF mute_write_establish]
      split: prod.splits option.splits cbItem.splits init_answer.splits)

lemma mute_headerHandler: "muteP (headerHandler env h)"
  by (auto simp: muteP_def headerHandler_def muteD[OF mute_bind[OF quiet_mute[OF quiet_header] quiet_mute[OF quiet_cleanup]]]
      muteD[OF mute_originate] muteD[OF quiet_mute[OF quiet_header]] alloc_stream_def split: option.splits)

lemma mute_handle:
  assumes "env_ok env l"
  shows "sent_on sid (l_sent (snd (handle env it l))) = sent_on sid (l_sent l)"
proof (cases it)
  case (CbGoAway code debug hu cc)
  show ?thesis
  proof (cases "e_ssGoAwayHandler env")
    case (Some f)
    obtain cs r where f: "f code debug hu cc = (cs, r)" by fastforce
    then have "no_data cs" using assms Some by (auto simp: env_ok_def) (metis fst_conv)
    then have "muteP (bindP (lw_write_all cs) (\<lambda>_ l. bindP (\<lambda>l. (r, l)) (\<lambda>d l. (Ok (), l\<lparr>l_draining := d\<rparr>)) l))"
      by (intro mute_bind mute_write_all) (auto simp: muteP_def bindP_def split: res.splits)
    from muteD[OF this] show ?thesis using CbGoAway Some f by (simp add: goAwayHandler_def)
  qed (use CbGoAway in \<open>simp add: goAwayHandler_def ret_def\<close>)
next
  case (CbIncomingSettings ss)
  have "muteP (bindP (applySettings env ss) (\<lambda>_. lw_write WSettingsAck))" by (intro mute_bind mute_applySettings) simp
  from muteD[OF this] show ?thesis using CbIncomingSettings by (simp add: incomingSettingsHandler_def)
qed (auto simp: incomingWindowUpdateHandler_def outgoingWindowUpdateHandler_def outgoingSettingsHandler_def
    registerStreamHandler_def incomingGoAwayHandler_def preprocessData_def pingHandler_def outFlowControlSizeRequestHandler_def
    alloc_stream_def ret_def Let_def muteD[OF mute_headerHandler] muteD[OF quiet_mute[OF quiet_write]] muteD[OF quiet_mute[OF quiet_activate]]
    muteD[OF quiet_mute[OF quiet_cleanup]] split: option.splits)

section \<open>Runs of the loop\<close>

definition item_list :: "cbItem option \<Rightarrow> cbItem list" where
  "item_list it = (case it of None \<Rightarrow> [] | Some i \<Rightarrow> [i])"

definition input_ok :: "cbItem list \<Rightarrow> ('h, 'f) loopyWriter \<Rightarrow> 'h lenv \<Rightarrow> cbItem option \<Rightarrow> bool" where
  "input_ok tr l env it \<longleftrightarrow> env_ok env l \<and> (\<forall>i. it = Some i \<longrightarrow> item_ok tr (l_side l) i)"

inductive lw_reach :: "('h, 'f) loopyWriter \<Rightarrow> cbItem list \<Rightarrow> runpc \<Rightarrow> ('h, 'f) loopyWriter \<Rightarrow> bool" for l0 where
  start: "lw_reach l0 [] Blocking l0"
| step: "lw_reach l0 tr pc l \<Longrightarrow> input_ok tr l env it \<Longrightarrow> run_step env it pc l = (Ok (pc', fl), l')
    \<Longrightarrow> lw_reach l0 (tr @ item_list it) pc' l'"

text \<open>Before it blocks, the loop has found nothing to send.\<close>

definition stuck :: "cbItem list \<Rightarrow> ('h, 'f) loopyWriter \<Rightarrow> bool" where
  "stuck tr l \<longleftrightarrow> l_sendQuota l = 0 \<or> (\<exists>Q. lw_inv tr l Q [] {})"

definition flows :: "cbItem list \<Rightarrow> ('h, 'f) loopyWriter \<Rightarrow> ('h, 'f) loopyWriter \<Rightarrow> bool" where
  "flows tr l l' \<longleftrightarrow> (\<forall>sid. sent_on sid (l_sent l') = sent_on sid (l_sent l)
      \<or> int (length (sent_on sid (l_sent l'))) \<le> uint (l_oiws l') + inc_on sid tr)"

lemma turn_wp:
  fixes l :: "('h, 'f) loopyWriter"
  assumes "keeps tr l" "item_ok tr (l_side l) it" "env_ok env l"
  shows "wp (bindP (handle env it) (\<lambda>_. bindP (processData env) (\<lambda>_. ret (HasData g, False))))
     (\<lambda>(pc, fl) l'. keeps (tr @ [it]) l' \<and> flows (tr @ [it]) l l' \<and> (pc = Blocking \<longrightarrow> stuck (tr @ [it]) l')) (\<lambda>_. True) l"
proof -
  have h: "wp (handle env it) (\<lambda>_ l'. keeps (tr @ [it]) l' \<and> (\<forall>sid. sent_on sid (l_sent l') = sent_on sid (l_sent l))) (\<lambda>_. True) l"
    using handle_wp[OF assms(1-3)] mute_handle[OF assms(3)]
    by (auto simp: wp_def split: prod.splits res.splits) (metis snd_conv)
  show ?thesis
    unfolding wp_bind wp_ret prod.case
  proof (rule wp_mono[OF h])
    fix l1 :: "('h, 'f) loopyWriter"
    assume l1: "keeps (tr @ [it]) l1 \<and> (\<forall>sid. sent_on sid (l_sent l1) = sent_on sid (l_sent l))"
    then show "wp (processData env) (\<lambda>b l'. keeps (tr @ [it]) l' \<and> flows (tr @ [it]) l l'
        \<and> (HasData g = Blocking \<longrightarrow> stuck (tr @ [it]) l')) (\<lambda>_. True) l1"
      by (intro wp_mono[OF processData_wp[of "tr @ [it]" l1 env]]) (auto simp: flows_def sends_def)
  qed simp
qed

lemma run_step_wp:
  assumes "keeps tr l" "input_ok tr l env it" "pc = Blocking \<longrightarrow> stuck tr l"
  shows "wp (run_step env it pc) (\<lambda>(pc', fl) l'. keeps (tr @ item_list it) l' \<and> flows (tr @ item_list it) l l'
      \<and> (pc' = Blocking \<longrightarrow> stuck (tr @ item_list it) l')) (\<lambda>_. True) l"
proof (cases it)
  case None
  show ?thesis
  proof (cases pc)
    case Blocking
    then show ?thesis using None assms by (simp add: run_step_def item_list_def flows_def)
  next
    case (HasData g)
    show ?thesis
      using None HasData unfolding run_step_def item_list_def
      by (simp add: wp_bind) (intro conjI impI; rule wp_mono[OF processData_wp[OF assms(1)]]; auto simp: flows_def sends_def stuck_def)
  qed
next
  case (Some i)
  then have "item_ok tr (l_side l) i" "env_ok env l" using assms(2) by (auto simp: input_ok_def)
  note t = turn_wp[OF assms(1) this]
  show ?thesis
  proof (cases pc)
    case Blocking
    then show ?thesis using t[of True] Some by (simp add: run_step_def item_list_def)
  next
    case (HasData g)
    then show ?thesis using t[of g] Some by (simp add: run_step_def item_list_def)
  qed
qed

lemma reach_inv:
  assumes "lw_reach (newLoopyWriter sd fr h est) tr pc l"
  shows "keeps tr l \<and> (pc = Blocking \<longrightarrow> stuck tr l)"
  using assms
proof (induction rule: lw_reach.induct)
  case start
  have "lw_inv [] (newLoopyWriter sd fr h est) (\<lambda>_. []) [] {}" by (rule lw_inv_new)
  then show ?case by (auto simp: stuck_def intro: keepsI)
next
  case (step tr pc l env it pc' fl l')
  then have "wp (run_step env it pc) (\<lambda>(pc', fl) l'. keeps (tr @ item_list it) l' \<and> flows (tr @ item_list it) l l'
      \<and> (pc' = Blocking \<longrightarrow> stuck (tr @ item_list it) l')) (\<lambda>_. True) l"
    by (intro run_step_wp) auto
  then show ?case using step.hyps(3) by (simp add: wp_def)
qed

end
