(* ===== verification/LoopyProps.thy ===== *)
theory LoopyProps
  imports LoopyInv
begin

text \<open>
  What the gRPC writer guarantees: it never panics, never blocks while it could send, keeps within the peer's
  flow-control windows, sends each stream's data completely and in order, and frames header blocks as the reader of
  \<^verbatim>\<open>GrpcFrame\<close> expects them.
\<close>

section \<open>A concrete run\<close>

text \<open>
  A server whose peer shrinks the initial window to three bytes, then one stream with a message of six bytes: the
  writer sends three of them and waits.
\<close>

definition demo_he :: "unit hpackEnc" where
  "demo_he = \<lparr>he_WriteField = (\<lambda>f h. (fst f @ snd f, h)), he_SetMaxDynamicTableSize = (\<lambda>_ h. h)\<rparr>"

definition demo_env :: "u32 list \<Rightarrow> unit lenv" where
  "demo_env sids = \<lparr>e_hpack = demo_he, e_now = 0, e_order = (\<lambda>_. sids), e_offset = 1000, e_ssGoAwayHandler = None\<rparr>"

definition demo_fr :: framer_w where
  "demo_fr = \<lparr>reuseWriteBuffer = False, wbuf = [], AllowIllegalWrites = False, f_out = [], f_wfail = (\<lambda>_. None)\<rparr>"

definition demo_est :: "unit bdpEstimator" where
  "demo_est = \<lparr>sentAt = 0, bdp = 0, sample = 0, bwMax = (), isSent = False, sampleCount = 0, rtt = ()\<rparr>"

definition demo_data :: dataFrame where
  "demo_data = \<lparr>df_streamID = 1, df_endStream = False, df_h = [0, 0, 0, 0, 1], df_d = [7]\<rparr>"

fun demo_run :: "(u32 list \<times> cbItem option) list \<Rightarrow> cbItem list \<Rightarrow> runpc \<Rightarrow> (unit, unit) loopyWriter
   \<Rightarrow> (cbItem list \<times> runpc \<times> (unit, unit) loopyWriter) option" where
  "demo_run [] tr pc l = Some (tr, pc, l)"
| "demo_run ((sids, it) # ins) tr pc l =
     (if distinct sids \<and> set sids = set (map fst (l_estd l)) \<and> (case it of None \<Rightarrow> True | Some i \<Rightarrow> item_ok tr (l_side l) i)
      then case run_step (demo_env sids) it pc l of
             (Ok (pc', fl), l') \<Rightarrow> demo_run ins (tr @ item_list it) pc' l'
           | _ \<Rightarrow> None
      else None)"

lemma demo_input_ok:
  "distinct sids \<Longrightarrow> set sids = set (map fst (l_estd l)) \<Longrightarrow> (case it of None \<Rightarrow> True | Some i \<Rightarrow> item_ok tr (l_side l) i)
   \<Longrightarrow> input_ok tr l (demo_env sids) it"
  by (auto simp: input_ok_def env_ok_def demo_env_def)

lemma demo_run_reach:
  "demo_run ins tr pc l = Some (tr', pc', l') \<Longrightarrow> lw_reach l0 tr pc l \<Longrightarrow> lw_reach l0 tr' pc' l'"
proof (induction ins tr pc l rule: demo_run.induct)
  case (2 sids it ins tr pc l)
  obtain pc1 fl l1 where s: "run_step (demo_env sids) it pc l = (Ok (pc1, fl), l1)"
      "demo_run ins (tr @ item_list it) pc1 l1 = Some (tr', pc', l')"
    and c: "distinct sids" "set sids = set (map fst (l_estd l))" "case it of None \<Rightarrow> True | Some i \<Rightarrow> item_ok tr (l_side l) i"
    using 2(2) by (auto split: if_splits prod.splits res.splits)
  show ?case using 2(1) s(2) lw_reach.step[OF 2(3) demo_input_ok[OF c] s(1)] c s(1) by simp
qed simp

definition demo_l0 :: "(unit, unit) loopyWriter" where
  "demo_l0 = newLoopyWriter serverSide demo_fr () demo_est"

definition demo_open :: "(u32 list \<times> cbItem option) list" where
  "demo_open = [([], Some (CbIncomingSettings [(SettingInitialWindowSize, 3)])), ([], Some (CbRegisterStream 1 (newWriteQuota 64)))]"

definition demo_send :: "(u32 list \<times> cbItem option) list" where
  "demo_send = [([1], Some (CbData demo_data)), ([1], None)]"

lemmas eval_defs = run_step_def bindP_def ret_def demo_env_def demo_he_def demo_fr_def demo_est_def newLoopyWriter_def
  processData_def osl_dequeue_def osl_enqueue_def newOutStreamList_def head_addr_def tail_addr_def defaultWindowSize_def
  lw_write_def Let_def incomingSettingsHandler_def WriteSettingsAck_def startWrite_def endWrite_def item_ok_def item_list_def
  registerStreamHandler_def alloc_stream_def new_stream_def named_def preprocessData_def demo_data_def upd_str_def lw_activate_def
  enqueue_def alloc_node_def newItemList_def deleteSelf_def peek_def processChunk_def chunk_sizes_def http2MaxFrameLen_def
  chunk_buf_def chunk_done_def set_head_def requeue_def isEmpty_def WriteData_def writeBytes_def validStreamID_def
  minBatchSize_def

definition demo_tr :: "cbItem list" where
  "demo_tr = [CbIncomingSettings [(SettingInitialWindowSize, 3)], CbRegisterStream 1 (newWriteQuota 64)]"

lemma demo_opened:
  "\<exists>l. demo_run demo_open [] Blocking demo_l0 = Some (demo_tr, HasData True, l) \<and> l_side l = serverSide \<and> l_estd l = [(1, tail_addr + 1)]
     \<and> l_sent l = [WSettingsAck]
     \<and> (\<exists>l'. run_step (demo_env [1]) (Some (CbData demo_data)) (HasData True) l = (Ok (HasData True, False), l')
          \<and> l_sent l' = [WSettingsAck, WData 1 False [0, 0, 0]] \<and> l_oiws l' = 3)"
  by (simp add: demo_open_def demo_l0_def demo_tr_def eval_defs)

lemma demo_waits:
  "\<exists>l. demo_run (demo_open @ demo_send) [] Blocking demo_l0 = Some (demo_tr @ [CbData demo_data], Blocking, l)
     \<and> (1, tail_addr + 1) \<in> set (l_estd l) \<and> \<not> isEmpty (str_itl (l_obj l (tail_addr + 1))) \<and> l_sendQuota l = 65532 \<and> l_oiws l = 3
     \<and> l_sent l = [WSettingsAck, WData 1 False [0, 0, 0]]"
  by (simp add: demo_open_def demo_send_def demo_l0_def demo_tr_def eval_defs)

lemma demo_reach: "demo_run ins [] Blocking demo_l0 = Some (tr, pc, l)
    \<Longrightarrow> lw_reach (newLoopyWriter serverSide demo_fr () demo_est) tr pc l"
  using demo_run_reach[OF _ lw_reach.start] by (simp add: demo_l0_def)

section \<open>Properties\<close>

text \<open>C12. The writer never goes to sleep on work it could do: whenever it blocks for the next control item, every established
  stream with queued data has used up its own window, or the connection's window is used up.\<close>

theorem writer_blocks_only_when_stuck:
  assumes "lw_reach (newLoopyWriter sd fr h est) tr Blocking l"
    and "(sid, a) \<in> set (l_estd l)" and "\<not> isEmpty (str_itl (l_obj l a))"
  shows "l_sendQuota l = 0 \<or> uint (l_oiws l) \<le> str_bytesOutStanding (l_obj l a)"
proof (cases "l_sendQuota l = 0")
  case False
  then obtain Q where i: "lw_inv tr l Q [] {}" using reach_inv[OF assms(1)] by (auto simp: stuck_def)
  have "str_state (l_obj l a) \<noteq> st_active" using lw_invD(7)[OF i] assms(2) by auto
  moreover have "str_state (l_obj l a) \<noteq> st_empty"
    using lw_invD(5)[OF i assms(2)] peek_item(1)[OF i assms(2)] assms(3) by (simp add: state_ok_def)
  ultimately have "str_state (l_obj l a) = st_waitingOnStreamQuota" by (cases "str_state (l_obj l a)") auto
  then show ?thesis using lw_invD(5)[OF i assms(2)] by (simp add: state_ok_def)
qed simp

theorem writer_blocks_only_when_stuck_witness:
  "\<exists>l. demo_run (demo_open @ demo_send) [] Blocking demo_l0 = Some (demo_tr @ [CbData demo_data], Blocking, l)
     \<and> \<not> isEmpty (str_itl (l_obj l (tail_addr + 1))) \<and> 3 \<le> str_bytesOutStanding (l_obj l (tail_addr + 1))"
proof -
  obtain l where l: "demo_run (demo_open @ demo_send) [] Blocking demo_l0 = Some (demo_tr @ [CbData demo_data], Blocking, l)"
    "(1, tail_addr + 1) \<in> set (l_estd l)" "\<not> isEmpty (str_itl (l_obj l (tail_addr + 1)))" "l_sendQuota l = 65532" "l_oiws l = 3"
    using demo_waits by blast
  from writer_blocks_only_when_stuck[OF demo_reach[OF l(1)] l(2,3)] l show ?thesis by auto
qed

text \<open>C15. Whatever control items arrive, a turn of the writer returns: it never fails a type assertion, dereferences nil
  or hangs.\<close>

theorem writer_never_panics:
  assumes "lw_reach (newLoopyWriter sd fr h est) tr pc l" and "input_ok tr l env it"
  shows "(\<exists>x l'. run_step env it pc l = (Ok x, l')) \<or> (\<exists>e l'. run_step env it pc l = (Err e, l'))"
proof -
  have "wp (run_step env it pc) (\<lambda>(pc', fl) l'. keeps (tr @ item_list it) l' \<and> flows (tr @ item_list it) l l'
      \<and> (pc' = Blocking \<longrightarrow> stuck (tr @ item_list it) l')) (\<lambda>_. True) l"
    using reach_inv[OF assms(1)] assms(2) by (intro run_step_wp) auto
  then show ?thesis by (auto simp: wp_def split: prod.splits res.splits)
qed

theorem writer_never_panics_witness:
  "\<exists>l. demo_run demo_open [] Blocking demo_l0 = Some (demo_tr, HasData True, l)
     \<and> ((\<exists>x l'. run_step (demo_env [1]) (Some (CbData demo_data)) (HasData True) l = (Ok x, l'))
        \<or> (\<exists>e l'. run_step (demo_env [1]) (Some (CbData demo_data)) (HasData True) l = (Err e, l')))"
proof -
  obtain l where l: "demo_run demo_open [] Blocking demo_l0 = Some (demo_tr, HasData True, l)" "l_estd l = [(1, tail_addr + 1)]"
    using demo_opened by blast
  have "input_ok demo_tr l (demo_env [1]) (Some (CbData demo_data))"
    using l(2) by (intro demo_input_ok) (simp_all add: item_ok_def)
  from writer_never_panics[OF demo_reach[OF l(1)] this] l(1) show ?thesis by blast
qed

text \<open>C10. Flow control on the sending side: no DATA frame is longer than 16384 bytes, the bytes sent on the connection never
  exceed its initial window plus the credit received, and whenever a turn sends data on a stream, the bytes sent on that stream
  stay within the current initial window plus the credit received for it.\<close>

theorem writer_within_windows:
  assumes "lw_reach (newLoopyWriter sd fr h est) tr pc l" and "input_ok tr l env it"
    and "run_step env it pc l = (Ok (pc', fl), l')"
  shows "int (sent_total (l_sent l')) \<le> 65535 + inc_on 0 (tr @ item_list it)
     \<and> (\<forall>c\<in>set (l_sent l'). data_len c \<le> 16384)
     \<and> (\<forall>sid. sent_on sid (l_sent l') \<noteq> sent_on sid (l_sent l) \<longrightarrow>
          int (length (sent_on sid (l_sent l'))) \<le> uint (l_oiws l') + inc_on sid (tr @ item_list it))"
proof -
  have "wp (run_step env it pc) (\<lambda>(pc', fl) l'. keeps (tr @ item_list it) l' \<and> flows (tr @ item_list it) l l'
      \<and> (pc' = Blocking \<longrightarrow> stuck (tr @ item_list it) l')) (\<lambda>_. True) l"
    using reach_inv[OF assms(1)] assms(2) by (intro run_step_wp) auto
  then have k: "keeps (tr @ item_list it) l'" and f: "flows (tr @ item_list it) l l'" using assms(3) by (simp_all add: wp_def)
  obtain Q xs where i: "lw_inv (tr @ item_list it) l' Q xs {}" using k by (rule keepsE)
  have "0 \<le> uint (l_sendQuota l')" by simp
  then have "int (sent_total (l_sent l')) \<le> 65535 + inc_on 0 (tr @ item_list it)" using lw_invD(9)[OF i] by linarith
  then show ?thesis using lw_invD(10)[OF i] f by (auto simp: flows_def http2MaxFrameLen_def)
qed

theorem writer_within_windows_witness:
  "\<exists>l l' :: (unit, unit) loopyWriter.
     run_step (demo_env [1]) (Some (CbData demo_data)) (HasData True) l = (Ok (HasData True, False), l')
     \<and> sent_on 1 (l_sent l') = [0, 0, 0] \<and> int (length (sent_on 1 (l_sent l'))) \<le> 3"
proof -
  obtain l l' where l: "demo_run demo_open [] Blocking demo_l0 = Some (demo_tr, HasData True, l)" "l_estd l = [(1, tail_addr + 1)]"
    "l_sent l = [WSettingsAck]" "run_step (demo_env [1]) (Some (CbData demo_data)) (HasData True) l = (Ok (HasData True, False), l')"
    "l_sent l' = [WSettingsAck, WData 1 False [0, 0, 0]]" "l_oiws l' = 3" using demo_opened by blast
  have "input_ok demo_tr l (demo_env [1]) (Some (CbData demo_data))"
    using l(2) by (intro demo_input_ok) (simp_all add: item_ok_def)
  from writer_within_windows[OF demo_reach[OF l(1)] this l(4)] l(3,5,6)
  have "sent_on 1 (l_sent l') = [0, 0, 0] \<and> int (length (sent_on 1 (l_sent l'))) \<le> 3"
    by (simp add: demo_tr_def item_list_def inc_on_def)
  with l(4) show ?thesis by blast
qed

text \<open>The items of a list, by following its pointers.\<close>

definition queued :: "cbItem itemList \<Rightarrow> cbItem list" where
  "queued il = map the (walk (il_fresh il) (il_heap il) (il_head il))"

lemma queued_R: "il_R il q \<Longrightarrow> queued il = q"
  using il_R_dequeueAll[of il q] by (auto simp: queued_def dequeueAll_def)

text \<open>C11. Nothing is lost, repeated or reordered: for every established stream, the payload of the DATA frames written
  so far followed by the data still queued is the data handed to the writer, in the order it was handed over.\<close>

theorem writer_data_in_order:
  assumes "lw_reach (newLoopyWriter sd fr h est) tr pc l" and "(sid, a) \<in> set (l_estd l)"
  shows "sent_on sid (l_sent l) @ data_of (queued (str_itl (l_obj l a))) = data_in sid tr"
proof -
  obtain Q xs where i: "lw_inv tr l Q xs {}" using reach_inv[OF assms(1)] by (auto elim: keepsE)
  show ?thesis using lw_invD(4)[OF i assms(2)] by (auto simp: base_ok_def queued_R)
qed

theorem writer_data_in_order_witness:
  "\<exists>l. demo_run (demo_open @ demo_send) [] Blocking demo_l0 = Some (demo_tr @ [CbData demo_data], Blocking, l)
     \<and> sent_on 1 (l_sent l) = [0, 0, 0] \<and> data_of (queued (str_itl (l_obj l (tail_addr + 1)))) = [0, 1, 7]"
proof -
  obtain l where l: "demo_run (demo_open @ demo_send) [] Blocking demo_l0 = Some (demo_tr @ [CbData demo_data], Blocking, l)"
    "(1, tail_addr + 1) \<in> set (l_estd l)" "l_sent l = [WSettingsAck, WData 1 False [0, 0, 0]]" using demo_waits by blast
  from writer_data_in_order[OF demo_reach[OF l(1)] l(2)] l show ?thesis
    by (auto simp: demo_tr_def demo_data_def data_in_def)
qed

text \<open>Header blocks.\<close>

fun frag_of :: "wcmd \<Rightarrow> byte list" where
  "frag_of (WHeaders p) = hp_BlockFragment p"
| "frag_of (WCont sid eh frag) = frag"
| "frag_of _ = []"

lemma frag_header_cmd [simp]: "frag_of (header_cmd sid es first eh frag) = frag"
  by (simp add: header_cmd_def)

lemma header_cmds_frags:
  "concat (map frag_of (header_cmds sid es first buf)) = buf
   \<and> (\<forall>c\<in>set (header_cmds sid es first buf). length (frag_of c) \<le> http2MaxFrameLen)"
proof (induction sid es first buf rule: header_cmds.induct)
  case (1 sid es first buf)
  then show ?case by (cases "length buf > http2MaxFrameLen") (simp_all add: header_cmds.simps[of sid es first buf])
qed

lemma header_cmd_legal:
  assumes "validStreamID sid" "length frag \<le> http2MaxFrameLen"
  shows "wlegal (header_cmd sid es first eh frag)"
  using assms by (auto simp: header_cmd_def wlegal_def payload_of_def pad_prefix_def prio0_def validStreamIDOrZero_def http2MaxFrameLen_def)

lemma header_cmds_seq:
  "validStreamID sid \<Longrightarrow> lhs = (if first then 0 else sid) \<Longrightarrow>
   seq_ok lhs (header_cmds sid es first buf) \<and> fold (\<lambda>c lhs. next_lhs lhs c) (header_cmds sid es first buf) lhs = 0"
proof (induction sid es first buf arbitrary: lhs rule: header_cmds.induct)
  case (1 sid es first buf)
  have o: "order_ok lhs (header_cmd sid es first eh f)" "next_lhs lhs (header_cmd sid es first eh f) = (if eh then 0 else sid)" for eh f
    using 1(3) by (auto simp: header_cmd_def)
  show ?case
  proof (cases "length buf > http2MaxFrameLen")
    case True
    then show ?thesis using 1 o header_cmd_legal[of sid] by (simp add: header_cmds.simps[of sid es first buf])
  next
    case False
    then show ?thesis using 1(2) o header_cmd_legal[of sid buf] by (simp add: header_cmds.simps[of sid es first buf])
  qed
qed

text \<open>C23. A header block of any size goes out as one HEADERS frame and CONTINUATION frames of at most 16384 bytes whose
  fragments put together are the encoded block, contiguous and closed by END_HEADERS: a sequence in the sense of the
  framer's round trip, after which no block is open.\<close>

theorem header_block_framing:
  assumes "writeHeader env sid es hf l = (Ok (), l')" and "validStreamID sid"
  shows "\<exists>cs. l_sent l' = l_sent l @ cs \<and> concat (map frag_of cs) = fst (encodeFields (e_hpack env) hf (l_hEnc l))
     \<and> (\<forall>c\<in>set cs. length (frag_of c) \<le> 16384) \<and> seq_ok 0 cs \<and> fold (\<lambda>c lhs. next_lhs lhs c) cs 0 = 0"
proof -
  obtain buf h where b: "encodeFields (e_hpack env) hf (l_hEnc l) = (buf, h)" by fastforce
  have "wp (writeFragments sid es True buf)
      (\<lambda>_ l'. \<exists>fr. l' = l\<lparr>l_hEnc := h, l_framer := fr, l_sent := l_sent l @ header_cmds sid es True buf\<rparr>) (\<lambda>_. True) (l\<lparr>l_hEnc := h\<rparr>)"
    using writeFragments_wp[of sid es True buf "l\<lparr>l_hEnc := h\<rparr>"] by (auto elim!: wp_mono)
  then have "l_sent l' = l_sent l @ header_cmds sid es True buf" using assms(1) b by (auto simp: wp_def writeHeader_def)
  then show ?thesis
    using b header_cmds_frags[of sid es True buf] header_cmds_seq[OF assms(2), of 0 True es buf] by (auto simp: http2MaxFrameLen_def)
qed

theorem header_block_framing_witness:
  "\<exists>l' :: (unit, unit) loopyWriter. writeHeader (demo_env []) 1 True [([1, 2], [3])] demo_l0 = (Ok (), l')
     \<and> concat (map frag_of (l_sent l')) = [1, 2, 3] \<and> seq_ok 0 (l_sent l')"
proof -
  obtain l' :: "(unit, unit) loopyWriter" where l: "writeHeader (demo_env []) 1 True [([1, 2], [3])] demo_l0 = (Ok (), l')"
    by (simp add: writeHeader_def writeFragments.simps demo_l0_def eval_defs header_cmd_def WriteHeaders_def prio0_def writeByte_def)
  have "validStreamID 1" by (simp add: validStreamID_def)
  from header_block_framing[OF l this] show ?thesis
    using l by (auto simp: demo_l0_def newLoopyWriter_def demo_env_def demo_he_def)
qed

end
