(* ===== verification/GoText.thy ===== *)
theory GoText
  imports Prelude "HOL-Library.Signed_Division"
begin

text \<open>
  The text routines of Go's standard library that the transports use, as functions on byte lists: decoding and encoding
  one rune of UTF-8 (\<^verbatim>\<open>utf8.DecodeRuneInString\<close>, \<^verbatim>\<open>string(r)\<close>), decimal and hexadecimal numbers (\<^verbatim>\<open>strconv\<close>), and
  base64 (\<^verbatim>\<open>base64.StdEncoding\<close>, \<^verbatim>\<open>base64.RawStdEncoding\<close>), each with its round trip. \<open>to_valid\<close> is the reading that a
  decoder of UTF-8 gives to an arbitrary byte string: every byte that starts no rune becomes U+FFFD.
\<close>

named_theorems text_simps \<open>round trips of the text encodings\<close>

section \<open>UTF-8\<close>

definition RuneError :: nat where "RuneError = 0xFFFD"

definition cont :: "byte \<Rightarrow> bool" where "cont b \<longleftrightarrow> 0x80 \<le> unat b \<and> unat b \<le> 0xBF"

text \<open>The rune at the front and its width; the width is 0 on the empty string and 1 on an invalid encoding.\<close>

fun rune2 :: "nat \<Rightarrow> byte list \<Rightarrow> nat \<times> nat" where
  "rune2 n0 (b1 # _) = (if cont b1 then (n0 mod 32 * 64 + unat b1 mod 64, 2) else (RuneError, 1))"
| "rune2 n0 [] = (RuneError, 1)"

fun rune3 :: "nat \<Rightarrow> byte list \<Rightarrow> nat \<times> nat" where
  "rune3 n0 (b1 # b2 # _) =
     (if cont b1 \<and> (n0 = 0xE0 \<longrightarrow> 0xA0 \<le> unat b1) \<and> (n0 = 0xED \<longrightarrow> unat b1 \<le> 0x9F) \<and> cont b2
      then (n0 mod 16 * 4096 + unat b1 mod 64 * 64 + unat b2 mod 64, 3) else (RuneError, 1))"
| "rune3 n0 _ = (RuneError, 1)"

fun rune4 :: "nat \<Rightarrow> byte list \<Rightarrow> nat \<times> nat" where
  "rune4 n0 (b1 # b2 # b3 # _) =
     (if cont b1 \<and> (n0 = 0xF0 \<longrightarrow> 0x90 \<le> unat b1) \<and> (n0 = 0xF4 \<longrightarrow> unat b1 \<le> 0x8F) \<and> cont b2 \<and> cont b3
      then (n0 mod 8 * 262144 + unat b1 mod 64 * 4096 + unat b2 mod 64 * 64 + unat b3 mod 64, 4)
      else (RuneError, 1))"
| "rune4 n0 _ = (RuneError, 1)"

fun DecodeRune :: "byte list \<Rightarrow> nat \<times> nat" where
  "DecodeRune [] = (RuneError, 0)"
| "DecodeRune (b0 # s) =
     (let n0 = unat b0 in
      if n0 < 0x80 then (n0, 1)
      else if 0xC2 \<le> n0 \<and> n0 \<le> 0xDF then rune2 n0 s
      else if 0xE0 \<le> n0 \<and> n0 \<le> 0xEF then rune3 n0 s
      else if 0xF0 \<le> n0 \<and> n0 \<le> 0xF4 then rune4 n0 s
      else (RuneError, 1))"

definition EncodeRune :: "nat \<Rightarrow> byte list" where
  "EncodeRune r =
     (if r < 0x80 then [of_nat r]
      else if r < 0x800 then [of_nat (0xC0 + r div 64), of_nat (0x80 + r mod 64)]
      else if r > 0x10FFFF \<or> (0xD800 \<le> r \<and> r \<le> 0xDFFF) then [0xEF, 0xBF, 0xBD]
      else if r < 0x10000 then
        [of_nat (0xE0 + r div 4096), of_nat (0x80 + r div 64 mod 64), of_nat (0x80 + r mod 64)]
      else [of_nat (0xF0 + r div 262144), of_nat (0x80 + r div 4096 mod 64), of_nat (0x80 + r div 64 mod 64),
            of_nat (0x80 + r mod 64)])"

definition bad_rune :: "nat \<times> nat \<Rightarrow> bool" where "bad_rune d \<longleftrightarrow> d = (RuneError, 1)"

lemma rune2_cases:
  "bad_rune (rune2 n s) \<or> (\<exists>b1 u. s = b1 # u \<and> cont b1 \<and> rune2 n s = (n mod 32 * 64 + unat b1 mod 64, 2))"
  by (cases "(n, s)" rule: rune2.cases) (simp_all add: bad_rune_def)

lemma rune3_cases:
  "bad_rune (rune3 n s) \<or> (\<exists>b1 b2 u. s = b1 # b2 # u \<and> cont b1 \<and> cont b2 \<and>
      (n = 0xE0 \<longrightarrow> 0xA0 \<le> unat b1) \<and> (n = 0xED \<longrightarrow> unat b1 \<le> 0x9F) \<and>
      rune3 n s = (n mod 16 * 4096 + unat b1 mod 64 * 64 + unat b2 mod 64, 3))"
  by (cases "(n, s)" rule: rune3.cases) (simp_all add: bad_rune_def)

lemma rune4_cases:
  "bad_rune (rune4 n s) \<or> (\<exists>b1 b2 b3 u. s = b1 # b2 # b3 # u \<and> cont b1 \<and> cont b2 \<and> cont b3 \<and>
      (n = 0xF0 \<longrightarrow> 0x90 \<le> unat b1) \<and> (n = 0xF4 \<longrightarrow> unat b1 \<le> 0x8F) \<and>
      rune4 n s = (n mod 8 * 262144 + unat b1 mod 64 * 4096 + unat b2 mod 64 * 64 + unat b3 mod 64, 4))"
  by (cases "(n, s)" rule: rune4.cases) (simp_all add: bad_rune_def)

text \<open>What the front of a string can be: an ASCII byte, an invalid byte, or a rune of two, three or four bytes.\<close>

lemma DecodeRune_cases:
  obtains (ascii) "unat b0 < 0x80" "DecodeRune (b0 # s) = (unat b0, 1)"
  | (bad) "0x80 \<le> unat b0" "bad_rune (DecodeRune (b0 # s))"
  | (two) b1 u where "0xC2 \<le> unat b0" "unat b0 \<le> 0xDF" "s = b1 # u" "cont b1"
      "DecodeRune (b0 # s) = (unat b0 mod 32 * 64 + unat b1 mod 64, 2)"
  | (three) b1 b2 u where "0xE0 \<le> unat b0" "unat b0 \<le> 0xEF" "s = b1 # b2 # u" "cont b1" "cont b2"
      "unat b0 = 0xE0 \<longrightarrow> 0xA0 \<le> unat b1" "unat b0 = 0xED \<longrightarrow> unat b1 \<le> 0x9F"
      "DecodeRune (b0 # s) = (unat b0 mod 16 * 4096 + unat b1 mod 64 * 64 + unat b2 mod 64, 3)"
  | (four) b1 b2 b3 u where "0xF0 \<le> unat b0" "unat b0 \<le> 0xF4" "s = b1 # b2 # b3 # u" "cont b1" "cont b2" "cont b3"
      "unat b0 = 0xF0 \<longrightarrow> 0x90 \<le> unat b1" "unat b0 = 0xF4 \<longrightarrow> unat b1 \<le> 0x8F"
      "DecodeRune (b0 # s) = (unat b0 mod 8 * 262144 + unat b1 mod 64 * 4096 + unat b2 mod 64 * 64 + unat b3 mod 64, 4)"
proof -
  consider (a) "unat b0 < 0x80" | (b) "0xC2 \<le> unat b0" "unat b0 \<le> 0xDF" | (c) "0xE0 \<le> unat b0" "unat b0 \<le> 0xEF"
    | (d) "0xF0 \<le> unat b0" "unat b0 \<le> 0xF4"
    | (e) "0x80 \<le> unat b0" "unat b0 < 0xC2 \<or> 0xF4 < unat b0" by linarith
  then show thesis
  proof cases
    case a then show ?thesis by (intro ascii) simp_all
  next
    case b then show ?thesis using rune2_cases[of "unat b0" s] bad two by fastforce
  next
    case c then show ?thesis using rune3_cases[of "unat b0" s] bad three by fastforce
  next
    case d then show ?thesis using rune4_cases[of "unat b0" s] bad four by fastforce
  next
    case e then show ?thesis by (intro bad) (auto simp: bad_rune_def)
  qed
qed

declare DecodeRune.simps(2) [simp del]

lemma DecodeRune_pos: "s \<noteq> [] \<Longrightarrow> 0 < snd (DecodeRune s)"
proof (cases s)
  case (Cons b0 t) then show ?thesis by (cases rule: DecodeRune_cases[of b0 t]) (auto simp: bad_rune_def)
qed simp

lemma DecodeRune_le: "snd (DecodeRune s) \<le> length s"
proof (cases s)
  case (Cons b0 t) then show ?thesis by (cases rule: DecodeRune_cases[of b0 t]) (auto simp: bad_rune_def)
qed simp

lemma DecodeRune_shrink [intro]: "s \<noteq> [] \<Longrightarrow> length s - snd (DecodeRune s) < length s"
  using DecodeRune_pos[of s] by (cases s) (simp_all del: DecodeRune.simps)

function to_valid :: "byte list \<Rightarrow> byte list" where
  "to_valid s = (if s = [] then [] else EncodeRune (fst (DecodeRune s)) @ to_valid (drop (snd (DecodeRune s)) s))"
  by pat_completeness auto
termination
  by (relation "measure length") (auto simp del: DecodeRune.simps)

function valid_utf8 :: "byte list \<Rightarrow> bool" where
  "valid_utf8 s = (if s = [] then True else \<not> bad_rune (DecodeRune s) \<and> valid_utf8 (drop (snd (DecodeRune s)) s))"
  by pat_completeness auto
termination
  by (relation "measure length") (auto simp del: DecodeRune.simps)

declare to_valid.simps [simp del] valid_utf8.simps [simp del]

lemma of_nat_byte: "n = unat b \<Longrightarrow> of_nat n = (b :: byte)"
  by simp

lemma mod_offset: "(k * m + x) mod m = x" if "x < m" for x m k :: nat
  using that by simp

lemma div_offset: "(k * m + x) div m = k" if "x < m" for x m k :: nat
  using that by simp

lemma EncodeRune2:
  assumes "0xC2 \<le> a" "a \<le> 0xDF" "0x80 \<le> b" "b \<le> 0xBF"
  shows "EncodeRune (a mod 32 * 64 + b mod 64) = [of_nat a, of_nat b]"
proof -
  define x where "x = a - 0xC0"
  define y where "y = b - 0x80"
  have e: "a = 6 * 32 + x" "b = 2 * 64 + y" and l: "2 \<le> x" "x < 32" "y < 64" using assms by (simp_all add: x_def y_def)
  have "a mod 32 = x" "b mod 64 = y" using mod_offset[OF l(2), of 6] mod_offset[OF l(3), of 2] e by simp_all
  moreover have "(x * 64 + y) div 64 = x" "(x * 64 + y) mod 64 = y" "0x80 \<le> x * 64 + y" "x * 64 + y < 0x800" using l by simp_all
  ultimately show ?thesis using e by (simp add: EncodeRune_def)
qed

lemma EncodeRune3:
  assumes "0xE0 \<le> a" "a \<le> 0xEF" "0x80 \<le> b" "b \<le> 0xBF" "0x80 \<le> c" "c \<le> 0xBF"
    and "a = 0xE0 \<longrightarrow> 0xA0 \<le> b" "a = 0xED \<longrightarrow> b \<le> 0x9F"
  shows "EncodeRune (a mod 16 * 4096 + b mod 64 * 64 + c mod 64) = [of_nat a, of_nat b, of_nat c]"
proof -
  define x where "x = a - 0xE0"
  define y where "y = b - 0x80"
  define z where "z = c - 0x80"
  define r where "r = x * 4096 + y * 64 + z"
  have e: "a = 14 * 16 + x" "b = 2 * 64 + y" "c = 2 * 64 + z" and l: "x < 16" "y < 64" "z < 64" "x = 0 \<Longrightarrow> 32 \<le> y" "x = 13 \<Longrightarrow> y < 32"
    using assms by (auto simp: x_def y_def z_def)
  have m: "a mod 16 = x" "b mod 64 = y" "c mod 64 = z"
    using mod_offset[OF l(1), of 14] mod_offset[OF l(2), of 2] mod_offset[OF l(3), of 2] e by simp_all
  have r': "r = (x * 64 + y) * 64 + z" by (simp add: r_def)
  have "r div 64 = x * 64 + y" "r mod 64 = z" unfolding r' by (rule div_offset mod_offset, rule l(3))+
  moreover have "r div 4096 = x" "(x * 64 + y) mod 64 = y" using l by (simp_all add: r_def)
  moreover have "0x800 \<le> r" "r < 0x10000" using l by (auto simp: r_def) linarith
  moreover have "\<not> (0xD800 \<le> r \<and> r \<le> 0xDFFF)"
  proof (cases "x \<le> 12")
    case False
    then have "x = 13 \<or> 14 \<le> x" by linarith
    then show ?thesis using l by (auto simp: r_def)
  qed (use l in \<open>auto simp: r_def\<close>)
  ultimately show ?thesis using e m by (auto simp: EncodeRune_def r_def[symmetric])
qed

lemma EncodeRune4:
  assumes "0xF0 \<le> a" "a \<le> 0xF4" "0x80 \<le> b" "b \<le> 0xBF" "0x80 \<le> c" "c \<le> 0xBF" "0x80 \<le> d" "d \<le> 0xBF"
    and "a = 0xF0 \<longrightarrow> 0x90 \<le> b" "a = 0xF4 \<longrightarrow> b \<le> 0x8F"
  shows "EncodeRune (a mod 8 * 262144 + b mod 64 * 4096 + c mod 64 * 64 + d mod 64) = [of_nat a, of_nat b, of_nat c, of_nat d]"
proof -
  define x where "x = a - 0xF0"
  define y where "y = b - 0x80"
  define z where "z = c - 0x80"
  define w where "w = d - 0x80"
  define r where "r = x * 262144 + y * 4096 + z * 64 + w"
  have e: "a = 30 * 8 + x" "b = 2 * 64 + y" "c = 2 * 64 + z" "d = 2 * 64 + w"
    and l: "x < 8" "y < 64" "z < 64" "w < 64" "x = 0 \<Longrightarrow> 16 \<le> y" "x = 4 \<Longrightarrow> y < 16" "x \<le> 4"
    using assms by (auto simp: x_def y_def z_def w_def)
  have m: "a mod 8 = x" "b mod 64 = y" "c mod 64 = z" "d mod 64 = w"
    using mod_offset[OF l(1), of 30] mod_offset[OF l(2), of 2] mod_offset[OF l(3), of 2] mod_offset[OF l(4), of 2] e by simp_all
  have r1: "r = ((x * 64 + y) * 64 + z) * 64 + w" by (simp add: r_def)
  have d1: "r div 64 = (x * 64 + y) * 64 + z" "r mod 64 = w" unfolding r1 by (rule div_offset mod_offset, rule l(4))+
  have "r div 4096 = r div 64 div 64" "r div 262144 = r div 4096 div 64" by (simp_all flip: div_mult2_eq)
  then have d2: "r div 4096 = x * 64 + y" "r div 262144 = x" by (simp_all only: d1 div_offset l)
  have d3: "r div 64 mod 64 = z" "r div 4096 mod 64 = y" by (simp_all only: d1 d2 mod_offset l)
  have "0x10000 \<le> r" using l(5) by (cases "x = 0") (simp_all add: r_def)
  moreover have "r \<le> 0x10FFFF"
  proof (cases "x = 4")
    case False
    then have "x \<le> 3" using l(7) by simp
    then show ?thesis using l(2-4) unfolding r_def by linarith
  qed (use l(3,4,6) in \<open>simp add: r_def\<close>)
  ultimately show ?thesis unfolding m r_def[symmetric] using e d1 d2 d3 by (simp add: EncodeRune_def)
qed

text \<open>Encoding what was decoded gives the bytes back, except at an invalid byte.\<close>

lemma EncodeRune_Decode:
  assumes "s \<noteq> []" "\<not> bad_rune (DecodeRune s)"
  shows "EncodeRune (fst (DecodeRune s)) = take (snd (DecodeRune s)) s"
proof -
  obtain b0 t where s: "s = b0 # t" using assms(1) by (cases s) auto
  show ?thesis
  proof (cases rule: DecodeRune_cases[of b0 t])
    case ascii then show ?thesis by (simp add: s EncodeRune_def)
  next
    case bad then show ?thesis using assms(2) s by simp
  next
    case (two b1) then show ?thesis using EncodeRune2[of "unat b0" "unat b1"] by (simp add: s cont_def)
  next
    case (three b1 b2) then show ?thesis using EncodeRune3[of "unat b0" "unat b1" "unat b2"] by (simp add: s cont_def)
  next
    case (four b1 b2 b3)
    then show ?thesis using EncodeRune4[of "unat b0" "unat b1" "unat b2" "unat b3"] by (simp add: s cont_def)
  qed
qed

lemma EncodeRune_Error: "EncodeRune RuneError = [0xEF, 0xBF, 0xBD]"
  by (simp add: EncodeRune_def RuneError_def)

lemma to_valid_Nil [simp]: "to_valid [] = []"
  by (simp add: to_valid.simps)

lemma to_valid_id: "valid_utf8 s \<Longrightarrow> to_valid s = s"
proof (induction s rule: to_valid.induct)
  case (1 s)
  show ?case
  proof (cases "s = []")
    case False
    then have "\<not> bad_rune (DecodeRune s)" "valid_utf8 (drop (snd (DecodeRune s)) s)"
      using "1.prems" by (simp_all add: valid_utf8.simps[of s])
    then show ?thesis using False 1 EncodeRune_Decode[OF False] by (simp add: to_valid.simps[of s])
  qed simp
qed

lemma DecodeRune_ascii: "s \<noteq> [] \<Longrightarrow> unat (hd s) < 0x80 \<Longrightarrow> DecodeRune s = (unat (hd s), 1)"
  by (cases s) (simp_all add: DecodeRune.simps)

lemma DecodeRune_multi:
  "s \<noteq> [] \<Longrightarrow> 0x80 \<le> unat (hd s) \<Longrightarrow> b \<in> set (take (snd (DecodeRune s)) s) \<Longrightarrow> 0x80 \<le> unat b"
proof (cases s)
  case (Cons b0 t)
  then show "s \<noteq> [] \<Longrightarrow> 0x80 \<le> unat (hd s) \<Longrightarrow> b \<in> set (take (snd (DecodeRune s)) s) \<Longrightarrow> 0x80 \<le> unat b"
    by (cases rule: DecodeRune_cases[of b0 t]) (auto simp: bad_rune_def cont_def)
qed simp

section \<open>Numbers\<close>

text \<open>\<^verbatim>\<open>strconv.FormatInt(n, 10)\<close> and the decimal and hexadecimal readers; a reader answers \<open>None\<close> for an error.\<close>

fun dec :: "nat \<Rightarrow> byte list" where
  "dec n = (if n < 10 then [of_nat (48 + n)] else dec (n div 10) @ [of_nat (48 + n mod 10)])"

declare dec.simps [simp del]

definition FormatInt :: "int \<Rightarrow> gostring" where
  "FormatInt n = (if n < 0 then 45 # dec (nat (- n)) else dec (nat n))"

definition digit :: "byte \<Rightarrow> nat option" where
  "digit b = (if 48 \<le> unat b \<and> unat b \<le> 57 then Some (unat b - 48) else None)"

fun digits :: "nat \<Rightarrow> byte list \<Rightarrow> nat option" where
  "digits acc [] = Some acc"
| "digits acc (b # s) = (case digit b of Some d \<Rightarrow> digits (acc * 10 + d) s | None \<Rightarrow> None)"

definition ParseUint10 :: "byte list \<Rightarrow> nat option" where
  "ParseUint10 s = (if s = [] then None else digits 0 s)"

definition ParseInt :: "gostring \<Rightarrow> int option" where
  "ParseInt s =
     (case s of [] \<Rightarrow> None
      | c # r \<Rightarrow>
          let neg = (c = 45); u = (if c = 43 \<or> c = 45 then r else s)
          in case ParseUint10 u of None \<Rightarrow> None
             | Some n \<Rightarrow> if neg then (if n > 2 ^ 63 then None else Some (- int n))
                         else if n \<ge> 2 ^ 63 then None else Some (int n))"

definition hex_digit :: "byte \<Rightarrow> nat option" where
  "hex_digit b =
     (let n = unat b in
      if 48 \<le> n \<and> n \<le> 57 then Some (n - 48)
      else if 97 \<le> n \<and> n \<le> 102 then Some (n - 87)
      else if 65 \<le> n \<and> n \<le> 70 then Some (n - 55) else None)"

definition HEX :: "nat \<Rightarrow> byte" where
  "HEX n = of_nat (if n < 10 then 48 + n else 55 + n)"

lemma unat_of_nat8: "n < 256 \<Longrightarrow> unat (of_nat n :: byte) = n"
  by (simp add: unsigned_of_nat take_bit_nat_eq_self)

lemma digit_of_nat: "n < 10 \<Longrightarrow> digit (of_nat (48 + n)) = Some n"
  using unat_of_nat8[of "48 + n"] by (simp add: digit_def)

lemma digits_append: "digits a (s @ t) = (case digits a s of Some b \<Rightarrow> digits b t | None \<Rightarrow> None)"
  by (induction s arbitrary: a) (auto split: option.splits)

lemma digits_dec [text_simps]: "digits 0 (dec n) = Some n"
proof (induction n rule: dec.induct)
  case (1 n)
  show ?case
  proof (cases "n < 10")
    case True then show ?thesis using digit_of_nat[of n] by (simp add: dec.simps[of n])
  next
    case False then show ?thesis using 1 digit_of_nat[of "n mod 10"] by (simp add: dec.simps[of n] digits_append)
  qed
qed

lemma dec_not_Nil [simp]: "dec n \<noteq> []"
  by (simp add: dec.simps[of n])

lemma ParseUint10_dec [text_simps]: "ParseUint10 (dec n) = Some n"
  by (simp add: ParseUint10_def digits_dec)

lemma dec_bytes: "b \<in> set (dec n) \<Longrightarrow> 48 \<le> unat b \<and> unat b \<le> 57"
proof (induction n rule: dec.induct)
  case (1 n)
  then have "b \<in> set (dec (n div 10)) \<and> \<not> n < 10 \<or> b = of_nat (48 + n mod 10)"
    by (subst (asm) (2) dec.simps) (auto split: if_splits)
  then show ?case using 1(1) unat_of_nat8[of "48 + n mod 10"] by auto
qed

lemma length_dec: "n < 10 ^ Suc k \<Longrightarrow> length (dec n) \<le> Suc k"
proof (induction k arbitrary: n)
  case (Suc k)
  then have "n div 10 < 10 ^ Suc k" by auto
  then show ?case using Suc.IH[of "n div 10"] by (subst dec.simps) simp
qed (simp add: dec.simps)

lemma ParseInt_Format [text_simps]:
  assumes "- (2 ^ 63) \<le> n" "n < 2 ^ 63"
  shows "ParseInt (FormatInt n) = Some n"
proof (cases "n < 0")
  case True
  then show ?thesis using assms ParseUint10_dec[of "nat (- n)"] by (simp add: ParseInt_def FormatInt_def Let_def)
next
  case False
  obtain c r where d: "dec (nat n) = c # r" by (cases "dec (nat n)") auto
  then have "48 \<le> unat c" using dec_bytes[of c "nat n"] by simp
  then have "c \<noteq> 43" "c \<noteq> 45" by auto
  then show ?thesis using assms False ParseUint10_dec[of "nat n"] d by (simp add: ParseInt_def FormatInt_def Let_def)
qed

lemma hex_digit_HEX [text_simps]: "n < 16 \<Longrightarrow> hex_digit (HEX n) = Some n"
  using unat_of_nat8[of "48 + n"] unat_of_nat8[of "55 + n"] by (auto simp: hex_digit_def HEX_def Let_def)

section \<open>Base64\<close>

definition b64chr :: "nat \<Rightarrow> byte" where
  "b64chr n = of_nat (if n < 26 then 65 + n else if n < 52 then 71 + n else if n < 62 then n - 4 else if n = 62 then 43 else 47)"

definition b64val :: "byte \<Rightarrow> nat option" where
  "b64val b =
     (let n = unat b in
      if 65 \<le> n \<and> n \<le> 90 then Some (n - 65)
      else if 97 \<le> n \<and> n \<le> 122 then Some (n - 71)
      else if 48 \<le> n \<and> n \<le> 57 then Some (n + 4)
      else if n = 43 then Some 62 else if n = 47 then Some 63 else None)"

text \<open>\<^verbatim>\<open>RawStdEncoding.EncodeToString\<close>: no padding.\<close>

fun b64enc :: "byte list \<Rightarrow> byte list" where
  "b64enc [] = []"
| "b64enc [a] = [b64chr (unat a div 4), b64chr (unat a mod 4 * 16)]"
| "b64enc [a, b] =
     [b64chr (unat a div 4), b64chr (unat a mod 4 * 16 + unat b div 16), b64chr (unat b mod 16 * 4)]"
| "b64enc (a # b # c # s) =
     b64chr (unat a div 4) # b64chr (unat a mod 4 * 16 + unat b div 16) #
     b64chr (unat b mod 16 * 4 + unat c div 64) # b64chr (unat c mod 64) # b64enc s"

definition quantum1 :: "nat \<Rightarrow> nat \<Rightarrow> byte list" where
  "quantum1 p q = [of_nat (p * 4 + q div 16)]"

definition quantum2 :: "nat \<Rightarrow> nat \<Rightarrow> nat \<Rightarrow> byte list" where
  "quantum2 p q r = [of_nat (p * 4 + q div 16), of_nat (q mod 16 * 16 + r div 4)]"

definition quantum3 :: "nat \<Rightarrow> nat \<Rightarrow> nat \<Rightarrow> nat \<Rightarrow> byte list" where
  "quantum3 p q r t = [of_nat (p * 4 + q div 16), of_nat (q mod 16 * 16 + r div 4), of_nat (r mod 4 * 64 + t)]"

text \<open>
  The decoders skip line breaks wherever they stand. A complete quantum is four characters; the raw alphabet ends with
  two or three of them, the padded one with \<^verbatim>\<open>==\<close> or \<^verbatim>\<open>=\<close>, after which nothing may follow.
\<close>

fun raw_quanta :: "byte list \<Rightarrow> byte list option" where
  "raw_quanta [] = Some []"
| "raw_quanta [p] = None"
| "raw_quanta [p, q] =
     (case (b64val p, b64val q) of (Some p, Some q) \<Rightarrow> Some (quantum1 p q) | _ \<Rightarrow> None)"
| "raw_quanta [p, q, r] =
     (case (b64val p, b64val q, b64val r) of (Some p, Some q, Some r) \<Rightarrow> Some (quantum2 p q r) | _ \<Rightarrow> None)"
| "raw_quanta (p # q # r # t # s) =
     (case (b64val p, b64val q, b64val r, b64val t) of
        (Some p, Some q, Some r, Some t) \<Rightarrow> map_option (\<lambda>bs. quantum3 p q r t @ bs) (raw_quanta s)
      | _ \<Rightarrow> None)"

fun std_quanta :: "byte list \<Rightarrow> byte list option" where
  "std_quanta [] = Some []"
| "std_quanta (p # q # r # t # s) =
     (case (b64val p, b64val q, b64val r, b64val t) of
        (Some p, Some q, Some r, Some t) \<Rightarrow> map_option (\<lambda>bs. quantum3 p q r t @ bs) (std_quanta s)
      | (Some p, Some q, Some r, None) \<Rightarrow> if t = 61 \<and> s = [] then Some (quantum2 p q r) else None
      | (Some p, Some q, None, _) \<Rightarrow> if r = 61 \<and> t = 61 \<and> s = [] then Some (quantum1 p q) else None
      | _ \<Rightarrow> None)"
| "std_quanta _ = None"

definition line_break :: "byte \<Rightarrow> bool" where "line_break b \<longleftrightarrow> b = 10 \<or> b = 13"

definition RawDecode :: "byte list \<Rightarrow> byte list option" where
  "RawDecode s = raw_quanta (filter (\<lambda>b. \<not> line_break b) s)"

definition StdDecode :: "byte list \<Rightarrow> byte list option" where
  "StdDecode s = std_quanta (filter (\<lambda>b. \<not> line_break b) s)"

lemma b64val_chr [text_simps]: "n < 64 \<Longrightarrow> b64val (b64chr n) = Some n"
proof -
  assume n: "n < 64"
  let ?m = "if n < 26 then 65 + n else if n < 52 then 71 + n else if n < 62 then n - 4 else if n = 62 then 43 else 47"
  have "unat (b64chr n) = ?m" unfolding b64chr_def by (rule unat_of_nat8) (use n in auto)
  then show ?thesis unfolding b64val_def Let_def using n by (auto split: if_splits)
qed

lemma b64chr_no_break: "n < 64 \<Longrightarrow> \<not> line_break (b64chr n)"
proof -
  assume "n < 64"
  then have "b64val (b64chr n) = Some n" by (rule b64val_chr)
  moreover have "b64val 10 = None" "b64val 13 = None" by (simp_all add: b64val_def)
  ultimately show ?thesis by (auto simp: line_break_def)
qed

lemma byte_lt: "unat (b :: byte) < 256"
  using unsigned_less[of b] by simp

lemma sextets:
  fixes a b c :: byte
  shows "unat a div 4 < 64" "unat a mod 4 * 16 < 64" "unat a mod 4 * 16 + unat b div 16 < 64"
    "unat b mod 16 * 4 < 64" "unat b mod 16 * 4 + unat c div 64 < 64" "unat c mod 64 < 64"
  using byte_lt[of a] byte_lt[of b] byte_lt[of c] by linarith+

lemma quanta:
  fixes a b c :: byte
  shows "quantum1 (unat a div 4) (unat a mod 4 * 16) = [a]"
    "quantum2 (unat a div 4) (unat a mod 4 * 16 + unat b div 16) (unat b mod 16 * 4) = [a, b]"
    "quantum3 (unat a div 4) (unat a mod 4 * 16 + unat b div 16) (unat b mod 16 * 4 + unat c div 64) (unat c mod 64) = [a, b, c]"
proof -
  have a: "unat a div 4 * 4 + unat a mod 4 = unat a" by simp
  have b: "(unat a mod 4 * 16 + unat b div 16) div 16 = unat a mod 4" "(unat a mod 4 * 16 + unat b div 16) mod 16 = unat b div 16"
    using byte_lt[of b] by simp_all
  have c: "(unat b mod 16 * 4 + unat c div 64) div 4 = unat b mod 16" "(unat b mod 16 * 4 + unat c div 64) mod 4 = unat c div 64"
    using byte_lt[of c] by simp_all
  show "quantum1 (unat a div 4) (unat a mod 4 * 16) = [a]" unfolding quantum1_def using a by simp
  show "quantum2 (unat a div 4) (unat a mod 4 * 16 + unat b div 16) (unat b mod 16 * 4) = [a, b]"
    unfolding quantum2_def b using a by simp
  show "quantum3 (unat a div 4) (unat a mod 4 * 16 + unat b div 16) (unat b mod 16 * 4 + unat c div 64) (unat c mod 64) = [a, b, c]"
    unfolding quantum3_def b c using a by simp
qed

lemma b64enc_no_break: "filter (\<lambda>b. \<not> line_break b) (b64enc v) = b64enc v"
  by (induction v rule: b64enc.induct) (simp_all add: b64chr_no_break sextets)

lemma raw_quanta_enc: "raw_quanta (b64enc v) = Some v"
  by (induction v rule: b64enc.induct) (simp_all add: b64val_chr sextets quanta)

lemma std_quanta_enc: "length v mod 3 = 0 \<Longrightarrow> std_quanta (b64enc v) = Some v"
  by (induction v rule: b64enc.induct) (simp_all add: b64val_chr sextets quanta)

lemma length_b64enc: "length (b64enc v) mod 4 = 0 \<longleftrightarrow> length v mod 3 = 0"
  by (induction v rule: b64enc.induct) (auto simp: mod_Suc)

lemma RawDecode_enc [text_simps]: "RawDecode (b64enc v) = Some v"
  by (simp add: RawDecode_def b64enc_no_break raw_quanta_enc)

lemma StdDecode_enc [text_simps]: "length (b64enc v) mod 4 = 0 \<Longrightarrow> StdDecode (b64enc v) = Some v"
  by (simp add: StdDecode_def b64enc_no_break std_quanta_enc length_b64enc)

end
