(* ===== verification/HttpUtil.thy ===== *)
theory HttpUtil
  imports GoText
begin

text \<open>
  \<^verbatim>\<open>nphttp2/grpc/http_util.go\<close> and the places where the transports build header lists (\<^verbatim>\<open>createHeaderFields\<close> of the
  client; \<^verbatim>\<open>appendHeaderFieldsFromMD\<close>, \<^verbatim>\<open>writeHeaderLocked\<close> and \<^verbatim>\<open>WriteStatus\<close> of the server): what one side writes into a
  header block and what \<^verbatim>\<open>decodeHeader\<close> of the other side reads out of it. The decoding of a status message and of JSON
  are other libraries' code and are parameters (\<open>henv\<close>).
\<close>

section \<open>Tables\<close>

text \<open>\<^verbatim>\<open>codes.Code\<close> and the HTTP/2 error codes are numbers; the names used by the tables:\<close>

definition code_Canceled :: u32 where "code_Canceled = 1"
definition code_Unknown :: u32 where "code_Unknown = 2"
definition code_PermissionDenied :: u32 where "code_PermissionDenied = 7"
definition code_ResourceExhausted :: u32 where "code_ResourceExhausted = 8"
definition code_Unimplemented :: u32 where "code_Unimplemented = 12"
definition code_Internal :: u32 where "code_Internal = 13"
definition code_Unavailable :: u32 where "code_Unavailable = 14"
definition code_Unauthenticated :: u32 where "code_Unauthenticated = 16"

definition gracefulShutdownCode :: u32 where "gracefulShutdownCode = 1000"

definition http2ErrConvTab :: "u32 \<Rightarrow> u32 option" where
  "http2ErrConvTab = map_of
     [(0x0, code_Internal), (0x1, code_Internal), (0x2, code_Internal), (0x3, code_ResourceExhausted),
      (0x4, code_Internal), (0x5, code_Internal), (0x6, code_Internal), (0x7, code_Unavailable),
      (0x8, code_Canceled), (0x9, code_Internal), (0xa, code_Internal), (0xb, code_ResourceExhausted),
      (0xc, code_PermissionDenied), (0xd, code_Internal), (gracefulShutdownCode, code_Unavailable)]"

definition statusCodeConvTab :: "u32 \<Rightarrow> u32 option" where
  "statusCodeConvTab = map_of
     [(code_Internal, 0x2), (code_Canceled, 0x8), (code_Unavailable, 0x7), (code_ResourceExhausted, 0xb),
      (code_PermissionDenied, 0xc)]"

definition HTTPStatusConvTab :: "int \<Rightarrow> u32 option" where
  "HTTPStatusConvTab = map_of
     [(400, code_Internal), (401, code_Unauthenticated), (403, code_PermissionDenied), (404, code_Unimplemented),
      (429, code_Unavailable), (502, code_Unavailable), (503, code_Unavailable), (504, code_Unavailable)]"

section \<open>Header names and content types\<close>

definition HasPrefix :: "gostring \<Rightarrow> gostring \<Rightarrow> bool" where
  "HasPrefix s p \<longleftrightarrow> take (length p) s = p"

definition HasSuffix :: "gostring \<Rightarrow> gostring \<Rightarrow> bool" where
  "HasSuffix s p \<longleftrightarrow> length p \<le> length s \<and> drop (length s - length p) s = p"

text \<open>\<^verbatim>\<open>strings.ToLower\<close>; \<open>uni\<close> is its Unicode path, taken when a byte is not ASCII.\<close>

definition ToLower :: "(gostring \<Rightarrow> gostring) \<Rightarrow> gostring \<Rightarrow> gostring" where
  "ToLower uni s = (if \<forall>b\<in>set s. unat b < 0x80 then map (\<lambda>b. if 65 \<le> unat b \<and> unat b \<le> 90 then b + 32 else b) s else uni s)"

definition isReservedHeader :: "gostring \<Rightarrow> bool" where
  "isReservedHeader hdr \<longleftrightarrow>
     (hdr \<noteq> [] \<and> hd hdr = 58) \<or>
     hdr \<in> {bytes_of ''content-type'', bytes_of ''user-agent'', bytes_of ''grpc-message-type'', bytes_of ''grpc-encoding'',
            bytes_of ''grpc-message'', bytes_of ''grpc-status'', bytes_of ''grpc-timeout'',
            bytes_of ''grpc-status-details-bin'', bytes_of ''te''}"

definition isWhitelistedHeader :: "gostring \<Rightarrow> bool" where
  "isWhitelistedHeader hdr \<longleftrightarrow> hdr \<in> {bytes_of '':authority'', bytes_of ''user-agent''}"

definition baseContentType :: gostring where "baseContentType = bytes_of ''application/grpc''"

definition contentSubtype :: "gostring \<Rightarrow> gostring \<times> bool" where
  "contentSubtype ct =
     (if ct = baseContentType then ([], True)
      else if \<not> HasPrefix ct baseContentType then ([], False)
      else if ct ! length baseContentType = 43 \<or> ct ! length baseContentType = 59
           then (drop (length baseContentType + 1) ct, True)
      else ([], False))"

definition contentType :: "gostring \<Rightarrow> gostring" where
  "contentType sub = (if sub = [] then baseContentType else baseContentType @ [43] @ sub)"

section \<open>Binary headers\<close>

definition encodeBinHeader :: "byte list \<Rightarrow> gostring" where "encodeBinHeader v = b64enc v"

definition decodeBinHeader :: "gostring \<Rightarrow> byte list option" where
  "decodeBinHeader v = (if length v mod 4 = 0 then StdDecode v else RawDecode v)"

definition binHdrSuffix :: gostring where "binHdrSuffix = bytes_of ''-bin''"

definition encodeMetadataHeader :: "gostring \<Rightarrow> gostring \<Rightarrow> gostring" where
  "encodeMetadataHeader k v = (if HasSuffix k binHdrSuffix then encodeBinHeader v else v)"

definition decodeMetadataHeader :: "gostring \<Rightarrow> gostring \<Rightarrow> gostring option" where
  "decodeMetadataHeader k v = (if HasSuffix k binHdrSuffix then decodeBinHeader v else Some v)"

section \<open>Timeouts\<close>

text \<open>A \<^verbatim>\<open>time.Duration\<close> is an \<^verbatim>\<open>int64\<close> number of nanoseconds; \<open>wrap64\<close> is the wrap-around of its arithmetic.\<close>

type_synonym duration = int

definition wrap64 :: "int \<Rightarrow> int" where "wrap64 x = (x + 2 ^ 63) mod 2 ^ 64 - 2 ^ 63"

definition Microsecond :: duration where "Microsecond = 1000"
definition Millisecond :: duration where "Millisecond = 1000000"
definition Second :: duration where "Second = 1000000000"
definition Minute :: duration where "Minute = 60000000000"
definition Hour :: duration where "Hour = 3600000000000"

definition timeoutUnitToDuration :: "byte \<Rightarrow> duration option" where
  "timeoutUnitToDuration u =
     (if u = 72 then Some Hour else if u = 77 then Some Minute else if u = 83 then Some Second
      else if u = 109 then Some Millisecond else if u = 117 then Some Microsecond else if u = 110 then Some 1 else None)"

definition maxTimeoutValue :: int where "maxTimeoutValue = 100000000 - 1"

definition div_up :: "duration \<Rightarrow> duration \<Rightarrow> int" where
  "div_up d r = (let m = d smod r in if m > 0 then d sdiv r + 1 else d sdiv r)"

definition encodeTimeout :: "duration \<Rightarrow> gostring" where
  "encodeTimeout t =
     (if t \<le> 0 then bytes_of ''0n''
      else if div_up t 1 \<le> maxTimeoutValue then FormatInt (div_up t 1) @ [110]
      else if div_up t Microsecond \<le> maxTimeoutValue then FormatInt (div_up t Microsecond) @ [117]
      else if div_up t Millisecond \<le> maxTimeoutValue then FormatInt (div_up t Millisecond) @ [109]
      else if div_up t Second \<le> maxTimeoutValue then FormatInt (div_up t Second) @ [83]
      else if div_up t Minute \<le> maxTimeoutValue then FormatInt (div_up t Minute) @ [77]
      else FormatInt (div_up t Hour) @ [72])"

datatype timeoutErr = TimeoutTooShort | TimeoutTooLong | TimeoutBadUnit | TimeoutBadNumber

definition maxInt64 :: int where "maxInt64 = 2 ^ 63 - 1"

definition decodeTimeout :: "gostring \<Rightarrow> (timeoutErr, duration) res" where
  "decodeTimeout s =
     (if length s < 2 then Err TimeoutTooShort
      else if length s > 9 then Err TimeoutTooLong
      else case timeoutUnitToDuration (last s) of None \<Rightarrow> Err TimeoutBadUnit
      | Some d \<Rightarrow>
          (case ParseInt (butlast s) of None \<Rightarrow> Err TimeoutBadNumber
           | Some t \<Rightarrow>
               if d = Hour \<and> t > maxInt64 div Hour then Ok maxInt64
               else Ok (wrap64 (d * t))))"

section \<open>Status messages\<close>

definition plain :: "byte \<Rightarrow> bool" where
  "plain c \<longleftrightarrow> 32 \<le> unat c \<and> unat c \<le> 126 \<and> c \<noteq> 37"

definition pct :: "byte \<Rightarrow> gostring" where
  "pct b = [37, HEX (unat b div 16), HEX (unat b mod 16)]"

function encodeGrpcMessageUnchecked :: "gostring \<Rightarrow> gostring" where
  "encodeGrpcMessageUnchecked msg =
     (if msg = [] then []
      else let r = fst (DecodeRune msg); size = snd (DecodeRune msg) in
           concat (map (\<lambda>b. if size > 1 then pct b else if plain b then [b] else pct b) (EncodeRune r))
           @ encodeGrpcMessageUnchecked (drop size msg))"
  by pat_completeness auto
termination
  by (relation "measure length") auto

declare encodeGrpcMessageUnchecked.simps [simp del]

lemma encodeGrpcMessageUnchecked_Nil [simp]: "encodeGrpcMessageUnchecked [] = []"
  by (simp add: encodeGrpcMessageUnchecked.simps)

definition encodeGrpcMessage :: "gostring \<Rightarrow> gostring" where
  "encodeGrpcMessage msg =
     (if msg = [] then [] else if \<exists>c\<in>set msg. \<not> plain c then encodeGrpcMessageUnchecked msg else msg)"

definition parse_hex2 :: "byte \<Rightarrow> byte \<Rightarrow> byte option" where
  "parse_hex2 x y =
     (case (hex_digit x, hex_digit y) of (Some h, Some l) \<Rightarrow> Some (of_nat (h * 16 + l)) | _ \<Rightarrow> None)"

fun decodeGrpcMessageUnchecked :: "gostring \<Rightarrow> gostring" where
  "decodeGrpcMessageUnchecked (c # x # y # s) =
     (if c = 37 then case parse_hex2 x y of
          Some b \<Rightarrow> b # decodeGrpcMessageUnchecked s
        | None \<Rightarrow> c # decodeGrpcMessageUnchecked (x # y # s)
      else c # decodeGrpcMessageUnchecked (x # y # s))"
| "decodeGrpcMessageUnchecked (c # s) = c # decodeGrpcMessageUnchecked s"
| "decodeGrpcMessageUnchecked [] = []"

text \<open>Is there a percent sign with two more bytes behind it?\<close>

fun has_escape :: "gostring \<Rightarrow> bool" where
  "has_escape (c # x # y # s) \<longleftrightarrow> c = 37 \<or> has_escape (x # y # s)"
| "has_escape _ \<longleftrightarrow> False"

definition decodeGrpcMessage :: "gostring \<Rightarrow> gostring" where
  "decodeGrpcMessage msg =
     (if msg = [] then [] else if has_escape msg then decodeGrpcMessageUnchecked msg else msg)"

section \<open>Decoding a header block\<close>

text \<open>
  The \<^verbatim>\<open>spb.Status\<close> message (code, message and details of an abstract type), and what the decoder gets from other
  libraries: \<^verbatim>\<open>proto.Unmarshal\<close> of a status, \<^verbatim>\<open>utils.JSONStr2Map\<close> and the Unicode path of \<^verbatim>\<open>strings.ToLower\<close>.
\<close>

datatype 'd status = Status (st_code: u32) (st_message: gostring) (st_details: "'d list")

record 'd henv =
  e_unmarshal :: "byte list \<Rightarrow> 'd status option"
  e_marshal :: "'d status \<Rightarrow> byte list option"
  e_json :: "gostring \<Rightarrow> (gostring \<rightharpoonup> gostring) option"
  e_uni :: "gostring \<Rightarrow> gostring"

text \<open>The errors of a header block: the status code and what the message says.\<close>

datatype hdrReason =
    MalformedGrpcStatus gostring | MalformedBizStatus gostring | MalformedBizExtra gostring
  | MalformedStatusDetails gostring | MalformedTimeout timeoutErr | MalformedHttpStatus gostring
  | MalformedTags gostring | MalformedTrace gostring | HeaderListTooLarge
  | HttpFallback "int option" "gostring option"

datatype statusErr = StatusErr (se_code: u32) (se_reason: hdrReason)

record 'd bizErr =
  biz_code :: u32
  biz_msg :: gostring
  biz_extra :: "(gostring \<rightharpoonup> gostring) option"
  biz_status :: "'d status"

record 'd decodeState =
  d_serverSide :: bool
  p_encoding :: gostring
  p_acceptEncoding :: gostring
  p_statusGen :: "'d status option"
  p_bizStatusErr :: "'d bizErr option"
  p_rawStatusCode :: "int option"
  p_rawStatusMsg :: gostring
  p_bizStatusCode :: "int option"
  p_bizStatusExtra :: "(gostring \<rightharpoonup> gostring) option"
  p_httpStatus :: "int option"
  p_timeoutSet :: bool
  p_timeout :: duration
  p_method :: gostring
  p_mdata :: "gostring \<rightharpoonup> gostring list"
  p_statsTags :: "byte list"
  p_statsTrace :: "byte list"
  p_contentSubtype :: gostring
  p_isGRPC :: bool
  p_grpcErr :: "statusErr option"
  p_httpErr :: "statusErr option"
  p_contentTypeErr :: "gostring option"

definition newDecodeState :: "bool \<Rightarrow> bool \<Rightarrow> 'd decodeState" where
  "newDecodeState srv grpc =
     \<lparr>d_serverSide = srv, p_encoding = [], p_acceptEncoding = [], p_statusGen = None, p_bizStatusErr = None, p_rawStatusCode = None,
      p_rawStatusMsg = [], p_bizStatusCode = None, p_bizStatusExtra = None, p_httpStatus = None, p_timeoutSet = False,
      p_timeout = 0, p_method = [], p_mdata = Map.empty, p_statsTags = [], p_statsTrace = [], p_contentSubtype = [],
      p_isGRPC = grpc, p_grpcErr = None, p_httpErr = None, p_contentTypeErr = None\<rparr>"

definition mvals :: "('k \<rightharpoonup> 'v list) \<Rightarrow> 'k \<Rightarrow> 'v list" where
  "mvals m k = (case m k of None \<Rightarrow> [] | Some vs \<Rightarrow> vs)"

definition addMetadata :: "gostring \<Rightarrow> gostring \<Rightarrow> 'd decodeState \<Rightarrow> 'd decodeState" where
  "addMetadata k v d = d\<lparr>p_mdata := (p_mdata d)(k \<mapsto> mvals (p_mdata d) k @ [v])\<rparr>"

definition grpcErr :: "hdrReason \<Rightarrow> 'd decodeState \<Rightarrow> 'd decodeState" where
  "grpcErr r d = d\<lparr>p_grpcErr := Some (StatusErr code_Internal r)\<rparr>"

definition processHeaderField :: "'d henv \<Rightarrow> gostring \<times> gostring \<Rightarrow> 'd decodeState \<Rightarrow> 'd decodeState" where
  "processHeaderField env f d =
     (let name = fst f; value = snd f in
      if name = bytes_of ''content-type'' then
        (let sub = fst (contentSubtype value) in
         if \<not> snd (contentSubtype value) then d\<lparr>p_contentTypeErr := Some value\<rparr>
         else (addMetadata name value (d\<lparr>p_contentSubtype := sub\<rparr>))\<lparr>p_isGRPC := True\<rparr>)
      else if name = bytes_of ''grpc-encoding'' then d\<lparr>p_encoding := value\<rparr>
      else if name = bytes_of ''grpc-accept-encoding'' then d\<lparr>p_acceptEncoding := value\<rparr>
      else if name = bytes_of ''grpc-status'' then
        (case ParseInt value of None \<Rightarrow> grpcErr (MalformedGrpcStatus value) d | Some c \<Rightarrow> d\<lparr>p_rawStatusCode := Some c\<rparr>)
      else if name = bytes_of ''grpc-message'' then d\<lparr>p_rawStatusMsg := decodeGrpcMessage value\<rparr>
      else if name = bytes_of ''biz-status'' then
        (case ParseInt value of None \<Rightarrow> grpcErr (MalformedBizStatus value) d | Some c \<Rightarrow> d\<lparr>p_bizStatusCode := Some c\<rparr>)
      else if name = bytes_of ''biz-extra'' then
        (case e_json env value of None \<Rightarrow> grpcErr (MalformedBizExtra value) d | Some m \<Rightarrow> d\<lparr>p_bizStatusExtra := Some m\<rparr>)
      else if name = bytes_of ''grpc-status-details-bin'' then
        (case Option.bind (decodeBinHeader value) (e_unmarshal env) of
           None \<Rightarrow> grpcErr (MalformedStatusDetails value) d | Some s \<Rightarrow> d\<lparr>p_statusGen := Some s\<rparr>)
      else if name = bytes_of ''grpc-timeout'' then
        (case decodeTimeout value of
           Ok t \<Rightarrow> d\<lparr>p_timeoutSet := True, p_timeout := t\<rparr>
         | Err e \<Rightarrow> grpcErr (MalformedTimeout e) (d\<lparr>p_timeoutSet := True, p_timeout := 0\<rparr>)
         | _ \<Rightarrow> d)
      else if name = bytes_of '':path'' then d\<lparr>p_method := value\<rparr>
      else if name = bytes_of '':status'' then
        (case ParseInt value of
           None \<Rightarrow> d\<lparr>p_httpErr := Some (StatusErr code_Internal (MalformedHttpStatus value))\<rparr>
         | Some c \<Rightarrow> d\<lparr>p_httpStatus := Some c\<rparr>)
      else if name = bytes_of ''grpc-tags-bin'' then
        (case decodeBinHeader value of None \<Rightarrow> grpcErr (MalformedTags value) d
         | Some v \<Rightarrow> addMetadata name v (d\<lparr>p_statsTags := v\<rparr>))
      else if name = bytes_of ''grpc-trace-bin'' then
        (case decodeBinHeader value of None \<Rightarrow> grpcErr (MalformedTrace value) d
         | Some v \<Rightarrow> addMetadata name v (d\<lparr>p_statsTrace := v\<rparr>))
      else if isReservedHeader name \<and> \<not> isWhitelistedHeader name then d
      else (case decodeMetadataHeader name value of None \<Rightarrow> d | Some v \<Rightarrow> addMetadata name v d))"

definition processFields :: "'d henv \<Rightarrow> (gostring \<times> gostring) list \<Rightarrow> 'd decodeState \<Rightarrow> 'd decodeState" where
  "processFields env fs d = fold (processHeaderField env) fs d"

definition httpFallbackCode :: "'d decodeState \<Rightarrow> u32" where
  "httpFallbackCode d =
     (case p_httpStatus d of None \<Rightarrow> code_Internal
      | Some s \<Rightarrow> (case HTTPStatusConvTab s of Some c \<Rightarrow> c | None \<Rightarrow> code_Unknown))"

text \<open>\<^verbatim>\<open>decodeHeader\<close>; \<open>truncated\<close> and \<open>fs\<close> are the frame's \<^verbatim>\<open>Truncated\<close> and \<^verbatim>\<open>Fields\<close>.\<close>

definition decodeHeader ::
  "'d henv \<Rightarrow> bool \<Rightarrow> (gostring \<times> gostring) list \<Rightarrow> ('d decodeState, statusErr, unit) prog" where
  "decodeHeader env truncated fs d =
     (if truncated then (Err (StatusErr code_Internal HeaderListTooLarge), d)
      else let d = processFields env fs d in
        if p_isGRPC d then
          (case p_grpcErr d of Some e \<Rightarrow> (Err e, d)
           | None \<Rightarrow>
               if d_serverSide d then (Ok (), d)
               else if p_rawStatusCode d = None \<and> p_statusGen d = None
                    then (Ok (), d\<lparr>p_rawStatusCode := Some (uint code_Unknown)\<rparr>)
               else (Ok (), d))
        else (case p_httpErr d of Some e \<Rightarrow> (Err e, d)
              | None \<Rightarrow> (Err (StatusErr (httpFallbackCode d) (HttpFallback (p_httpStatus d) (p_contentTypeErr d))), d)))"

text \<open>\<^verbatim>\<open>safeCastInt32\<close> panics outside the range of \<^verbatim>\<open>int32\<close>; the status of a decoded trailer; its business status.\<close>

definition safeCastInt32 :: "int \<Rightarrow> ('e, u32) res" where
  "safeCastInt32 n = (if n > 2 ^ 31 - 1 \<or> n < - (2 ^ 31) then Panic else Ok (of_int n))"

definition status_of :: "('d decodeState, 'e, 'd status) prog" where
  "status_of d =
     (case p_statusGen d of Some s \<Rightarrow> (Ok s, d)
      | None \<Rightarrow>
          (case p_rawStatusCode d of None \<Rightarrow> (Panic, d)
           | Some n \<Rightarrow>
               (case safeCastInt32 n of
                  Ok c \<Rightarrow> (let s = Status c (p_rawStatusMsg d) [] in (Ok s, d\<lparr>p_statusGen := Some s\<rparr>))
                | Err e \<Rightarrow> (Err e, d) | Panic \<Rightarrow> (Panic, d) | Diverge \<Rightarrow> (Diverge, d))))"

definition bizStatusErr :: "('d decodeState, 'e, 'd bizErr option) prog" where
  "bizStatusErr d =
     (case (p_bizStatusErr d, p_bizStatusCode d) of
        (None, Some n) \<Rightarrow>
          (case safeCastInt32 n of
             Ok c \<Rightarrow>
               bindP status_of (\<lambda>s d.
                 let e = \<lparr>biz_code = c, biz_msg = p_rawStatusMsg d, biz_extra = p_bizStatusExtra d, biz_status = s\<rparr>
                 in (Ok (Some e), d\<lparr>p_bizStatusErr := Some e\<rparr>)) d
           | Err e \<Rightarrow> (Err e, d) | Panic \<Rightarrow> (Panic, d) | Diverge \<Rightarrow> (Diverge, d))
      | (e, _) \<Rightarrow> (Ok e, d))"

section \<open>Building header blocks\<close>

definition md_fields :: "(gostring \<times> gostring list) list \<Rightarrow> (gostring \<times> gostring) list" where
  "md_fields md = concat (map (\<lambda>(k, vv). if isReservedHeader k then [] else map (\<lambda>v. (k, encodeMetadataHeader k v)) vv) md)"

fun added_fields :: "(gostring \<Rightarrow> gostring) \<Rightarrow> gostring list \<Rightarrow> (gostring \<times> gostring) list" where
  "added_fields uni (k # v # kv) =
     (if isReservedHeader k then [] else [(ToLower uni k, encodeMetadataHeader k v)]) @ added_fields uni kv"
| "added_fields uni _ = []"

record callHdr =
  c_Host :: gostring
  c_Method :: gostring
  c_SendCompress :: gostring
  c_ContentSubtype :: gostring
  c_PreviousAttempts :: int

text \<open>
  \<^verbatim>\<open>createHeaderFields\<close>. Of the context: the time left until its deadline, if it has one, and the outgoing metadata with
  the pairs appended to it; a map is given as the list of its entries in the order the iteration visits them.
\<close>

definition createHeaderFields ::
  "(gostring \<Rightarrow> gostring) \<Rightarrow> gostring \<Rightarrow> gostring \<Rightarrow> duration option \<Rightarrow>
   ((gostring \<times> gostring list) list \<times> gostring list list) option \<Rightarrow> callHdr \<Rightarrow> (gostring \<times> gostring) list" where
  "createHeaderFields uni scheme userAgent timeout raw ch =
     [(bytes_of '':method'', bytes_of ''POST''), (bytes_of '':scheme'', scheme), (bytes_of '':path'', c_Method ch),
      (bytes_of '':authority'', c_Host ch), (bytes_of ''content-type'', contentType (c_ContentSubtype ch)),
      (bytes_of ''user-agent'', userAgent), (bytes_of ''te'', bytes_of ''trailers'')]
     @ (if c_PreviousAttempts ch > 0 then [(bytes_of ''grpc-previous-rpc-attempts'', FormatInt (c_PreviousAttempts ch))] else [])
     @ (if c_SendCompress ch \<noteq> [] then [(bytes_of ''grpc-encoding'', c_SendCompress ch),
                                        (bytes_of ''grpc-accept-encoding'', c_SendCompress ch)] else [])
     @ (case timeout of Some t \<Rightarrow> [(bytes_of ''grpc-timeout'', encodeTimeout t)] | None \<Rightarrow> [])
     @ (case raw of Some (md, added) \<Rightarrow> md_fields md @ concat (map (added_fields uni) added) | None \<Rightarrow> [])"

text \<open>The header block of \<^verbatim>\<open>writeHeaderLocked\<close> and the trailer of \<^verbatim>\<open>WriteStatus\<close>.\<close>

definition response_fields :: "gostring \<Rightarrow> gostring \<Rightarrow> (gostring \<times> gostring list) list \<Rightarrow> (gostring \<times> gostring) list" where
  "response_fields sub sendCompress header =
     [(bytes_of '':status'', bytes_of ''200''), (bytes_of ''content-type'', contentType sub)]
     @ (if sendCompress \<noteq> [] then [(bytes_of ''grpc-encoding'', sendCompress)] else [])
     @ md_fields header"

definition trailer_fields ::
  "'d henv \<Rightarrow> bool \<Rightarrow> gostring \<Rightarrow> 'd status \<Rightarrow> (u32 \<times> gostring option) option \<Rightarrow> (gostring \<times> gostring list) list \<Rightarrow>
   (gostring \<times> gostring) list" where
  "trailer_fields env trailersOnly sub st biz trailer =
     (if trailersOnly then [(bytes_of '':status'', bytes_of ''200''), (bytes_of ''content-type'', contentType sub)] else [])
     @ [(bytes_of ''grpc-status'', FormatInt (uint (st_code st))), (bytes_of ''grpc-message'', encodeGrpcMessage (st_message st))]
     @ (case biz of None \<Rightarrow> []
        | Some (c, extra) \<Rightarrow>
            (bytes_of ''biz-status'', FormatInt (sint c)) #
            (case extra of Some js \<Rightarrow> [(bytes_of ''biz-extra'', js)] | None \<Rightarrow> []))
     @ (if st_details st \<noteq> []
        then (case e_marshal env st of Some bs \<Rightarrow> [(bytes_of ''grpc-status-details-bin'', encodeBinHeader bs)] | None \<Rightarrow> [])
        else [])
     @ md_fields trailer"

end
