(* ===== verification/HttpUtilProps.thy ===== *)
theory HttpUtilProps
  imports HttpUtil
begin

text \<open>
  Round trips between the two ends of a gRPC connection: status messages, timeouts, binary headers, the request header
  block of a call and the trailer that carries its status.
\<close>

section \<open>Status messages\<close>

lemma plain_not_pct: "plain c \<Longrightarrow> c \<noteq> 37"
  by (simp add: plain_def)

lemma HEX_plain: "n < 16 \<Longrightarrow> plain (HEX n)"
proof -
  assume n: "n < 16"
  have "unat (HEX n) = (if n < 10 then 48 + n else 55 + n)" unfolding HEX_def by (rule unat_of_nat8) (use n in auto)
  then have "unat (HEX n) \<noteq> unat (37 :: byte)" "32 \<le> unat (HEX n)" "unat (HEX n) \<le> 126" using n by (auto split: if_splits)
  then show ?thesis by (auto simp: plain_def)
qed

lemma parse_hex2_byte [text_simps]: "parse_hex2 (HEX (unat b div 16)) (HEX (unat b mod 16)) = Some b"
  using byte_lt[of b] hex_digit_HEX[of "unat b div 16"] hex_digit_HEX[of "unat b mod 16"] by (simp add: parse_hex2_def)

lemma decode_pct: "decodeGrpcMessageUnchecked (pct b @ s) = b # decodeGrpcMessageUnchecked s"
  by (simp add: pct_def text_simps)

lemma decode_other: "c \<noteq> 37 \<Longrightarrow> decodeGrpcMessageUnchecked (c # s) = c # decodeGrpcMessageUnchecked s"
  by (cases s rule: has_escape.cases) auto

lemma decode_escaped:
  "decodeGrpcMessageUnchecked (concat (map (\<lambda>b. if P then pct b else if plain b then [b] else pct b) bs) @ s)
    = bs @ decodeGrpcMessageUnchecked s"
  by (induction bs) (auto simp: decode_pct decode_other plain_not_pct)

lemma decode_encode_unchecked: "decodeGrpcMessageUnchecked (encodeGrpcMessageUnchecked msg) = to_valid msg"
proof (induction msg rule: to_valid.induct)
  case (1 msg)
  then show ?case
    by (cases "msg = []") (simp_all add: encodeGrpcMessageUnchecked.simps[of msg] to_valid.simps[of msg] Let_def decode_escaped)
qed

lemma decode_no_escape: "\<not> has_escape msg \<Longrightarrow> decodeGrpcMessageUnchecked msg = msg"
  by (induction msg rule: has_escape.induct) auto

lemma decodeGrpcMessage_eq: "decodeGrpcMessage msg = decodeGrpcMessageUnchecked msg"
  using decode_no_escape by (auto simp: decodeGrpcMessage_def)

lemma decode_plain: "\<forall>c\<in>set msg. plain c \<Longrightarrow> decodeGrpcMessageUnchecked msg = msg"
  by (induction msg) (auto simp: decode_other plain_not_pct)

lemma to_valid_ascii: "\<forall>c\<in>set s. unat c < 0x80 \<Longrightarrow> to_valid s = s"
proof (induction s)
  case (Cons c s)
  then show ?case using DecodeRune_ascii[of "c # s"] by (simp add: to_valid.simps[of "c # s"] EncodeRune_def)
qed simp

lemma encode_bytes:
  assumes "c \<in> set (encodeGrpcMessageUnchecked msg)"
  shows "plain c \<or> c = 37"
  using assms
proof (induction msg rule: encodeGrpcMessageUnchecked.induct)
  case (1 msg)
  have "plain c \<or> c = 37" if "c \<in> set (pct b)" for b
    using that byte_lt[of b] by (auto simp: pct_def HEX_plain)
  then show ?case using 1 by (cases "msg = []") (auto simp: encodeGrpcMessageUnchecked.simps[of msg] Let_def split: if_splits)
qed

lemma decode_encode_message [text_simps]: "decodeGrpcMessage (encodeGrpcMessage msg) = to_valid msg"
proof (cases "\<exists>c\<in>set msg. \<not> plain c")
  case True
  then show ?thesis by (auto simp: encodeGrpcMessage_def decodeGrpcMessage_eq decode_encode_unchecked)
next
  case False
  then have "\<forall>c\<in>set msg. plain c" "\<forall>c\<in>set msg. unat c < 0x80" by (auto simp: plain_def)
  then show ?thesis by (simp add: encodeGrpcMessage_def decodeGrpcMessage_eq decode_plain to_valid_ascii)
qed

text \<open>C31. Whatever bytes a status message holds, the receiver of the \<^verbatim>\<open>grpc-message\<close> header reads back the same text: the
  message itself when it is valid UTF-8, and otherwise the message with each invalid byte replaced by U+FFFD. The
  header value consists of printable ASCII characters only.\<close>

theorem grpc_message_round_trip:
  "decodeGrpcMessage (encodeGrpcMessage msg) = to_valid msg
   \<and> (valid_utf8 msg \<longrightarrow> decodeGrpcMessage (encodeGrpcMessage msg) = msg)
   \<and> (\<forall>c\<in>set (encodeGrpcMessage msg). 32 \<le> unat c \<and> unat c \<le> 126)"
proof -
  have "plain c \<or> c = 37" if "c \<in> set (encodeGrpcMessage msg)" for c
    using that encode_bytes by (auto simp: encodeGrpcMessage_def split: if_splits)
  then show ?thesis using to_valid_id by (fastforce simp: plain_def decode_encode_message)
qed

theorem grpc_message_round_trip_witness:
  "decodeGrpcMessage (encodeGrpcMessage [104, 37, 0xC3, 0xA9, 10]) = [104, 37, 0xC3, 0xA9, 10]
   \<and> encodeGrpcMessage [104, 37, 0xC3, 0xA9, 10] = bytes_of ''h%25%C3%A9%0A''
   \<and> decodeGrpcMessage (encodeGrpcMessage [0xFF]) = [0xEF, 0xBF, 0xBD]"
proof -
  have "valid_utf8 [104, 37, 0xC3, 0xA9, 10]"
    by (simp add: valid_utf8.simps DecodeRune.simps cont_def bad_rune_def RuneError_def)
  moreover have "to_valid [0xFF] = [0xEF, 0xBF, 0xBD]"
    by (simp add: to_valid.simps DecodeRune.simps RuneError_def EncodeRune_def)
  moreover have "encodeGrpcMessage [104, 37, 0xC3, 0xA9, 10] = bytes_of ''h%25%C3%A9%0A''"
    by (simp add: encodeGrpcMessage_def encodeGrpcMessageUnchecked.simps DecodeRune.simps cont_def EncodeRune_def pct_def plain_def HEX_def
        bytes_of_def)
  ultimately show ?thesis
    using grpc_message_round_trip[of "[104, 37, 0xC3, 0xA9, 10]"] grpc_message_round_trip[of "[0xFF]"] by metis
qed

section \<open>Timeouts\<close>

lemma div_up_bounds:
  assumes "0 < u" "0 < t"
  shows "t \<le> u * div_up t u" "u * div_up t u < t + u" "0 < div_up t u"
proof -
  have e: "div_up t u = (if t mod u > 0 then t div u + 1 else t div u)"
    using assms by (simp add: div_up_def Let_def signed_modulo_int_def signed_divide_int_def)
  have d: "u * (t div u) + t mod u = t" "0 \<le> t mod u" "t mod u < u" using assms by simp_all
  have "u * div_up t u = u * (t div u) + (if t mod u > 0 then u else 0)" by (simp add: e distrib_left)
  then show b: "t \<le> u * div_up t u" "u * div_up t u < t + u" using d assms(1) by (smt (verit))+
  have "0 < u * div_up t u" using b(1) assms(2) by linarith
  then show "0 < div_up t u" using assms(1) by (simp add: zero_less_mult_iff)
qed

lemma wrap64_id: "- (2 ^ 63) \<le> x \<Longrightarrow> x < 2 ^ 63 \<Longrightarrow> wrap64 x = x"
  by (simp add: wrap64_def)

lemma FormatInt_unit:
  assumes "0 \<le> n" "n \<le> 99999999"
  shows "FormatInt n \<noteq> []" "length (FormatInt n @ [c]) \<le> 9" "ParseInt (FormatInt n) = Some n"
proof -
  have "length (dec (nat n)) \<le> Suc 7" using assms by (intro length_dec) simp
  then show "FormatInt n \<noteq> []" "length (FormatInt n @ [c]) \<le> 9"
    using assms by (simp_all add: FormatInt_def)
  show "ParseInt (FormatInt n) = Some n" using assms by (intro ParseInt_Format) simp_all
qed

lemma decode_unit:
  assumes "timeoutUnitToDuration c = Some u" "0 < u" "u \<le> Minute" "0 \<le> n" "n \<le> maxTimeoutValue"
  shows "decodeTimeout (FormatInt n @ [c]) = Ok (u * n)"
proof -
  have n: "n \<le> 99999999" using assms(5) by (simp add: maxTimeoutValue_def)
  have "u * n \<le> 60000000000 * 99999999" using assms n by (intro mult_mono) (simp_all add: Minute_def)
  moreover have "0 \<le> u * n" using assms by simp
  ultimately have "wrap64 (u * n) = u * n" by (intro wrap64_id) simp_all
  moreover have "u \<noteq> Hour" using assms(3) by (simp add: Hour_def Minute_def)
  ultimately show ?thesis using assms(1) FormatInt_unit(2)[OF assms(4) n, of c] FormatInt_unit(1,3)[OF assms(4) n] by (simp add: decodeTimeout_def)
qed

text \<open>What the receiver may read for a positive timeout: not less, and less than a thousandth of a percent more.\<close>

definition close_above :: "duration \<Rightarrow> duration \<Rightarrow> bool" where
  "close_above t t' \<longleftrightarrow> t \<le> t' \<and> t' < 2 ^ 63 \<and> (t' - t) * 99999 < t"

lemma unit_round_trip:
  assumes "timeoutUnitToDuration c = Some u" "0 < u" "u \<le> Minute" "0 < t" "div_up t u \<le> maxTimeoutValue"
    and p: "u = 1 \<or> (\<exists>p. 0 < p \<and> u \<le> 1000 * p \<and> maxTimeoutValue < div_up t p)"
  shows "\<exists>t'. decodeTimeout (FormatInt (div_up t u) @ [c]) = Ok t' \<and> close_above t t'"
proof -
  let ?n = "div_up t u"
  note b = div_up_bounds[OF assms(2,4)]
  have d: "decodeTimeout (FormatInt ?n @ [c]) = Ok (u * ?n)" using assms b(3) by (intro decode_unit) simp_all
  have "u * ?n \<le> 60000000000 * 99999999" using assms b(3) by (intro mult_mono) (simp_all add: Minute_def maxTimeoutValue_def)
  moreover have "(u * ?n - t) * 99999 < t"
  proof (cases "u = 1")
    case True then show ?thesis using b assms(4) by simp
  next
    case False
    then obtain p where p: "0 < p" "u \<le> 1000 * p" "maxTimeoutValue < div_up t p" using assms(6) by auto
    have "p * 100000000 \<le> p * div_up t p" using p(1,3) by (intro mult_left_mono) (simp_all add: maxTimeoutValue_def)
    then have t: "99999999 * p < t" using div_up_bounds(2)[OF p(1) assms(4)] by linarith
    have "u * ?n - t \<le> 1000 * p" using b(2) p(2) by linarith
    then have "(u * ?n - t) * 99999 \<le> 1000 * p * 99999" by (rule mult_right_mono) simp
    then show ?thesis using t p(1) by linarith
  qed
  ultimately show ?thesis using d b(1) by (auto simp: close_above_def)
qed

lemma hour_round_trip:
  assumes "0 < t" "t < 2 ^ 63" "maxTimeoutValue < div_up t Minute"
  shows "\<exists>t'. decodeTimeout (FormatInt (div_up t Hour) @ [72]) = Ok t' \<and> close_above t t'"
proof -
  let ?n = "div_up t Hour"
  have u: "timeoutUnitToDuration 72 = Some Hour" "0 < Hour" by (simp_all add: timeoutUnitToDuration_def Hour_def)
  note b = div_up_bounds[OF u(2) assms(1)]
  have "Hour * ?n < 2 ^ 63 + Hour" using b(2) assms(2) by linarith
  then have n: "?n \<le> 2562048" by (simp add: Hour_def)
  have "60000000000 * 100000000 \<le> Minute * div_up t Minute" using assms(3) by (simp add: Minute_def maxTimeoutValue_def)
  then have t: "60000000000 * 99999999 < t" using div_up_bounds(2)[of Minute t] assms(1) by (simp add: Minute_def)
  have r: "decodeTimeout (FormatInt ?n @ [72]) = (if ?n > 2562047 then Ok maxInt64 else Ok (wrap64 (Hour * ?n)))"
    using FormatInt_unit(2)[of ?n 72] FormatInt_unit(1,3)[of ?n] u b(3) n by (simp add: decodeTimeout_def maxInt64_def Hour_def)
  show ?thesis
  proof (cases "?n > 2562047")
    case True
    then have "?n = 2562048" using n by simp
    then have "3600000000000 * 2562047 < t" using b(2) by (simp add: Hour_def)
    then show ?thesis using r True assms(2) by (auto simp: close_above_def maxInt64_def)
  next
    case False
    then have "Hour * ?n \<le> 3600000000000 * 2562047" by (simp add: Hour_def)
    moreover from this have "wrap64 (Hour * ?n) = Hour * ?n" using b(1) assms(1) by (intro wrap64_id) simp_all
    ultimately show ?thesis using r False b(1,2) t by (auto simp: close_above_def Hour_def)
  qed
qed

lemma encodeTimeout_decodes:
  assumes "0 < t" "t < 2 ^ 63"
  shows "\<exists>t'. decodeTimeout (encodeTimeout t) = Ok t' \<and> close_above t t'"
proof -
  have u: "timeoutUnitToDuration 110 = Some 1" "timeoutUnitToDuration 117 = Some Microsecond"
    "timeoutUnitToDuration 109 = Some Millisecond" "timeoutUnitToDuration 83 = Some Second" "timeoutUnitToDuration 77 = Some Minute"
    by (simp_all add: timeoutUnitToDuration_def)
  note defs = Microsecond_def Millisecond_def Second_def Minute_def
  consider (n) "div_up t 1 \<le> maxTimeoutValue"
    | (u) "maxTimeoutValue < div_up t 1" "div_up t Microsecond \<le> maxTimeoutValue"
    | (m) "maxTimeoutValue < div_up t 1" "maxTimeoutValue < div_up t Microsecond" "div_up t Millisecond \<le> maxTimeoutValue"
    | (S) "maxTimeoutValue < div_up t 1" "maxTimeoutValue < div_up t Microsecond" "maxTimeoutValue < div_up t Millisecond"
        "div_up t Second \<le> maxTimeoutValue"
    | (M) "maxTimeoutValue < div_up t 1" "maxTimeoutValue < div_up t Microsecond" "maxTimeoutValue < div_up t Millisecond"
        "maxTimeoutValue < div_up t Second" "div_up t Minute \<le> maxTimeoutValue"
    | (H) "maxTimeoutValue < div_up t 1" "maxTimeoutValue < div_up t Microsecond" "maxTimeoutValue < div_up t Millisecond"
        "maxTimeoutValue < div_up t Second" "maxTimeoutValue < div_up t Minute"
    by linarith
  then show ?thesis
  proof cases
    case n then show ?thesis using unit_round_trip[OF u(1)] assms by (simp add: encodeTimeout_def defs)
  next
    case u then show ?thesis
      using unit_round_trip[OF \<open>timeoutUnitToDuration 117 = _\<close> _ _ assms(1), OF _ _ _ disjI2, OF _ _ _ exI[of _ 1]] assms
      by (simp add: encodeTimeout_def defs)
  next
    case m then show ?thesis
      using unit_round_trip[OF u(3) _ _ assms(1), OF _ _ _ disjI2, OF _ _ _ exI[of _ Microsecond]] assms
      by (simp add: encodeTimeout_def defs)
  next
    case S then show ?thesis
      using unit_round_trip[OF u(4) _ _ assms(1), OF _ _ _ disjI2, OF _ _ _ exI[of _ Millisecond]] assms
      by (simp add: encodeTimeout_def defs)
  next
    case M then show ?thesis
      using unit_round_trip[OF u(5) _ _ assms(1), OF _ _ _ disjI2, OF _ _ _ exI[of _ Second]] assms
      by (simp add: encodeTimeout_def defs)
  next
    case H then show ?thesis using hour_round_trip assms by (simp add: encodeTimeout_def)
  qed
qed

lemma decodeTimeout_zero: "t \<le> 0 \<Longrightarrow> decodeTimeout (encodeTimeout t) = Ok 0"
proof -
  have "decodeTimeout (FormatInt 0 @ [110]) = Ok (1 * 0)"
    by (rule decode_unit) (simp_all add: timeoutUnitToDuration_def Minute_def maxTimeoutValue_def)
  moreover have "bytes_of ''0n'' = FormatInt 0 @ [110]" by (simp add: bytes_of_def FormatInt_def dec.simps)
  ultimately show "t \<le> 0 \<Longrightarrow> ?thesis" by (simp add: encodeTimeout_def)
qed

text \<open>C30. A deadline survives its trip through the \<^verbatim>\<open>grpc-timeout\<close> header: for every positive timeout of an \<^verbatim>\<open>int64\<close>, the
  decoder accepts what the encoder wrote (at most eight digits and a unit) and reads a timeout that is never shorter, does not overflow and is
  less than a thousandth of a percent longer; a timeout that is not positive is read as zero.\<close>

theorem timeout_round_trip:
  assumes "t < 2 ^ 63"
  shows "case decodeTimeout (encodeTimeout t) of
      Ok t' \<Rightarrow> if t \<le> 0 then t' = 0 else t \<le> t' \<and> t' < 2 ^ 63 \<and> (t' - t) * 99999 < t
    | _ \<Rightarrow> False"
proof (cases "t \<le> 0")
  case True
  then show ?thesis using decodeTimeout_zero by simp
next
  case False
  then obtain t' where "decodeTimeout (encodeTimeout t) = Ok t'" "close_above t t'" using encodeTimeout_decodes[of t] assms by auto
  then show ?thesis using False by (simp add: close_above_def)
qed

theorem timeout_round_trip_witness:
  "(1500000000 :: int) < 2 ^ 63 \<and>
   (case decodeTimeout (encodeTimeout 1500000000) of
      Ok t' \<Rightarrow> 1500000000 \<le> t' \<and> t' < 2 ^ 63 \<and> (t' - 1500000000) * 99999 < 1500000000 | _ \<Rightarrow> False)"
  using timeout_round_trip[of 1500000000] by (simp split: res.splits)

text \<open>A sign is accepted in the \<^verbatim>\<open>grpc-timeout\<close> header, and the clamp against overflow looks at positive values only: the
  header \<^verbatim>\<open>-9999999H\<close> wraps around to a positive timeout of about 28 years.\<close>

lemma negative_timeout_wraps:
  "decodeTimeout (bytes_of ''-9999999H'') = Ok 893491747419103232"
  by (simp add: decodeTimeout_def timeoutUnitToDuration_def bytes_of_def ParseInt_def ParseUint10_def digit_def wrap64_def Hour_def
      maxInt64_def)

section \<open>Headers\<close>

lemma bytes_of_inj [simp]: "bytes_of s = bytes_of t \<longleftrightarrow> s = t"
proof -
  have "inj (\<lambda>c. of_nat (of_char c) :: byte)"
  proof (rule injI)
    fix c d :: char assume "(of_nat (of_char c) :: byte) = of_nat (of_char d)"
    then have "unat (of_nat (of_char c) :: byte) = unat (of_nat (of_char d) :: byte)" by simp
    then show "c = d" using nat_of_char_less_256[of c] nat_of_char_less_256[of d] by (simp only: unat_of_nat8) simp
  qed
  then show ?thesis by (simp add: bytes_of_def)
qed

lemma decodeBinHeader_encode [text_simps]: "decodeBinHeader (encodeBinHeader v) = Some v"
  by (simp add: decodeBinHeader_def encodeBinHeader_def text_simps)

lemma decodeMetadataHeader_encode [text_simps]: "decodeMetadataHeader k (encodeMetadataHeader k v) = Some v"
  by (simp add: decodeMetadataHeader_def encodeMetadataHeader_def text_simps)

lemma contentSubtype_contentType [text_simps]: "contentSubtype (contentType sub) = (sub, True)"
  by (simp add: contentSubtype_def contentType_def HasPrefix_def)

text \<open>
  The keys that the receiver consumes although they are not reserved, so that metadata under them does not arrive as
  metadata; every other key is the user's.
\<close>

definition consumed_keys :: "gostring set" where
  "consumed_keys = {bytes_of ''grpc-accept-encoding'', bytes_of ''biz-status'', bytes_of ''biz-extra'',
     bytes_of ''grpc-tags-bin'', bytes_of ''grpc-trace-bin''}"

definition adds :: "(gostring \<times> gostring) list \<Rightarrow> (gostring \<rightharpoonup> gostring list) \<Rightarrow> (gostring \<rightharpoonup> gostring list)" where
  "adds kvs m = fold (\<lambda>(k, v) m. m(k \<mapsto> mvals m k @ [v])) kvs m"

definition values_of :: "(gostring \<times> gostring) list \<Rightarrow> gostring \<Rightarrow> gostring list" where
  "values_of kvs k = map snd (filter (\<lambda>kv. fst kv = k) kvs)"

lemma mvals_adds: "mvals (adds kvs m) k = mvals m k @ values_of kvs k"
  by (induction kvs arbitrary: m) (auto simp: adds_def values_of_def mvals_def)

lemma mvals_empty [simp]: "mvals Map.empty k = []"
  by (simp add: mvals_def)

lemma values_of_append [simp]: "values_of (xs @ ys) k = values_of xs k @ values_of ys k"
  by (simp add: values_of_def)

definition metas :: "(gostring \<times> gostring) list \<Rightarrow> (gostring \<times> gostring) list" where
  "metas kvs = map (\<lambda>(k, v). (k, encodeMetadataHeader k v)) kvs"

definition user_key :: "gostring \<Rightarrow> bool" where
  "user_key k \<longleftrightarrow> \<not> isReservedHeader k \<and> k \<notin> consumed_keys"

lemma reserved_names:
  "isReservedHeader (bytes_of ''content-type'')" "isReservedHeader (bytes_of ''grpc-encoding'')"
  "isReservedHeader (bytes_of ''grpc-status'')" "isReservedHeader (bytes_of ''grpc-message'')"
  "isReservedHeader (bytes_of ''grpc-status-details-bin'')" "isReservedHeader (bytes_of ''grpc-timeout'')"
  "isReservedHeader (bytes_of '':path'')" "isReservedHeader (bytes_of '':status'')"
  by (simp_all add: isReservedHeader_def) (simp_all add: bytes_of_def)

lemma process_user_key:
  assumes "user_key k"
  shows "processHeaderField env (k, v) d = (case decodeMetadataHeader k v of None \<Rightarrow> d | Some v \<Rightarrow> addMetadata k v d)"
proof -
  have "k \<noteq> bytes_of ''content-type''" "k \<noteq> bytes_of ''grpc-encoding''" "k \<noteq> bytes_of ''grpc-accept-encoding''"
    "k \<noteq> bytes_of ''grpc-status''" "k \<noteq> bytes_of ''grpc-message''" "k \<noteq> bytes_of ''biz-status''" "k \<noteq> bytes_of ''biz-extra''"
    "k \<noteq> bytes_of ''grpc-status-details-bin''" "k \<noteq> bytes_of ''grpc-timeout''" "k \<noteq> bytes_of '':path''" "k \<noteq> bytes_of '':status''"
    "k \<noteq> bytes_of ''grpc-tags-bin''" "k \<noteq> bytes_of ''grpc-trace-bin''" "\<not> isReservedHeader k"
    using assms reserved_names by (auto simp: user_key_def consumed_keys_def)
  then show ?thesis by (simp add: processHeaderField_def)
qed

lemma process_user: "user_key k \<Longrightarrow> processHeaderField env (k, encodeMetadataHeader k v) d = addMetadata k v d"
  by (simp add: process_user_key text_simps)

lemma processFields_append: "processFields env (xs @ ys) d = processFields env ys (processFields env xs d)"
  by (simp add: processFields_def)

lemma processFields_simps: "processFields env [] d = d" "processFields env (f # fs) d = processFields env fs (processHeaderField env f d)"
  by (simp_all add: processFields_def)

lemma processFields_metas:
  "\<forall>kv\<in>set kvs. user_key (fst kv) \<Longrightarrow> processFields env (metas kvs) d = d\<lparr>p_mdata := adds kvs (p_mdata d)\<rparr>"
proof (induction kvs arbitrary: d)
  case (Cons kv kvs)
  then show ?case
    by (cases kv) (simp add: metas_def processFields_simps process_user adds_def addMetadata_def)
qed (simp add: metas_def processFields_simps adds_def)

text \<open>The metadata a header list carries: what is not reserved, in the order of the list.\<close>

definition md_pairs :: "(gostring \<times> gostring list) list \<Rightarrow> (gostring \<times> gostring) list" where
  "md_pairs md = concat (map (\<lambda>(k, vv). if isReservedHeader k then [] else map (Pair k) vv) md)"

fun added_pairs :: "gostring list \<Rightarrow> (gostring \<times> gostring) list" where
  "added_pairs (k # v # kv) = (if isReservedHeader k then [] else [(k, v)]) @ added_pairs kv"
| "added_pairs _ = []"

fun added_ok :: "(gostring \<Rightarrow> gostring) \<Rightarrow> gostring list \<Rightarrow> bool" where
  "added_ok uni (k # v # kv) \<longleftrightarrow> k \<notin> consumed_keys \<and> ToLower uni k = k \<and> added_ok uni kv"
| "added_ok uni _ \<longleftrightarrow> True"

lemma md_fields_metas: "md_fields md = metas (md_pairs md)"
  by (induction md) (auto simp: md_fields_def metas_def md_pairs_def)

lemma added_fields_metas: "added_ok uni kv \<Longrightarrow> added_fields uni kv = metas (added_pairs kv)"
  by (induction uni kv rule: added_fields.induct) (auto simp: metas_def)

lemma md_pairs_user: "\<forall>kv\<in>set md. fst kv \<notin> consumed_keys \<Longrightarrow> \<forall>kv\<in>set (md_pairs md). user_key (fst kv)"
  by (auto simp: md_pairs_def user_key_def split: if_splits)

lemma added_pairs_user: "added_ok uni kv \<Longrightarrow> \<forall>x\<in>set (added_pairs kv). user_key (fst x)"
  by (induction uni kv rule: added_fields.induct) (auto simp: user_key_def)

lemma metas_append: "metas (xs @ ys) = metas xs @ metas ys"
  by (simp add: metas_def)

lemma concat_added:
  "\<forall>kv\<in>set added. added_ok uni kv \<Longrightarrow> concat (map (added_fields uni) added) = metas (concat (map added_pairs added))"
  by (induction added) (simp_all add: metas_append added_fields_metas, simp add: metas_def)

definition sent_pairs :: "((gostring \<times> gostring list) list \<times> gostring list list) option \<Rightarrow> (gostring \<times> gostring) list" where
  "sent_pairs raw = (case raw of Some (md, added) \<Rightarrow> md_pairs md @ concat (map added_pairs added) | None \<Rightarrow> [])"

definition raw_ok :: "(gostring \<Rightarrow> gostring) \<Rightarrow> ((gostring \<times> gostring list) list \<times> gostring list list) option \<Rightarrow> bool" where
  "raw_ok uni raw \<longleftrightarrow>
     (case raw of Some (md, added) \<Rightarrow> (\<forall>kv\<in>set md. fst kv \<notin> consumed_keys) \<and> (\<forall>kv\<in>set added. added_ok uni kv) | None \<Rightarrow> True)"

lemma raw_fields:
  assumes "raw_ok uni raw"
  shows "(case raw of Some (md, added) \<Rightarrow> md_fields md @ concat (map (added_fields uni) added) | None \<Rightarrow> []) = metas (sent_pairs raw)"
    and "\<forall>kv\<in>set (sent_pairs raw). user_key (fst kv)"
proof -
  show "(case raw of Some (md, added) \<Rightarrow> md_fields md @ concat (map (added_fields uni) added) | None \<Rightarrow> []) = metas (sent_pairs raw)"
    using assms by (cases raw) (auto simp: sent_pairs_def raw_ok_def metas_append md_fields_metas concat_added, simp add: metas_def)
  show "\<forall>kv\<in>set (sent_pairs raw). user_key (fst kv)"
    using assms md_pairs_user added_pairs_user by (fastforce simp: raw_ok_def sent_pairs_def split: option.splits prod.splits)
qed

text \<open>The fields in front of the metadata, and what a server makes of them.\<close>

definition call_state :: "duration option \<Rightarrow> duration \<Rightarrow> callHdr \<Rightarrow> (gostring \<rightharpoonup> gostring list) \<Rightarrow> 'd decodeState" where
  "call_state timeout t' ch m =
     (newDecodeState True False)\<lparr>p_method := c_Method ch, p_contentSubtype := c_ContentSubtype ch, p_isGRPC := True,
        p_encoding := c_SendCompress ch, p_acceptEncoding := c_SendCompress ch,
        p_timeoutSet := (timeout \<noteq> None), p_timeout := t', p_mdata := m\<rparr>"

definition own_keys :: "gostring set" where
  "own_keys = {bytes_of '':authority'', bytes_of ''content-type'', bytes_of ''user-agent'', bytes_of ''grpc-previous-rpc-attempts''}"

lemma process_misc:
  "processHeaderField env (bytes_of '':method'', v) d = d"
  "processHeaderField env (bytes_of '':scheme'', v) d = d"
  "processHeaderField env (bytes_of ''te'', v) d = d"
  "processHeaderField env (bytes_of '':path'', v) d = d\<lparr>p_method := v\<rparr>"
  "processHeaderField env (bytes_of '':authority'', v) d = addMetadata (bytes_of '':authority'') v d"
  "processHeaderField env (bytes_of ''user-agent'', v) d = addMetadata (bytes_of ''user-agent'') v d"
  "processHeaderField env (bytes_of ''content-type'', contentType sub) d =
     (addMetadata (bytes_of ''content-type'') (contentType sub) (d\<lparr>p_contentSubtype := sub\<rparr>))\<lparr>p_isGRPC := True\<rparr>"
  "processHeaderField env (bytes_of ''grpc-previous-rpc-attempts'', v) d = addMetadata (bytes_of ''grpc-previous-rpc-attempts'') v d"
  "processHeaderField env (bytes_of ''grpc-encoding'', v) d = d\<lparr>p_encoding := v\<rparr>"
  "processHeaderField env (bytes_of ''grpc-accept-encoding'', v) d = d\<lparr>p_acceptEncoding := v\<rparr>"
  "decodeTimeout v = Ok t \<Longrightarrow> processHeaderField env (bytes_of ''grpc-timeout'', v) d = d\<lparr>p_timeoutSet := True, p_timeout := t\<rparr>"
  by (simp_all add: processHeaderField_def isReservedHeader_def isWhitelistedHeader_def text_simps decodeMetadataHeader_def)
    (simp_all add: HasSuffix_def binHdrSuffix_def bytes_of_def Let_def decodeMetadataHeader_def)

definition own_pairs :: "gostring \<Rightarrow> callHdr \<Rightarrow> (gostring \<times> gostring) list" where
  "own_pairs userAgent ch =
     [(bytes_of '':authority'', c_Host ch), (bytes_of ''content-type'', contentType (c_ContentSubtype ch)),
      (bytes_of ''user-agent'', userAgent)]
     @ (if c_PreviousAttempts ch > 0 then [(bytes_of ''grpc-previous-rpc-attempts'', FormatInt (c_PreviousAttempts ch))] else [])"

lemma process_call:
  assumes "case timeout of Some t \<Rightarrow> decodeTimeout (encodeTimeout t) = Ok t' | None \<Rightarrow> t' = 0" and raw: "raw_ok uni raw"
  shows "processFields env (createHeaderFields uni scheme userAgent timeout raw ch) (newDecodeState True False)
    = call_state timeout t' ch (adds (own_pairs userAgent ch @ sent_pairs raw) Map.empty)"
proof -
  note simps = processFields_append processFields_simps process_misc addMetadata_def newDecodeState_def call_state_def own_pairs_def
    adds_def mvals_def
  have a: "adds (xs @ ys) m = adds ys (adds xs m)" for xs ys m by (simp add: adds_def)
  let ?fs = "createHeaderFields uni scheme userAgent timeout None ch"
  have fs: "createHeaderFields uni scheme userAgent timeout raw ch = ?fs @ metas (sent_pairs raw)"
    using raw_fields(1)[OF raw] by (simp add: createHeaderFields_def)
  have "processFields env ?fs (newDecodeState True False) = call_state timeout t' ch (adds (own_pairs userAgent ch) Map.empty)"
    using assms(1) by (cases timeout; cases "c_SendCompress ch = []"; cases "c_PreviousAttempts ch > 0")
      (simp_all add: createHeaderFields_def simps)
  then show ?thesis using raw_fields(2)[OF raw] by (simp add: fs processFields_append processFields_metas a) (simp add: call_state_def)
qed

lemma own_pairs_values: "k \<notin> own_keys \<Longrightarrow> values_of (own_pairs ua ch) k = []"
  by (auto simp: values_of_def own_pairs_def own_keys_def)



text \<open>A pair appended to the outgoing context under a key with upper-case letters is sent under the key in lower
  case, but whether its value is binary is decided by the key as given: for \<^verbatim>\<open>Key-Bin\<close> the value is sent as it is, the
  server decodes it as base64 and drops it.\<close>

lemma appended_upper_case_bin_lost:
  "let fs = createHeaderFields uni scheme ua None (Some ([], [[bytes_of ''Key-Bin'', [255]]])) ch;
       d = snd (decodeHeader env False fs (newDecodeState True False))
   in (bytes_of ''key-bin'', [255]) \<in> set fs \<and> mvals (p_mdata d) (bytes_of ''key-bin'') = []"
proof -
  let ?fs = "createHeaderFields uni scheme ua None None ch" and ?f = "(bytes_of ''key-bin'', [255 :: byte])"
  let ?d = "call_state None 0 ch (adds (own_pairs ua ch @ sent_pairs None) Map.empty)"
  have "added_fields uni [bytes_of ''Key-Bin'', [255]] = [?f]"
    by (simp add: isReservedHeader_def)
      (simp add: encodeMetadataHeader_def HasSuffix_def binHdrSuffix_def ToLower_def bytes_of_def)
  then have fs: "createHeaderFields uni scheme ua None (Some ([], [[bytes_of ''Key-Bin'', [255]]])) ch = ?fs @ [?f]"
    by (simp add: createHeaderFields_def md_fields_def)
  have k: "user_key (bytes_of ''key-bin'')"
    by (simp add: user_key_def consumed_keys_def isReservedHeader_def) (simp add: bytes_of_def)
  have "decodeMetadataHeader (bytes_of ''key-bin'') [255] = None"
    by (simp add: decodeMetadataHeader_def HasSuffix_def binHdrSuffix_def bytes_of_def decodeBinHeader_def RawDecode_def line_break_def)
  then have "processHeaderField env ?f ?d = ?d" by (simp add: process_user_key[OF k])
  then have p: "processFields env (?fs @ [?f]) (newDecodeState True False) = ?d"
    using process_call[where timeout = None and t' = 0 and raw = None and uni = uni and env = env and scheme = scheme and userAgent = ua and ch = ch] by (simp add: processFields_append processFields_simps raw_ok_def)
  have "values_of (own_pairs ua ch @ sent_pairs None) (bytes_of ''key-bin'') = []"
    using own_pairs_values[of "bytes_of ''key-bin''" ua ch] by (simp add: own_keys_def sent_pairs_def values_of_def)
  then show ?thesis
    unfolding fs Let_def decodeHeader_def p by (simp add: call_state_def newDecodeState_def mvals_adds)
qed

section \<open>The trailer\<close>

lemma ParseInt_uint [text_simps]: "ParseInt (FormatInt (uint (c :: u32))) = Some (uint c)"
proof -
  have "- (2 ^ 63) \<le> uint c" by (rule order_trans[OF _ uint_nonnegative]) simp
  moreover have "uint c < 2 ^ 63" using uint_bounded[of c] by simp
  ultimately show ?thesis by (rule ParseInt_Format)
qed

lemma ParseInt_sint [text_simps]: "ParseInt (FormatInt (sint (c :: u32))) = Some (sint c)"
  using sint_greater_eq[of c] sint_less[of c] by (intro ParseInt_Format) simp_all

lemma process_trailer:
  "processHeaderField env (bytes_of '':status'', bytes_of ''200'') d = d\<lparr>p_httpStatus := Some 200\<rparr>"
  "processHeaderField env (bytes_of ''grpc-status'', FormatInt (uint (c :: u32))) d = d\<lparr>p_rawStatusCode := Some (uint c)\<rparr>"
  "processHeaderField env (bytes_of ''grpc-message'', encodeGrpcMessage msg) d = d\<lparr>p_rawStatusMsg := to_valid msg\<rparr>"
  "processHeaderField env (bytes_of ''biz-status'', FormatInt (sint (c :: u32))) d = d\<lparr>p_bizStatusCode := Some (sint c)\<rparr>"
  "e_json env js = Some m \<Longrightarrow> processHeaderField env (bytes_of ''biz-extra'', js) d = d\<lparr>p_bizStatusExtra := Some m\<rparr>"
  "e_unmarshal env bs = Some st \<Longrightarrow>
     processHeaderField env (bytes_of ''grpc-status-details-bin'', encodeBinHeader bs) d = d\<lparr>p_statusGen := Some st\<rparr>"
proof -
  have "ParseInt (bytes_of ''200'') = Some 200"
    by (simp add: ParseInt_def ParseUint10_def digit_def bytes_of_def)
  then show "processHeaderField env (bytes_of '':status'', bytes_of ''200'') d = d\<lparr>p_httpStatus := Some 200\<rparr>"
    by (simp add: processHeaderField_def)
qed (simp_all add: processHeaderField_def text_simps)

text \<open>The marshalled details of a status decode to it; the JSON text of the extra of a business error decodes to a map.\<close>

definition trailer_ok :: "'d henv \<Rightarrow> 'd status \<Rightarrow> (u32 \<times> gostring option) option \<Rightarrow> bool" where
  "trailer_ok env st biz \<longleftrightarrow>
     (st_details st \<noteq> [] \<longrightarrow> (\<exists>bs. e_marshal env st = Some bs \<and> e_unmarshal env bs = Some st)) \<and>
     (case biz of Some (_, Some js) \<Rightarrow> e_json env js \<noteq> None | _ \<Rightarrow> True)"

definition trailer_state ::
  "'d henv \<Rightarrow> bool \<Rightarrow> gostring \<Rightarrow> 'd status \<Rightarrow> (u32 \<times> gostring option) option \<Rightarrow> (gostring \<rightharpoonup> gostring list) \<Rightarrow> 'd decodeState" where
  "trailer_state env only sub st biz m =
     (newDecodeState False True)\<lparr>p_httpStatus := (if only then Some 200 else None), p_contentSubtype := (if only then sub else []),
       p_rawStatusCode := Some (uint (st_code st)), p_rawStatusMsg := to_valid (st_message st),
       p_bizStatusCode := map_option (\<lambda>b. sint (fst b)) biz,
       p_bizStatusExtra := Option.bind biz (\<lambda>b. Option.bind (snd b) (e_json env)),
       p_statusGen := (if st_details st = [] then None else Some st), p_mdata := m\<rparr>"

lemma process_trailer_fields:
  assumes "trailer_ok env st biz" "\<forall>kv\<in>set trailer. fst kv \<notin> consumed_keys"
  shows "processFields env (trailer_fields env only sub st biz trailer) (newDecodeState False (\<not> only))
    = trailer_state env only sub st biz
        (adds ((if only then [(bytes_of ''content-type'', contentType sub)] else []) @ md_pairs trailer) Map.empty)"
proof -
  note simps = processFields_append processFields_simps process_misc process_trailer addMetadata_def newDecodeState_def trailer_state_def
    adds_def mvals_def
  have a: "adds (xs @ ys) m = adds ys (adds xs m)" for xs ys m by (simp add: adds_def)
  let ?fs = "trailer_fields env only sub st biz []"
  have fs: "trailer_fields env only sub st biz trailer = ?fs @ metas (md_pairs trailer)"
    by (simp add: trailer_fields_def md_fields_metas) (simp add: md_pairs_def metas_def)
  have "processFields env ?fs (newDecodeState False (\<not> only)) = trailer_state env only sub st biz
      (adds (if only then [(bytes_of ''content-type'', contentType sub)] else []) Map.empty)"
    using assms(1) by (cases only; cases "st_details st = []"; cases biz)
      (auto simp: trailer_fields_def trailer_ok_def md_fields_def simps split: option.splits)
  then show ?thesis using md_pairs_user[OF assms(2)]
    by (simp add: fs processFields_append processFields_metas a) (simp add: trailer_state_def)
qed



text \<open>A \<^verbatim>\<open>grpc-status\<close> outside the range of \<^verbatim>\<open>int32\<close> passes \<^verbatim>\<open>decodeHeader\<close> and makes the client panic when it asks for the
  status; a server whose own code is a negative \<^verbatim>\<open>int32\<close> sends such a value.\<close>

lemma status_code_overflow_panics:
  "let st = Status 0xFFFFFFFF [] [];
       fs = trailer_fields env True [] st None [];
       res = decodeHeader env False fs (newDecodeState False False)
   in fst res = Ok () \<and> fst (status_of (snd res) :: (unit, _) res \<times> _) = Panic"
proof -
  let ?st = "Status 0xFFFFFFFF [] [] :: 'a status"
  have u: "uint (st_code ?st) = 4294967295" by simp
  have "trailer_ok env ?st None" by (simp add: trailer_ok_def)
  then show ?thesis
    unfolding Let_def decodeHeader_def using process_trailer_fields[of env ?st None "[]" True "[]"] u
    by (simp add: trailer_state_def newDecodeState_def status_of_def safeCastInt32_def)
qed

end
