(* ===== verification/RecvBuffer.thy ===== *)
theory RecvBuffer
  imports Prelude
begin

text \<open>
  The receive side of a stream, from \<^verbatim>\<open>nphttp2/grpc/transport.go\<close>: \<^verbatim>\<open>recvBuffer\<close>, an unbounded channel made of a channel
  of capacity one and a backlog, and \<^verbatim>\<open>recvBufferReader\<close>, which hands its bytes to the application. The goroutine that
  receives frames and the one that reads run concurrently; a read takes the message from the channel and refills the
  channel from the backlog in two separate steps, between which the other goroutine may put.
\<close>

section \<open>The buffer\<close>

datatype 'e recvMsg = RData "byte list" | RFail 'e

fun msg_err :: "'e recvMsg \<Rightarrow> 'e option" where
  "msg_err (RData _) = None"
| "msg_err (RFail e) = Some e"

record 'e recvBuffer =
  rb_c :: "'e recvMsg option"
  rb_backlog :: "'e recvMsg list"
  rb_err :: "'e option"

definition newRecvBuffer :: "'e recvBuffer" where
  "newRecvBuffer = \<lparr>rb_c = None, rb_backlog = [], rb_err = None\<rparr>"

definition rb_put :: "'e recvMsg \<Rightarrow> 'e recvBuffer \<Rightarrow> 'e recvBuffer" where
  "rb_put r b =
     (if rb_err b \<noteq> None then b
      else let b = b\<lparr>rb_err := msg_err r\<rparr> in
           if rb_backlog b = [] \<and> rb_c b = None then b\<lparr>rb_c := Some r\<rparr>
           else b\<lparr>rb_backlog := rb_backlog b @ [r]\<rparr>)"

definition rb_load :: "'e recvBuffer \<Rightarrow> 'e recvBuffer" where
  "rb_load b =
     (case rb_backlog b of
        [] \<Rightarrow> b
      | m # ms \<Rightarrow> if rb_c b = None then b\<lparr>rb_c := Some m, rb_backlog := ms\<rparr> else b)"

section \<open>The reader\<close>

record 'e bufReader =
  br_last :: "byte list option"
  br_err :: "'e option"

definition newBufReader :: "'e bufReader" where
  "newBufReader = \<lparr>br_last = None, br_err = None\<rparr>"

text \<open>\<^verbatim>\<open>bytes.Buffer.Read\<close> into a slice of length \<open>n\<close>, and what is kept for the next read.\<close>

definition keep_rest :: "nat \<Rightarrow> byte list \<Rightarrow> 'e bufReader \<Rightarrow> 'e bufReader" where
  "keep_rest n bs r = r\<lparr>br_last := (if drop n bs = [] then None else Some (drop n bs))\<rparr>"

text \<open>
  The start of \<^verbatim>\<open>Read\<close>: it returns the recorded error, or bytes of the last message, or takes a message from the
  channel and goes on with \<^verbatim>\<open>readAdditional\<close>, or blocks. On the server the context may be done instead.
\<close>

datatype 'e readStart = Returns "byte list" "'e option" | Received "'e recvMsg" | Blocks

definition read_start :: "nat \<Rightarrow> 'e option \<Rightarrow> 'e bufReader \<times> 'e recvBuffer \<Rightarrow> 'e readStart \<times> 'e bufReader \<times> 'e recvBuffer" where
  "read_start n ctxDone s =
     (case s of (r, b) \<Rightarrow>
        case br_err r of
          Some e \<Rightarrow> (Returns [] (Some e), r, b)
        | None \<Rightarrow>
            (case br_last r of
               Some bs \<Rightarrow> (Returns (take n bs) None, keep_rest n bs r, b)
             | None \<Rightarrow>
                 (case ctxDone of
                    Some e \<Rightarrow> (Returns [] (Some e), r\<lparr>br_err := Some e\<rparr>, b)
                  | None \<Rightarrow>
                      (case rb_c b of
                         Some m \<Rightarrow> (Received m, r, b\<lparr>rb_c := None\<rparr>)
                       | None \<Rightarrow> (Blocks, r, b)))))"

definition readAdditional ::
  "'e recvMsg \<Rightarrow> nat \<Rightarrow> 'e bufReader \<times> 'e recvBuffer \<Rightarrow> (byte list \<times> 'e option) \<times> 'e bufReader \<times> 'e recvBuffer" where
  "readAdditional m n s =
     (case s of (r, b) \<Rightarrow>
        let b = rb_load b in
        case m of
          RFail e \<Rightarrow> (([], Some e), r\<lparr>br_err := Some e\<rparr>, b)
        | RData bs \<Rightarrow> ((take n bs, None), keep_rest n bs r, b))"

section \<open>Both goroutines\<close>

text \<open>
  \<open>y_pc\<close>: the message a read has taken and the length of its slice, between its two steps. \<open>y_put\<close> logs the messages the
  buffer accepted and \<open>y_out\<close> the bytes the application got; \<open>y_ctx\<close> says that the context ended a read.
\<close>

record 'e rsys =
  y_b :: "'e recvBuffer"
  y_r :: "'e bufReader"
  y_pc :: "('e recvMsg \<times> nat) option"
  y_put :: "'e recvMsg list"
  y_out :: "byte list"
  y_ctx :: bool

definition rsys0 :: "'e rsys" where
  "rsys0 = \<lparr>y_b = newRecvBuffer, y_r = newBufReader, y_pc = None, y_put = [], y_out = [], y_ctx = False\<rparr>"

inductive rstep :: "'e rsys \<Rightarrow> 'e rsys \<Rightarrow> bool" where
  Put: "rstep s (s\<lparr>y_b := rb_put m (y_b s), y_put := (if rb_err (y_b s) = None then y_put s @ [m] else y_put s)\<rparr>)"
| Return: "y_pc s = None \<Longrightarrow> read_start n cd (y_r s, y_b s) = (Returns bs e, r, b) \<Longrightarrow>
    rstep s (s\<lparr>y_r := r, y_b := b, y_out := y_out s @ bs,
      y_ctx := (y_ctx s \<or> (cd \<noteq> None \<and> br_err (y_r s) = None \<and> br_last (y_r s) = None))\<rparr>)"
| Receive: "y_pc s = None \<Longrightarrow> read_start n cd (y_r s, y_b s) = (Received m, r, b) \<Longrightarrow>
    rstep s (s\<lparr>y_r := r, y_b := b, y_pc := Some (m, n)\<rparr>)"
| Finish: "y_pc s = Some (m, n) \<Longrightarrow> readAdditional m n (y_r s, y_b s) = ((bs, e), r, b) \<Longrightarrow>
    rstep s (s\<lparr>y_r := r, y_b := b, y_out := y_out s @ bs, y_pc := None\<rparr>)"

inductive rreach :: "'e rsys \<Rightarrow> bool" where
  Start: "rreach rsys0"
| Step: "rreach s \<Longrightarrow> rstep s s' \<Longrightarrow> rreach s'"

fun data_of_msg :: "'e recvMsg \<Rightarrow> byte list" where
  "data_of_msg (RData bs) = bs"
| "data_of_msg (RFail e) = []"

abbreviation data_of_msgs :: "'e recvMsg list \<Rightarrow> byte list" where
  "data_of_msgs ms \<equiv> concat (map data_of_msg ms)"

text \<open>The messages accepted and not yet given to the application, oldest first.\<close>

definition y_queue :: "'e rsys \<Rightarrow> 'e recvMsg list" where
  "y_queue s = (case y_pc s of Some (m, _) \<Rightarrow> [m] | None \<Rightarrow> []) @ (case rb_c (y_b s) of Some m \<Rightarrow> [m] | None \<Rightarrow> [])
     @ rb_backlog (y_b s)"

definition y_last :: "'e rsys \<Rightarrow> byte list" where
  "y_last s = (case br_last (y_r s) of Some bs \<Rightarrow> bs | None \<Rightarrow> [])"

text \<open>At most the last accepted message is an error, and the buffer remembers it.\<close>

definition err_last :: "'e recvMsg list \<Rightarrow> 'e option \<Rightarrow> bool" where
  "err_last ms e \<longleftrightarrow> (\<forall>m\<in>set (butlast ms). msg_err m = None) \<and> e = (if ms = [] then None else msg_err (last ms))"

definition last_err :: "'e recvMsg list \<Rightarrow> 'e option" where
  "last_err ms = (if ms = [] then None else msg_err (last ms))"

text \<open>\<open>taken\<close>: the accepted messages that a read has finished with.\<close>

definition r_ok :: "'e recvMsg list \<Rightarrow> 'e rsys \<Rightarrow> bool" where
  "r_ok taken s \<longleftrightarrow>
     y_put s = taken @ y_queue s \<and> y_out s @ y_last s = data_of_msgs taken
     \<and> (\<not> y_ctx s \<longrightarrow> last_err taken = br_err (y_r s))
     \<and> err_last (y_put s) (rb_err (y_b s))
     \<and> (y_pc s = None \<longrightarrow> rb_c (y_b s) = None \<longrightarrow> rb_backlog (y_b s) = [])
     \<and> (y_pc s \<noteq> None \<longrightarrow> br_err (y_r s) = None \<and> br_last (y_r s) = None)
     \<and> br_last (y_r s) \<noteq> Some [] \<and> (br_err (y_r s) \<noteq> None \<longrightarrow> br_last (y_r s) = None)
     \<and> (y_ctx s \<longrightarrow> br_err (y_r s) \<noteq> None)"

lemma r_okD:
  assumes "r_ok taken s"
  shows "y_put s = taken @ y_queue s" "y_out s @ y_last s = data_of_msgs taken"
    "\<not> y_ctx s \<Longrightarrow> last_err taken = br_err (y_r s)"
    "err_last (y_put s) (rb_err (y_b s))" "y_pc s = None \<Longrightarrow> rb_c (y_b s) = None \<Longrightarrow> rb_backlog (y_b s) = []"
    "y_pc s \<noteq> None \<Longrightarrow> br_err (y_r s) = None" "y_pc s \<noteq> None \<Longrightarrow> br_last (y_r s) = None" "br_last (y_r s) \<noteq> Some []"
    "br_err (y_r s) \<noteq> None \<Longrightarrow> br_last (y_r s) = None" "y_ctx s \<Longrightarrow> br_err (y_r s) \<noteq> None"
  using assms unfolding r_ok_def by blast+

lemma r_okI:
  assumes "y_put s = taken @ y_queue s" "y_out s @ y_last s = data_of_msgs taken"
    "\<not> y_ctx s \<Longrightarrow> last_err taken = br_err (y_r s)"
    "err_last (y_put s) (rb_err (y_b s))" "y_pc s = None \<Longrightarrow> rb_c (y_b s) = None \<Longrightarrow> rb_backlog (y_b s) = []"
    "y_pc s \<noteq> None \<Longrightarrow> br_err (y_r s) = None" "y_pc s \<noteq> None \<Longrightarrow> br_last (y_r s) = None" "br_last (y_r s) \<noteq> Some []"
    "br_err (y_r s) \<noteq> None \<Longrightarrow> br_last (y_r s) = None" "y_ctx s \<Longrightarrow> br_err (y_r s) \<noteq> None"
  shows "r_ok taken s"
  unfolding r_ok_def by (intro conjI impI) (rule assms; assumption)+

lemma r_ok0: "r_ok [] rsys0"
  by (simp add: r_ok_def rsys0_def y_queue_def y_last_def newRecvBuffer_def newBufReader_def err_last_def last_err_def)

lemma queue_put: "rb_err (y_b s) = None \<Longrightarrow> y_queue (s\<lparr>y_b := rb_put m (y_b s), y_put := p\<rparr>) = y_queue s @ [m]"
  by (auto simp: y_queue_def rb_put_def Let_def split: option.splits)

lemma err_last_snoc: "err_last ms None \<Longrightarrow> err_last (ms @ [m]) (msg_err m)"
proof -
  assume "err_last ms None"
  then have "\<forall>x\<in>set ms. msg_err x = None" by (cases ms rule: rev_cases) (auto simp: err_last_def)
  then show ?thesis by (simp add: err_last_def)
qed

lemma err_last_prefix: "err_last (ms @ m # ms') e \<Longrightarrow> msg_err m \<noteq> None \<Longrightarrow> ms' = []"
  by (cases ms' rule: rev_cases) (auto simp: err_last_def butlast_append)

lemma rb_put_c: "rb_err b = None \<Longrightarrow> rb_c (rb_put m b) = None \<Longrightarrow> rb_c b = None \<and> rb_backlog b \<noteq> []"
  by (auto simp: rb_put_def Let_def split: if_splits)

lemma r_ok_put:
  assumes "r_ok taken s" "rb_err (y_b s) = None"
  shows "r_ok taken (s\<lparr>y_b := rb_put m (y_b s), y_put := y_put s @ [m]\<rparr>)"
proof (rule r_okI)
  let ?s = "s\<lparr>y_b := rb_put m (y_b s), y_put := y_put s @ [m]\<rparr>"
  show "y_put ?s = taken @ y_queue ?s" using r_okD(1)[OF assms(1)] by (simp add: queue_put[OF assms(2)])
  show "y_out ?s @ y_last ?s = data_of_msgs taken" using r_okD(2)[OF assms(1)] by (simp add: y_last_def)
  have "err_last (y_put s) None" using r_okD(4)[OF assms(1)] assms(2) by simp
  then show "err_last (y_put ?s) (rb_err (y_b ?s))" using err_last_snoc assms(2) by (auto simp: rb_put_def Let_def)
  show "y_pc ?s = None \<Longrightarrow> rb_c (y_b ?s) = None \<Longrightarrow> rb_backlog (y_b ?s) = []"
    using r_okD(5)[OF assms(1)] rb_put_c[OF assms(2), of m] by simp
  show "last_err taken = br_err (y_r ?s)" if "\<not> y_ctx ?s" using r_okD(3)[OF assms(1)] that by simp
  show "br_err (y_r ?s) = None" if "y_pc ?s \<noteq> None" using r_okD(6)[OF assms(1)] that by simp
  show "br_last (y_r ?s) = None" if "y_pc ?s \<noteq> None" using r_okD(7)[OF assms(1)] that by simp
  show "br_last (y_r ?s) \<noteq> Some []" using r_okD(8)[OF assms(1)] by simp
  show "br_last (y_r ?s) = None" if "br_err (y_r ?s) \<noteq> None" using r_okD(9)[OF assms(1)] that by simp
  show "br_err (y_r ?s) \<noteq> None" if "y_ctx ?s" using r_okD(10)[OF assms(1)] that by simp
qed

lemma queue_load: "y_queue (s\<lparr>y_b := rb_load (y_b s)\<rparr>) = y_queue s"
  by (auto simp: y_queue_def rb_load_def split: list.splits)

lemma rb_load_stuck: "rb_c (rb_load b) = None \<Longrightarrow> rb_backlog (rb_load b) = []"
  by (auto simp: rb_load_def split: list.splits if_splits)

lemma rb_load_err: "rb_err (rb_load b) = rb_err b"
  by (auto simp: rb_load_def split: list.splits)

lemma r_ok_quiet:
  assumes "r_ok taken s" "y_pc s = None" "br_err (y_r s) = None"
  shows "\<not> y_ctx s" "last_err taken = None"
  using r_okD(3,10)[OF assms(1)] assms(3) by auto

lemma r_ok_return:
  assumes "r_ok taken s" "y_pc s = None" "read_start n cd (y_r s, y_b s) = (Returns bs e, r, b)"
  shows "r_ok taken (s\<lparr>y_r := r, y_b := b, y_out := y_out s @ bs,
    y_ctx := (y_ctx s \<or> (cd \<noteq> None \<and> br_err (y_r s) = None \<and> br_last (y_r s) = None))\<rparr>)" (is "r_ok _ ?s")
proof (cases "br_err (y_r s)")
  case (Some e')
  then have "r = y_r s" "b = y_b s" "bs = []" using assms(3) by (simp_all add: read_start_def)
  then show ?thesis using assms(1) Some by simp
next
  case None
  note N = None and w = r_ok_quiet[OF assms(1,2) None]
  have b: "b = y_b s" using assms(3) N by (simp add: read_start_def split: option.splits)
  have q: "y_queue ?s = y_queue s" by (simp add: y_queue_def b)
  have "y_out ?s @ y_last ?s = y_out s @ y_last s \<and> br_last r \<noteq> Some [] \<and>
      (y_ctx ?s \<and> br_err r \<noteq> None \<and> br_last r = None \<or> \<not> y_ctx ?s \<and> br_err r = None)"
  proof (cases "br_last (y_r s)")
    case (Some bs')
    then have r: "r = keep_rest n bs' (y_r s)" "bs = take n bs'" using assms(3) N by (simp_all add: read_start_def)
    show ?thesis using w(1) N Some by (cases "drop n bs' = []") (simp_all add: y_last_def r keep_rest_def)
  next
    case None
    then have "r = (y_r s)\<lparr>br_err := cd\<rparr>" "bs = []" "cd \<noteq> None" using assms(3) N by (auto simp: read_start_def split: option.splits)
    then show ?thesis using None N by (simp add: y_last_def)
  qed
  then have d: "y_out ?s @ y_last ?s = y_out s @ y_last s" "br_last r \<noteq> Some []"
      "y_ctx ?s \<and> br_err r \<noteq> None \<and> br_last r = None \<or> \<not> y_ctx ?s \<and> br_err r = None" by blast+
  show ?thesis
  proof (rule r_okI)
    show "y_out ?s @ y_last ?s = data_of_msgs taken" unfolding d(1) by (rule r_okD(2)[OF assms(1)])
    show "y_put ?s = taken @ y_queue ?s" unfolding q using r_okD(1)[OF assms(1)] by simp
    show "err_last (y_put ?s) (rb_err (y_b ?s))" using r_okD(4)[OF assms(1)] b by simp
    show "rb_backlog (y_b ?s) = []" if "y_pc ?s = None" "rb_c (y_b ?s) = None" using r_okD(5)[OF assms(1)] b that by simp
    show "last_err taken = br_err (y_r ?s)" if "\<not> y_ctx ?s"
    proof -
      have "br_err r = None" using d(3) that by blast
      then show ?thesis using w(2) by simp
    qed
    show "br_last (y_r ?s) \<noteq> Some []" using d(2) by simp
    show "br_last (y_r ?s) = None" if "br_err (y_r ?s) \<noteq> None" using d(3) that by auto
    show "br_err (y_r ?s) \<noteq> None" if "y_ctx ?s"
    proof -
      have "br_err r \<noteq> None" using d(3) that by blast
      then show ?thesis by simp
    qed
  qed (use assms(2) in simp_all)
qed

lemma r_ok_receive:
  assumes "r_ok taken s" "y_pc s = None" "read_start n cd (y_r s, y_b s) = (Received m, r, b)"
  shows "r_ok taken (s\<lparr>y_r := r, y_b := b, y_pc := Some (m, n)\<rparr>)" (is "r_ok _ ?s")
proof -
  have r: "r = y_r s" "b = (y_b s)\<lparr>rb_c := None\<rparr>" "rb_c (y_b s) = Some m" "br_err (y_r s) = None" "br_last (y_r s) = None"
    using assms(3) by (auto simp: read_start_def split: option.splits)
  then have q: "y_queue ?s = y_queue s" using assms(2) by (simp add: y_queue_def)
  have l: "y_last ?s = y_last s" by (simp add: y_last_def r)
  show ?thesis using r_okD(1,2,4)[OF assms(1)] r_ok_quiet[OF assms(1,2) r(4)] r(4,5) unfolding r_ok_def q l by (auto simp: r(1,2))
qed

lemma readAdditional_parts:
  assumes "readAdditional m n (r0, b0) = ((bs, e), r, b)" "br_err r0 = None" "br_last r0 = None"
  shows "b = rb_load b0" "bs @ (case br_last r of Some xs \<Rightarrow> xs | None \<Rightarrow> []) = data_of_msg m" "br_err r = msg_err m"
    "br_last r \<noteq> Some []" "br_err r \<noteq> None \<Longrightarrow> br_last r = None"
  using assms by (cases m; auto simp: readAdditional_def Let_def keep_rest_def split: if_splits)+

lemma r_ok_finish:
  assumes "r_ok taken s" "y_pc s = Some (m, n)" "readAdditional m n (y_r s, y_b s) = ((bs, e), r, b)"
  shows "r_ok (taken @ [m]) (s\<lparr>y_r := r, y_b := b, y_out := y_out s @ bs, y_pc := None\<rparr>)" (is "r_ok _ ?s")
proof -
  have i: "br_err (y_r s) = None" "br_last (y_r s) = None" using r_okD(6,7)[OF assms(1)] assms(2) by simp_all
  note p = readAdditional_parts[OF assms(3) i]
  have q: "y_queue s = m # y_queue ?s" using queue_load[of s] assms(2) by (simp add: y_queue_def p(1))
  have c: "\<not> y_ctx s" using r_okD(10)[OF assms(1)] i(1) by auto
  have o: "y_out s = data_of_msgs taken" using r_okD(2)[OF assms(1)] i(2) by (simp add: y_last_def)
  show ?thesis
  proof (rule r_okI)
    show "y_pc ?s = None \<Longrightarrow> rb_c (y_b ?s) = None \<Longrightarrow> rb_backlog (y_b ?s) = []" using rb_load_stuck by (simp add: p(1))
    show "err_last (y_put ?s) (rb_err (y_b ?s))" using r_okD(4)[OF assms(1)] by (simp add: p(1) rb_load_err)
    show "y_put ?s = (taken @ [m]) @ y_queue ?s" using r_okD(1)[OF assms(1)] q by simp
    show "y_out ?s @ y_last ?s = data_of_msgs (taken @ [m])" using o p(2) by (simp add: y_last_def)
    show "last_err (taken @ [m]) = br_err (y_r ?s)" using p(3) by (simp add: last_err_def)
    show "br_last (y_r ?s) \<noteq> Some []" using p(4) by simp
    show "br_last (y_r ?s) = None" if "br_err (y_r ?s) \<noteq> None" using p(5) that by simp
  qed (use c in simp_all)
qed

lemma r_ok_step: "rstep s s' \<Longrightarrow> r_ok taken s \<Longrightarrow> \<exists>taken'. r_ok taken' s'"
proof (induction rule: rstep.induct)
  case (Put s m)
  show ?case
  proof (cases "rb_err (y_b s) = None")
    case True
    show ?thesis using r_ok_put[OF Put True, of m] True by (intro exI[of _ taken]) simp
  next
    case False
    then show ?thesis using Put by (intro exI[of _ taken]) (auto simp: rb_put_def)
  qed
next
  case (Return s n cd bs e r b)
  show ?case by (rule exI, rule r_ok_return[OF Return(3,1,2)])
next
  case (Receive s n cd m r b)
  show ?case by (rule exI, rule r_ok_receive[OF Receive(3,1,2)])
next
  case (Finish s m n bs e r b)
  show ?case by (rule exI, rule r_ok_finish[OF Finish(3,1,2)])
qed

lemma r_reach_ok: "rreach s \<Longrightarrow> \<exists>taken. r_ok taken s"
proof (induction rule: rreach.induct)
  case Start show ?case using r_ok0 by (rule exI)
next
  case (Step s s')
  from Step.IH show ?case by (rule exE) (rule r_ok_step[OF Step.hyps(2)])
qed

text \<open>C4. Whatever the interleaving of the receiving goroutine with the application's reads, and whatever the lengths of
  the reads, the application gets the bytes that arrived in order: what it has read, followed by what the stream still
  holds, is what arrived before the first error. A read blocks only when everything that arrived has been read, and it
  reports an error of the transport only after all the bytes that arrived before it.\<close>

theorem stream_reader_in_order:
  assumes "rreach s"
  shows "y_out s @ y_last s @ data_of_msgs (y_queue s) = data_of_msgs (y_put s)
    \<and> (y_pc s = None \<and> fst (read_start n None (y_r s, y_b s)) = Blocks \<longrightarrow> y_out s = data_of_msgs (y_put s) \<and> y_queue s = [])
    \<and> (\<forall>e. \<not> y_ctx s \<and> br_err (y_r s) = Some e \<longrightarrow> RFail e \<in> set (y_put s) \<and> y_out s = data_of_msgs (y_put s))"
proof -
  obtain taken where ok: "r_ok taken s" using r_reach_ok[OF assms] by blast
  note d = r_okD[OF ok]
  have all: "y_out s @ y_last s @ data_of_msgs (y_queue s) = data_of_msgs (y_put s)" using d(1,2) by (metis append.assoc concat_append map_append)
  have blocks: "y_out s = data_of_msgs (y_put s) \<and> y_queue s = []"
    if "y_pc s = None" "fst (read_start n None (y_r s, y_b s)) = Blocks"
  proof -
    have "br_last (y_r s) = None" "rb_c (y_b s) = None" using that(2) by (auto simp: read_start_def split: option.splits)
    moreover from this have "y_queue s = []" using d(5)[OF that(1)] that(1) by (simp add: y_queue_def)
    ultimately show ?thesis using all by (simp add: y_last_def)
  qed
  have err: "RFail e \<in> set (y_put s) \<and> y_out s = data_of_msgs (y_put s)" if "\<not> y_ctx s" "br_err (y_r s) = Some e" for e
  proof -
    have "last_err taken = Some e" using d(3)[OF that(1)] that(2) by simp
    then have t: "taken \<noteq> []" "last taken = RFail e" by (cases "last taken"; simp add: last_err_def split: if_splits)+
    then obtain us where us: "taken = us @ [RFail e]" by (metis append_butlast_last_id)
    have "y_queue s = []" using err_last_prefix[of us "RFail e" "y_queue s" "rb_err (y_b s)"] d(1,4) us by simp
    moreover have "br_last (y_r s) = None" using d(9) that(2) by simp
    ultimately show ?thesis using all us d(1) by (simp add: y_last_def)
  qed
  show ?thesis by (intro conjI impI allI; (elim conjE)?) (rule all, erule (1) blocks[THEN conjunct1], erule (1) blocks[THEN conjunct2],
      erule (1) err[THEN conjunct1], erule (1) err[THEN conjunct2])
qed

definition demo_read :: "unit rsys" where
  "demo_read = \<lparr>y_b = newRecvBuffer, y_r = \<lparr>br_last = Some [2], br_err = None\<rparr>, y_pc = None, y_put = [RData [1, 2]],
     y_out = [1], y_ctx = False\<rparr>"

lemma demo_read_reach: "rreach demo_read"
proof -
  let ?b = "\<lparr>rb_c = Some (RData [1, 2]), rb_backlog = [], rb_err = None\<rparr> :: unit recvBuffer"
  let ?s1 = "\<lparr>y_b = ?b, y_r = newBufReader, y_pc = None, y_put = [RData [1, 2]], y_out = [], y_ctx = False\<rparr> :: unit rsys"
  let ?s2 = "?s1\<lparr>y_b := newRecvBuffer, y_pc := Some (RData [1, 2], 1)\<rparr>"
  have "rstep rsys0 ?s1"
    using rstep.Put[of rsys0 "RData [1, 2]"] by (simp add: rsys0_def newRecvBuffer_def rb_put_def)
  moreover have "rstep ?s1 ?s2"
    using rstep.Receive[of ?s1 1 None "RData [1, 2]" newBufReader newRecvBuffer]
    by (simp add: read_start_def newBufReader_def newRecvBuffer_def)
  moreover have "rstep ?s2 demo_read"
    using rstep.Finish[of ?s2 "RData [1, 2]" 1 "[1]" None "\<lparr>br_last = Some [2], br_err = None\<rparr>" newRecvBuffer]
    by (simp add: readAdditional_def newBufReader_def newRecvBuffer_def rb_load_def keep_rest_def demo_read_def)
  ultimately show ?thesis using rreach.Start rreach.Step by metis
qed

theorem stream_reader_in_order_witness:
  "rreach demo_read \<and> y_out demo_read @ y_last demo_read @ data_of_msgs (y_queue demo_read) = [1, 2]"
  using stream_reader_in_order[OF demo_read_reach] demo_read_reach by (simp add: demo_read_def)

end
