(* ===== verification/Http2Server.thy ===== *)
theory Http2Server
  imports Loopy HttpUtil RecvBuffer
begin

text \<open>
  The server transport of \<^verbatim>\<open>nphttp2/grpc/http2_server.go\<close> with the streams of \<^verbatim>\<open>transport.go\<close>: the handlers of the frames a
  client sends, the calls of the application (\<^verbatim>\<open>WriteHeader\<close>, \<^verbatim>\<open>Write\<close>, \<^verbatim>\<open>WriteStatus\<close>), closing and draining, and the
  keepalive goroutine. What goes to the writer goroutine goes through the control buffer of \<^verbatim>\<open>ControlBuf\<close>. Streams are
  objects in a heap, because the application keeps them after the transport has dropped them. Times are nanoseconds
  since the zero time, which is 0; the clock is an argument.
\<close>

section \<open>Streams\<close>

datatype streamState = streamActive | streamWriteDone | streamReadDone | streamDone

datatype transportState = reachable | closing | draining

text \<open>Why a stream or a connection ends.\<close>

datatype reason =
    EndOfStream | ConnectionEOF | MaxStreamsExceeded | NotReachable | MaxAgeClosing | IdleClosing | BizHandlerReturn
  | GracefulShutdown | GreetingFailed | InflowControl u32 u32 | RSTReceived u32 | ReadFrameFailed h2err | IllegalHeaderWrite
  | HeaderListSizeViolation | IllegalStreamID u32 | ContextEnded | ControlBufferClosed cberr | AlreadyClosed

type_synonym MD = "(gostring \<times> gostring list) list"

fun md_add :: "gostring \<times> gostring list \<Rightarrow> MD \<Rightarrow> MD" where
  "md_add (k, v) [] = [(k, v)]"
| "md_add (k, v) ((k', v') # md) = (if k = k' then (k, v' @ v) # md else (k', v') # md_add (k, v) md)"

definition AppendMD :: "MD \<Rightarrow> MD \<Rightarrow> MD" where
  "AppendMD md other = fold md_add other md"

record svStream =
  s_id :: u32
  s_state :: streamState
  s_fc :: inFlow
  s_buf :: "reason recvBuffer"
  s_wq :: writeQuota
  s_headerSent :: bool
  s_header :: MD
  s_trailer :: MD
  s_recvCompress :: gostring
  s_sendCompress :: gostring
  s_method :: gostring
  s_contentSubtype :: gostring
  s_sourceService :: gostring
  s_timeout :: "duration option"
  s_cancelled :: "reason option"
  s_biz :: "(u32 \<times> gostring option) option"

section \<open>Compressors\<close>

text \<open>
  \<^verbatim>\<open>FindCompressor\<close> of \<^verbatim>\<open>codec/protobuf/encoding/encoding.go\<close>. The registry maps a compressor's name to the compressor, so
  it is given by the names that are registered. \<^verbatim>\<open>strings.TrimSpace\<close> trims the runes that are spaces from both ends; going
  forward over the runes finds the same last runes, since no space contains the first byte of another rune.
\<close>

definition IsSpace :: "nat \<Rightarrow> bool" where
  "IsSpace r \<longleftrightarrow> r \<in> {9, 10, 11, 12, 13, 32, 0x85, 0xA0, 0x1680, 0x2028, 0x2029, 0x202F, 0x205F, 0x3000} \<or> 0x2000 \<le> r \<and> r \<le> 0x200A"

function runes :: "byte list \<Rightarrow> (nat \<times> byte list) list" where
  "runes s = (if s = [] then [] else case DecodeRune s of (r, n) \<Rightarrow> (r, take n s) # runes (drop n s))"
  by pat_completeness auto
termination by (relation "measure length") (simp, simp, metis DecodeRune_shrink snd_conv)

declare runes.simps [simp del]

definition TrimSpace :: "gostring \<Rightarrow> gostring" where
  "TrimSpace s = concat (map snd (rev (dropWhile (\<lambda>p. IsSpace (fst p)) (rev (dropWhile (\<lambda>p. IsSpace (fst p)) (runes s))))))"

fun Split :: "byte \<Rightarrow> gostring \<Rightarrow> gostring list" where
  "Split c [] = [[]]"
| "Split c (b # s) = (if b = c then [] # Split c s else case Split c s of w # ws \<Rightarrow> (b # w) # ws | [] \<Rightarrow> [[b]])"

definition TrimSuffix :: "gostring \<Rightarrow> gostring \<Rightarrow> gostring" where
  "TrimSuffix s suf = (if HasSuffix s suf then take (length s - length suf) s else s)"

definition Identity :: gostring where "Identity = bytes_of ''identity''"

datatype noCompressor = NoCompressorFor gostring

fun find_in :: "gostring list \<Rightarrow> gostring list \<Rightarrow> bool \<Rightarrow> bool \<times> gostring option" where
  "find_in reg [] hasIdentity = (hasIdentity, None)"
| "find_in reg (w # ws) hasIdentity =
     (let name = TrimSpace w; hasIdentity = (hasIdentity \<or> name = Identity) in
      if name \<in> set reg then (hasIdentity, Some name) else find_in reg ws hasIdentity)"

definition FindCompressor :: "gostring list \<Rightarrow> gostring \<Rightarrow> (noCompressor, gostring option) res" where
  "FindCompressor reg cname =
     (if cname = [] then Ok None
      else case find_in reg (Split 44 (TrimSuffix cname [59])) False of
             (_, Some c) \<Rightarrow> Ok (Some c)
           | (True, None) \<Rightarrow> Ok None
           | (False, None) \<Rightarrow> Err (NoCompressorFor cname))"

definition FindCompressorName :: "gostring list \<Rightarrow> gostring \<Rightarrow> gostring" where
  "FindCompressorName reg cname = (case FindCompressor reg cname of Ok (Some c) \<Rightarrow> c | _ \<Rightarrow> [])"

section \<open>The transport\<close>

text \<open>
  \<open>sv_active\<close> is the map of active streams, \<open>None\<close> when it has been set to nil; \<open>sv_drainChan\<close> and \<open>sv_done\<close>: the channel
  exists, and is closed. \<open>sv_log\<close> records the items the control buffer accepted and \<open>sv_handled\<close> the streams given to the
  application.
\<close>

record 'f http2Server =
  sv_ctl :: controlBuffer
  sv_maxStreamID :: u32
  sv_maxStreams :: u32
  sv_fc :: trInFlow
  sv_kepMinTime :: duration
  sv_kepPermitWithoutStream :: bool
  sv_lastPingAt :: int
  sv_pingStrikes :: byte
  sv_resetPingStrikes :: bool
  sv_initialWindowSize :: u32
  sv_bdpEst :: "'f bdpEstimator option"
  sv_maxSendHeaderListSize :: "u32 option"
  sv_drainChan :: bool
  sv_drainChanClosed :: bool
  sv_state :: transportState
  sv_active :: "(u32 \<times> nat) list option"
  sv_idle :: int
  sv_lastRead :: int
  sv_done :: bool
  sv_connClosed :: bool
  sv_obj :: "nat \<Rightarrow> svStream"
  sv_fresh :: nat
  sv_handled :: "nat list"
  sv_log :: "cbItem list"

type_synonym ('f, 'a) sprog = "('f http2Server, reason, 'a) prog"

text \<open>What the transport takes from elsewhere: header decoding, floating point, the names of the registered compressors.\<close>

record ('f, 'd) senv =
  v_henv :: "'d henv"
  v_F :: "'f float_ops"
  v_secs :: "int \<Rightarrow> 'f"
  v_registered :: "gostring list"

definition active :: "'f http2Server \<Rightarrow> (u32 \<times> nat) list" where
  "active t = (case sv_active t of Some m \<Rightarrow> m | None \<Rightarrow> [])"

definition upd_stream :: "nat \<Rightarrow> (svStream \<Rightarrow> svStream) \<Rightarrow> 'f http2Server \<Rightarrow> 'f http2Server" where
  "upd_stream a f t = t\<lparr>sv_obj := (sv_obj t)(a := f (sv_obj t a))\<rparr>"

text \<open>\<^verbatim>\<open>controlBuf.put\<close>; the callers that ignore its error, and the ones that return it.\<close>

definition sv_put :: "cbItem \<Rightarrow> 'f http2Server \<Rightarrow> 'f http2Server" where
  "sv_put it t =
     (case cb_put it (sv_ctl t) of
        (Ok True, c) \<Rightarrow> t\<lparr>sv_ctl := c, sv_log := sv_log t @ [it]\<rparr>
      | (_, c) \<Rightarrow> t\<lparr>sv_ctl := c\<rparr>)"

definition sv_executeAndPut :: "(cbItem \<Rightarrow> bool) \<Rightarrow> cbItem \<Rightarrow> ('f, bool) sprog" where
  "sv_executeAndPut f it t =
     (case executeAndPut (Some f) it (sv_ctl t) of
        (Ok b, c) \<Rightarrow> (Ok b, t\<lparr>sv_ctl := c, sv_log := (if b then sv_log t @ [it] else sv_log t)\<rparr>)
      | (Err e, c) \<Rightarrow> (Err (ControlBufferClosed e), t\<lparr>sv_ctl := c\<rparr>)
      | (Panic, c) \<Rightarrow> (Panic, t\<lparr>sv_ctl := c\<rparr>)
      | (Diverge, c) \<Rightarrow> (Diverge, t\<lparr>sv_ctl := c\<rparr>))"

definition cancel :: "reason \<Rightarrow> svStream \<Rightarrow> svStream" where
  "cancel r s = s\<lparr>s_cancelled := (if s_cancelled s = None then Some r else s_cancelled s)\<rparr>"

definition sv_write :: "nat \<Rightarrow> reason recvMsg \<Rightarrow> 'f http2Server \<Rightarrow> 'f http2Server" where
  "sv_write a m = upd_stream a (\<lambda>s. s\<lparr>s_buf := rb_put m (s_buf s)\<rparr>)"

definition getStream :: "u32 \<Rightarrow> 'f http2Server \<Rightarrow> nat option" where
  "getStream sid t = (case sv_active t of None \<Rightarrow> None | Some m \<Rightarrow> map_of m sid)"

section \<open>Ending streams\<close>

definition deleteStream :: "int \<Rightarrow> nat \<Rightarrow> 'f http2Server \<Rightarrow> 'f http2Server" where
  "deleteStream now a t =
     (let sid = s_id (sv_obj t a) in
      if getStream sid t = None then t
      else let m = filter (\<lambda>p. fst p \<noteq> sid) (active t);
               t = t\<lparr>sv_active := Some m\<rparr>
           in if m = [] then t\<lparr>sv_idle := now\<rparr> else t)"

definition closeStream :: "int \<Rightarrow> nat \<Rightarrow> reason \<Rightarrow> bool \<Rightarrow> u32 \<Rightarrow> 'f http2Server \<Rightarrow> 'f http2Server" where
  "closeStream now a r rst rstCode t =
     (let t = upd_stream a (cancel r) t;
          t = upd_stream a (\<lambda>s. s\<lparr>s_state := streamDone\<rparr>) t;
          t = deleteStream now a t
      in sv_put (CbCleanup \<lparr>cs_streamID = s_id (sv_obj t a), cs_rst = rst, cs_rstCode = rstCode\<rparr>) t)"

definition finishStream :: "nat \<Rightarrow> bool \<Rightarrow> u32 \<Rightarrow> headerFrame \<Rightarrow> 'f http2Server \<Rightarrow> 'f http2Server" where
  "finishStream a rst rstCode hdr t =
     (if s_state (sv_obj t a) = streamDone then t
      else let t = upd_stream a (\<lambda>s. s\<lparr>s_state := streamDone\<rparr>) t;
               t = upd_stream a (cancel BizHandlerReturn) t;
               hdr = hdr\<lparr>hf_cleanup := Some \<lparr>cs_streamID = s_id (sv_obj t a), cs_rst = rst, cs_rstCode = rstCode\<rparr>\<rparr>
           in sv_put (CbHeader hdr) t)"

section \<open>Frames from the client\<close>

definition adjustWindow :: "nat \<Rightarrow> u32 \<Rightarrow> 'f http2Server \<Rightarrow> 'f http2Server" where
  "adjustWindow a n t =
     (case maybeAdjust n (s_fc (sv_obj t a)) of (w, fc) \<Rightarrow>
        let t = upd_stream a (\<lambda>s. s\<lparr>s_fc := fc\<rparr>) t
        in if w > 0 then sv_put (CbOutgoingWindowUpdate (s_id (sv_obj t a)) w) t else t)"

definition updateWindow :: "nat \<Rightarrow> u32 \<Rightarrow> 'f http2Server \<Rightarrow> 'f http2Server" where
  "updateWindow a n t =
     (case fl_onRead n (s_fc (sv_obj t a)) of (w, fc) \<Rightarrow>
        let t = upd_stream a (\<lambda>s. s\<lparr>s_fc := fc\<rparr>) t
        in if w > 0 then sv_put (CbOutgoingWindowUpdate (s_id (sv_obj t a)) w) t else t)"

definition updateFlowControl :: "u32 \<Rightarrow> 'f http2Server \<Rightarrow> 'f http2Server" where
  "updateFlowControl n t =
     (let t = t\<lparr>sv_obj := (\<lambda>a. if a \<in> snd ` set (active t) then (sv_obj t a)\<lparr>s_fc := fl_newLimit n (s_fc (sv_obj t a))\<rparr>
                              else sv_obj t a),
               sv_initialWindowSize := n\<rparr>;
          w = fst (tr_newLimit n (sv_fc t));
          t = t\<lparr>sv_fc := snd (tr_newLimit n (sv_fc t))\<rparr>;
          t = sv_put (CbOutgoingWindowUpdate 0 w) t
      in sv_put (CbOutgoingSettings [(SettingInitialWindowSize, n)]) t)"

definition HTTPSourceService :: gostring where "HTTPSourceService = bytes_of ''source-service''"

definition defaultWriteQuota :: u32 where "defaultWriteQuota = 65536"

text \<open>The stream that a decoded header block describes.\<close>

definition sv_newStream :: "u32 \<Rightarrow> u32 \<Rightarrow> bool \<Rightarrow> 'd decodeState \<Rightarrow> svStream" where
  "sv_newStream sid win ended d =
     \<lparr>s_id = sid, s_state = (if ended then streamReadDone else streamActive),
      s_fc = \<lparr>fl_limit = win, pendingData = 0, pendingUpdate = 0, fl_delta = 0\<rparr>,
      s_buf = newRecvBuffer, s_wq = newWriteQuota defaultWriteQuota, s_headerSent = False, s_header = [], s_trailer = [],
      s_recvCompress = p_encoding d, s_sendCompress = p_acceptEncoding d, s_method = p_method d,
      s_contentSubtype = p_contentSubtype d,
      s_sourceService = (case mvals (p_mdata d) HTTPSourceService of [] \<Rightarrow> [] | v # _ \<Rightarrow> v),
      s_timeout = (if p_timeoutSet d then Some (p_timeout d) else None), s_cancelled = None, s_biz = None\<rparr>"

definition sv_rst :: "u32 \<Rightarrow> u32 \<Rightarrow> 'f http2Server \<Rightarrow> 'f http2Server" where
  "sv_rst sid code = sv_put (CbCleanup \<lparr>cs_streamID = sid, cs_rst = True, cs_rstCode = code\<rparr>)"

definition ErrCodeRefusedStream :: u32 where "ErrCodeRefusedStream = 7"

text \<open>
  \<^verbatim>\<open>operateHeaders\<close>. An error is fatal for the connection. The new stream object exists only from the point where the
  transport keeps it; before, a refused stream is only cancelled.
\<close>

definition operateHeaders ::
  "('f, 'd) senv \<Rightarrow> u32 \<Rightarrow> bool \<Rightarrow> (gostring \<times> gostring) list \<Rightarrow> bool \<Rightarrow> ('f, unit) sprog" where
  "operateHeaders env sid ended fs truncated t =
     (case decodeHeader (v_henv env) truncated fs (newDecodeState True False) of
        (Ok _, d) \<Rightarrow>
          if sv_state t \<noteq> reachable then (Ok (), t)
          else if of_nat (length (active t)) \<ge> sv_maxStreams t then (Ok (), sv_rst sid ErrCodeRefusedStream t)
          else if sid mod 2 \<noteq> 1 \<or> sid \<le> sv_maxStreamID t then (Err (IllegalStreamID sid), t)
          else
            (case sv_active t of
               None \<Rightarrow> (Panic, t)
             | Some m \<Rightarrow>
                 let a = sv_fresh t;
                     t = t\<lparr>sv_obj := (sv_obj t)(a := sv_newStream sid (sv_initialWindowSize t) ended d), sv_fresh := a + 1\<rparr>;
                     t = t\<lparr>sv_maxStreamID := sid\<rparr>;
                     m = (sid, a) # filter (\<lambda>p. fst p \<noteq> sid) m;
                     t = t\<lparr>sv_active := Some m\<rparr>;
                     t = (if length m = 1 then t\<lparr>sv_idle := 0\<rparr> else t);
                     t = sv_put (CbRegisterStream sid (s_wq (sv_obj t a))) t
                 in (Ok (), t\<lparr>sv_handled := sv_handled t @ [a]\<rparr>))
      | (Err e, _) \<Rightarrow>
          (Ok (), sv_rst sid (case statusCodeConvTab (se_code e) of Some c \<Rightarrow> c | None \<Rightarrow> 0) t)
      | (Panic, _) \<Rightarrow> (Panic, t)
      | (Diverge, _) \<Rightarrow> (Diverge, t))"

definition bdp_on_data :: "int \<Rightarrow> u32 \<Rightarrow> 'f http2Server \<Rightarrow> bool \<times> 'f http2Server" where
  "bdp_on_data now n t =
     (case sv_bdpEst t of
        None \<Rightarrow> (False, t)
      | Some b \<Rightarrow> (case bdp_add now 0 n b of (p, b) \<Rightarrow> (p, t\<lparr>sv_bdpEst := Some b\<rparr>)))"

definition conn_window :: "bool \<Rightarrow> u32 \<Rightarrow> 'f http2Server \<Rightarrow> 'f http2Server" where
  "conn_window sendBDPPing n t =
     (let w = fst (tr_onData n (sv_fc t));
          t = t\<lparr>sv_fc := snd (tr_onData n (sv_fc t))\<rparr>;
          t = (if w > 0 then sv_put (CbOutgoingWindowUpdate 0 w) t else t)
      in if sendBDPPing then
           let w = fst (tr_reset (sv_fc t));
               t = t\<lparr>sv_fc := snd (tr_reset (sv_fc t))\<rparr>;
               t = (if w > 0 then sv_put (CbOutgoingWindowUpdate 0 w) t else t)
           in sv_put (CbPing False bdpPing_data) t
         else t)"

text \<open>The part of \<^verbatim>\<open>handleData\<close> after the stream has been found.\<close>

definition stream_data :: "int \<Rightarrow> nat \<Rightarrow> frame_header \<Rightarrow> byte list \<Rightarrow> 'f http2Server \<Rightarrow> 'f http2Server" where
  "stream_data now a fh data t =
     (let size = fh_Length fh;
          eos = (\<lambda>t. if Has (fh_Flags fh) FlagEndStream
                     then sv_write a (RFail EndOfStream)
                       (upd_stream a (\<lambda>s. if s_state s = streamActive then s\<lparr>s_state := streamReadDone\<rparr> else s) t)
                     else t)
      in if size > 0 then
           (case fl_onData size (s_fc (sv_obj t a)) of
              (Some (rcvd, limit), fc) \<Rightarrow>
                closeStream now a (InflowControl rcvd limit) True ErrCodeFlowControl (upd_stream a (\<lambda>s. s\<lparr>s_fc := fc\<rparr>) t)
            | (None, fc) \<Rightarrow>
                let t = upd_stream a (\<lambda>s. s\<lparr>s_fc := fc\<rparr>) t;
                    t = (if Has (fh_Flags fh) FlagPadded then updateWindow a (size - of_nat (length data)) t else t);
                    t = (if data \<noteq> [] then sv_write a (RData data) t else t)
                in eos t)
         else eos t)"

definition handleData :: "int \<Rightarrow> frame_header \<Rightarrow> byte list \<Rightarrow> 'f http2Server \<Rightarrow> 'f http2Server" where
  "handleData now fh data t =
     (case bdp_on_data now (fh_Length fh) t of (sendBDPPing, t) \<Rightarrow>
        let t = conn_window sendBDPPing (fh_Length fh) t in
        case getStream (fh_StreamID fh) t of
          None \<Rightarrow> t
        | Some a \<Rightarrow> stream_data now a fh data t)"

definition handleRSTStream :: "int \<Rightarrow> u32 \<Rightarrow> u32 \<Rightarrow> 'f http2Server \<Rightarrow> 'f http2Server" where
  "handleRSTStream now sid code t =
     (case getStream sid t of
        Some a \<Rightarrow> closeStream now a (if code = gracefulShutdownCode then GracefulShutdown else RSTReceived code) False 0 t
      | None \<Rightarrow> sv_put (CbCleanup \<lparr>cs_streamID = sid, cs_rst = False, cs_rstCode = 0\<rparr>) t)"

definition SettingMaxHeaderListSize :: u16 where "SettingMaxHeaderListSize = 6"

text \<open>\<^verbatim>\<open>handleSettings\<close>: the callback collects the updates and the settings that go to the writer.\<close>

definition collect_setting :: "u16 \<times> u32 \<Rightarrow> (u32 option \<times> (u16 \<times> u32) list, h2err, unit) prog" where
  "collect_setting s st =
     (if fst s = SettingMaxHeaderListSize then (Ok (), (Some (snd s), snd st)) else (Ok (), (fst st, snd st @ [s])))"

definition handleSettings :: "frame_header \<Rightarrow> byte list \<Rightarrow> ('f, unit) sprog" where
  "handleSettings fh p t =
     (if Has (fh_Flags fh) FlagAck then (Ok (), t)
      else case ForeachSetting (NumSettings p) p 0 collect_setting (None, []) of
             (Panic, _) \<Rightarrow> (Panic, t)
           | (Diverge, _) \<Rightarrow> (Diverge, t)
           | (_, (mx, ss)) \<Rightarrow>
               let t = (if cb_err (sv_ctl t) = None \<and> mx \<noteq> None then t\<lparr>sv_maxSendHeaderListSize := mx\<rparr> else t)
               in (Ok (), sv_put (CbIncomingSettings ss) t))"

definition maxPingStrikes :: byte where "maxPingStrikes = 2"

definition defaultPingTimeout :: duration where "defaultPingTimeout = 2 * Hour"

definition goAwayPing_data :: "byte list" where "goAwayPing_data = [1, 6, 1, 8, 0, 3, 3, 9]"

definition ErrCodeEnhanceYourCalm :: u32 where "ErrCodeEnhanceYourCalm = 11"

definition bdp_on_ack :: "('f, 'd) senv \<Rightarrow> int \<Rightarrow> byte list \<Rightarrow> 'f http2Server \<Rightarrow> 'f http2Server" where
  "bdp_on_ack env now data t =
     (case sv_bdpEst t of
        None \<Rightarrow> t
      | Some b \<Rightarrow>
          (case calculate (v_F env) (v_secs env) now data b of (w, b) \<Rightarrow>
             let t = t\<lparr>sv_bdpEst := Some b\<rparr>
             in case w of None \<Rightarrow> t | Some n \<Rightarrow> updateFlowControl n t))"

definition strike :: "int \<Rightarrow> 'f http2Server \<Rightarrow> 'f http2Server" where
  "strike now t =
     (let early = (if active t = [] \<and> \<not> sv_kepPermitWithoutStream t then sv_lastPingAt t + defaultPingTimeout > now
                   else sv_lastPingAt t + sv_kepMinTime t > now);
          t = (if early then t\<lparr>sv_pingStrikes := sv_pingStrikes t + 1\<rparr> else t)
      in if sv_pingStrikes t > maxPingStrikes
         then sv_put (CbGoAway ErrCodeEnhanceYourCalm (bytes_of ''too_many_pings'') False True) t else t)"

text \<open>\<^verbatim>\<open>handlePing\<close>; closing a nil channel is a panic.\<close>

definition handlePing :: "('f, 'd) senv \<Rightarrow> int \<Rightarrow> bool \<Rightarrow> byte list \<Rightarrow> ('f, unit) sprog" where
  "handlePing env now ack data t =
     (if ack then
        if data = goAwayPing_data \<and> \<not> sv_drainChanClosed t then
          if \<not> sv_drainChan t then (Panic, t)
          else (Ok (), bdp_on_ack env now data (t\<lparr>sv_drainChanClosed := True\<rparr>))
        else (Ok (), bdp_on_ack env now data t)
      else
        let t = sv_put (CbPing True data) t;
            t = (if sv_resetPingStrikes t then t\<lparr>sv_resetPingStrikes := False, sv_pingStrikes := 0\<rparr> else strike now t)
        in (Ok (), t\<lparr>sv_lastPingAt := now\<rparr>))"

definition handleWindowUpdate :: "u32 \<Rightarrow> u32 \<Rightarrow> 'f http2Server \<Rightarrow> 'f http2Server" where
  "handleWindowUpdate sid inc = sv_put (CbIncomingWindowUpdate sid inc)"

section \<open>Closing and draining\<close>

definition reason_text :: "reason \<Rightarrow> string" where
  "reason_text r =
     (case r of ConnectionEOF \<Rightarrow> ''connection EOF'' | MaxAgeClosing \<Rightarrow> ''maximum connection age'' | IdleClosing \<Rightarrow> ''idleness''
      | GracefulShutdown \<Rightarrow> ''graceful shutdown'' | IllegalStreamID _ \<Rightarrow> ''illegal stream id'' | GreetingFailed \<Rightarrow> ''preface'' | _ \<Rightarrow> ''ReadFrame'')"

definition sv_finish :: "reason \<Rightarrow> ('f, unit) sprog" where
  "sv_finish r t =
     (case cb_finish (CbErr (reason_text r)) (sv_ctl t) of (_, _, c) \<Rightarrow>
        let t = t\<lparr>sv_ctl := c\<rparr> in
        if sv_done t then (Panic, t) else (Ok (), t\<lparr>sv_done := True\<rparr>))"

definition cancel_all :: "reason \<Rightarrow> nat list \<Rightarrow> 'f http2Server \<Rightarrow> 'f http2Server" where
  "cancel_all r as = fold (\<lambda>a. upd_stream a (cancel r)) as"

definition closeWithErr :: "reason \<Rightarrow> ('f, unit) sprog" where
  "closeWithErr r t =
     (if sv_state t = closing then (Err AlreadyClosed, t)
      else let streams = map snd (active t);
               t = t\<lparr>sv_state := closing, sv_active := None\<rparr>
           in bindP (sv_finish r) (\<lambda>_ t. (Ok (), cancel_all r streams (t\<lparr>sv_connClosed := True\<rparr>))) t)"

definition rst_stream :: "reason \<Rightarrow> u32 \<Rightarrow> nat \<Rightarrow> 'f http2Server \<Rightarrow> 'f http2Server" where
  "rst_stream r code a t =
     (if s_state (sv_obj t a) = streamDone then t
      else let t = upd_stream a (\<lambda>s. s\<lparr>s_state := streamDone\<rparr>) t;
               t = upd_stream a (cancel r) t
           in sv_rst (s_id (sv_obj t a)) code t)"

text \<open>\<^verbatim>\<open>Close\<close> up to the wait for the writer, and what it does after the wait.\<close>

definition Close :: "'f http2Server \<Rightarrow> bool \<times> 'f http2Server" where
  "Close t =
     (if sv_state t = closing then (False, t)
      else let streams = map snd (active t);
               t = t\<lparr>sv_state := closing, sv_active := None\<rparr>
           in (True, fold (rst_stream GracefulShutdown gracefulShutdownCode) streams t))"

definition closeLoopyWriter :: "('f, unit) sprog" where
  "closeLoopyWriter = sv_finish GracefulShutdown"

definition drain :: "u32 \<Rightarrow> byte list \<Rightarrow> 'f http2Server \<Rightarrow> 'f http2Server" where
  "drain code debug t =
     (if sv_drainChan t then t else sv_put (CbGoAway code debug True False) (t\<lparr>sv_drainChan := True\<rparr>))"

text \<open>The GOAWAY handler that the writer calls: the frames it writes, its answer, and the state after it.\<close>

definition outgoingGoAwayHandler ::
  "u32 \<Rightarrow> byte list \<Rightarrow> bool \<Rightarrow> bool \<Rightarrow> 'f http2Server \<Rightarrow> wcmd list \<times> (lerr, bool) res \<times> 'f http2Server" where
  "outgoingGoAwayHandler code debug headsUp closeConn t =
     (if sv_state t = closing then ([], Err LConnClosing, t)
      else if \<not> headsUp then
        let t = t\<lparr>sv_state := draining\<rparr>;
            closeConn = (closeConn \<or> active t = [])
        in ([WGoAway (sv_maxStreamID t) code debug],
            if closeConn then Err (LGoAway ''transport: Connection closing'') else Ok True, t)
      else ([WGoAway 0xFFFFFFFF 0 debug, WPing False goAwayPing_data], Ok False, t))"

section \<open>Calls of the application\<close>

definition hf_size :: "(gostring \<times> gostring) list \<Rightarrow> nat" where
  "hf_size fs = sum_list (map (\<lambda>f. length (fst f) + length (snd f) + 32) fs)"

definition checkForHeaderListSize :: "u32 option \<Rightarrow> cbItem \<Rightarrow> bool" where
  "checkForHeaderListSize mx it =
     (case (mx, it) of (Some m, CbHeader h) \<Rightarrow> hf_size (hf_hf h) \<le> unat m | _ \<Rightarrow> True)"

definition header_frame :: "u32 \<Rightarrow> (gostring \<times> gostring) list \<Rightarrow> bool \<Rightarrow> headerFrame" where
  "header_frame sid fs ended =
     \<lparr>hf_streamID = sid, hf_hf = fs, hf_endStream = ended, hf_initStream = InitOk, hf_wq = newWriteQuota 0,
      hf_cleanup = None, hf_onOrphaned = False\<rparr>"

definition writeHeaderLocked :: "('f, 'd) senv \<Rightarrow> int \<Rightarrow> nat \<Rightarrow> ('f, unit) sprog" where
  "writeHeaderLocked env now a t =
     (let s = sv_obj t a;
          fs = response_fields (s_contentSubtype s) (FindCompressorName (v_registered env) (s_sendCompress s)) (s_header s)
      in bindP (sv_executeAndPut (checkForHeaderListSize (sv_maxSendHeaderListSize t)) (CbHeader (header_frame (s_id s) fs False)))
           (\<lambda>success t.
              if success then (Ok (), t)
              else (Err HeaderListSizeViolation, closeStream now a HeaderListSizeViolation True 2 t)) t)"

definition WriteHeader :: "('f, 'd) senv \<Rightarrow> int \<Rightarrow> nat \<Rightarrow> MD \<Rightarrow> ('f, unit) sprog" where
  "WriteHeader env now a md t =
     (if s_headerSent (sv_obj t a) then (Err IllegalHeaderWrite, t)
      else let t = upd_stream a (\<lambda>s. s\<lparr>s_headerSent := True\<rparr>) t in
        if s_state (sv_obj t a) = streamDone then (Err ContextEnded, t)
        else let t = (if md \<noteq> [] then upd_stream a (\<lambda>s. s\<lparr>s_header := (if s_header s \<noteq> [] then AppendMD (s_header s) md else md)\<rparr>) t
                      else t)
             in writeHeaderLocked env now a t)"

text \<open>The header part of \<^verbatim>\<open>WriteStatus\<close>: a header block of its own, or none; it tells whether the response is trailers-only.\<close>

definition status_header :: "('f, 'd) senv \<Rightarrow> int \<Rightarrow> nat \<Rightarrow> ('f, bool) sprog" where
  "status_header env now a t =
     (let sent = s_headerSent (sv_obj t a);
          t = upd_stream a (\<lambda>s. s\<lparr>s_headerSent := True\<rparr>) t
      in if sent then (Ok False, t)
         else if s_header (sv_obj t a) \<noteq> [] then bindP (writeHeaderLocked env now a) (\<lambda>_ t. (Ok False, t)) t
         else (Ok True, t))"

definition WriteStatus :: "('f, 'd) senv \<Rightarrow> int \<Rightarrow> nat \<Rightarrow> 'd status \<Rightarrow> ('f, unit) sprog" where
  "WriteStatus env now a st t =
     (if s_state (sv_obj t a) = streamDone then (Ok (), t)
      else bindP (status_header env now a)
        (\<lambda>trailersOnly t.
           let s = sv_obj t a;
               hdr = header_frame (s_id s)
                 (trailer_fields (v_henv env) trailersOnly (s_contentSubtype s) st (s_biz s) (s_trailer s)) True
           in case cb_execute (checkForHeaderListSize (sv_maxSendHeaderListSize t)) (CbHeader hdr) (sv_ctl t) of
                (Err e, c) \<Rightarrow> (Err (ControlBufferClosed e), t)
              | (Ok False, c) \<Rightarrow> (Err HeaderListSizeViolation, closeStream now a HeaderListSizeViolation True 2 t)
              | (Ok True, c) \<Rightarrow> (Ok (), finishStream a (s_state s = streamActive) 0 hdr t)
              | (Panic, c) \<Rightarrow> (Panic, t)
              | (Diverge, c) \<Rightarrow> (Diverge, t)) t)"

text \<open>
  \<^verbatim>\<open>Write\<close>. \<open>None\<close>: it waits for write quota; \<open>ctxDone\<close> says that the stream's context ended while it would wait.
\<close>

definition Write_data :: "nat \<Rightarrow> byte list \<Rightarrow> byte list \<Rightarrow> bool \<Rightarrow> ('f, unit option) sprog" where
  "Write_data a hdr data ctxDone t =
     (let s = sv_obj t a in
      if get_load (s_wq s) then
        let t = upd_stream a (\<lambda>s. s\<lparr>s_wq := get_sub (of_nat (length hdr + length data)) (s_wq s)\<rparr>) t
        in case cb_put (CbData \<lparr>df_streamID = s_id s, df_endStream = False, df_h = hdr, df_d = data\<rparr>) (sv_ctl t) of
             (Err e, c) \<Rightarrow> (Err (ControlBufferClosed e), t)
           | _ \<Rightarrow> (Ok (Some ()), sv_put (CbData \<lparr>df_streamID = s_id s, df_endStream = False, df_h = hdr, df_d = data\<rparr>) t)
      else if ctxDone then (Err ContextEnded, t)
      else (Ok None, t))"

definition Write :: "('f, 'd) senv \<Rightarrow> int \<Rightarrow> nat \<Rightarrow> byte list \<Rightarrow> byte list \<Rightarrow> bool \<Rightarrow> ('f, unit option) sprog" where
  "Write env now a hdr data ctxDone t =
     (if \<not> s_headerSent (sv_obj t a) then
        bindP (WriteHeader env now a []) (\<lambda>_. Write_data a hdr data ctxDone) t
      else if s_state (sv_obj t a) = streamDone then (Err ContextEnded, t)
      else Write_data a hdr data ctxDone t)"

definition SetHeader :: "nat \<Rightarrow> MD \<Rightarrow> ('f, unit) sprog" where
  "SetHeader a md t =
     (if md = [] then (Ok (), t)
      else if s_headerSent (sv_obj t a) \<or> s_state (sv_obj t a) = streamDone then (Err IllegalHeaderWrite, t)
      else (Ok (), upd_stream a (\<lambda>s. s\<lparr>s_header := AppendMD (s_header s) md\<rparr>) t))"

definition SetTrailer :: "nat \<Rightarrow> MD \<Rightarrow> ('f, unit) sprog" where
  "SetTrailer a md t =
     (if md = [] then (Ok (), t)
      else if s_state (sv_obj t a) = streamDone then (Err IllegalHeaderWrite, t)
      else (Ok (), upd_stream a (\<lambda>s. s\<lparr>s_trailer := AppendMD (s_trailer s) md\<rparr>) t))"

section \<open>Construction\<close>

record serverConfig =
  g_MaxStreams :: u32
  g_InitialWindowSize :: u32
  g_InitialConnWindowSize :: u32
  g_MaxHeaderListSize :: "u32 option"
  g_MinTime :: duration
  g_PermitWithoutStream :: bool

definition stream0 :: svStream where
  "stream0 = \<lparr>s_id = 0, s_state = streamDone, s_fc = \<lparr>fl_limit = 0, pendingData = 0, pendingUpdate = 0, fl_delta = 0\<rparr>,
     s_buf = newRecvBuffer, s_wq = newWriteQuota 0, s_headerSent = False, s_header = [], s_trailer = [], s_recvCompress = [],
     s_sendCompress = [], s_method = [], s_contentSubtype = [], s_sourceService = [], s_timeout = None, s_cancelled = None,
     s_biz = None\<rparr>"

definition defaultKeepalivePolicyMinTime :: duration where "defaultKeepalivePolicyMinTime = 5 * Minute"

text \<open>The settings that \<^verbatim>\<open>newHTTP2Server\<close> announces, and the transport it builds; \<open>est\<close> is a fresh estimator.\<close>

definition initial_settings :: "serverConfig \<Rightarrow> (u16 \<times> u32) list" where
  "initial_settings g =
     [(5, of_nat http2MaxFrameLen)]
     @ (if g_MaxStreams g = 0 then [] else [(3, g_MaxStreams g)])
     @ (if g_InitialWindowSize g \<ge> defaultWindowSize then [(SettingInitialWindowSize, g_InitialWindowSize g)] else [])
     @ (case g_MaxHeaderListSize g of Some m \<Rightarrow> [(SettingMaxHeaderListSize, m)] | None \<Rightarrow> [])"

definition newHTTP2Server :: "serverConfig \<Rightarrow> int \<Rightarrow> 'f bdpEstimator \<Rightarrow> 'f http2Server" where
  "newHTTP2Server g now est =
     (let iwz = (if g_InitialWindowSize g \<ge> defaultWindowSize then g_InitialWindowSize g else defaultWindowSize);
          icwz = (if g_InitialConnWindowSize g \<ge> defaultWindowSize then g_InitialConnWindowSize g else defaultWindowSize);
          dynamicWindow = (g_InitialWindowSize g < defaultWindowSize \<and> g_InitialConnWindowSize g < defaultWindowSize)
      in \<lparr>sv_ctl = newControlBuffer, sv_maxStreamID = 0, sv_maxStreams = 0xFFFFFFFF,
          sv_fc = \<lparr>tr_limit = icwz, tr_unacked = 0, tr_effective = 0\<rparr>,
          sv_kepMinTime = (if g_MinTime g = 0 then defaultKeepalivePolicyMinTime else g_MinTime g),
          sv_kepPermitWithoutStream = g_PermitWithoutStream g, sv_lastPingAt = 0, sv_pingStrikes = 0,
          sv_resetPingStrikes = False, sv_initialWindowSize = iwz,
          sv_bdpEst = (if dynamicWindow then Some (est\<lparr>bdp := defaultWindowSize\<rparr>) else None),
          sv_maxSendHeaderListSize = None, sv_drainChan = False, sv_drainChanClosed = False, sv_state = reachable,
          sv_active = Some [], sv_idle = now, sv_lastRead = 0, sv_done = False, sv_connClosed = False,
          sv_obj = (\<lambda>_. stream0), sv_fresh = 0, sv_handled = [], sv_log = []\<rparr>)"

section \<open>The reading loop\<close>

text \<open>One turn of \<^verbatim>\<open>HandleStreams\<close> with the frame or the error that \<^verbatim>\<open>ReadFrame\<close> returned; the result tells whether the loop goes on.\<close>

definition handleFrame :: "('f, 'd) senv \<Rightarrow> int \<Rightarrow> frame \<Rightarrow> ('f, unit) sprog" where
  "handleFrame env now f t =
     (case f of
        MetaHeadersFrame fh _ fs truncated \<Rightarrow>
          (case operateHeaders env (fh_StreamID fh) (Has (fh_Flags fh) FlagEndStream) fs truncated t of
             (Err e, t) \<Rightarrow> (case closeWithErr e t of (Panic, t) \<Rightarrow> (Panic, t) | (_, t) \<Rightarrow> (Ok (), t))
           | r \<Rightarrow> r)
      | DataFrame fh data \<Rightarrow> (Ok (), handleData now fh data t)
      | RSTStreamFrame fh code \<Rightarrow> (Ok (), handleRSTStream now (fh_StreamID fh) code t)
      | SettingsFrame fh p \<Rightarrow> handleSettings fh p t
      | PingFrame fh data \<Rightarrow> handlePing env now (Has (fh_Flags fh) FlagAck) data t
      | WindowUpdateFrame fh inc \<Rightarrow> (Ok (), handleWindowUpdate (fh_StreamID fh) inc t)
      | _ \<Rightarrow> (Ok (), t))"

definition handleReadErr :: "int \<Rightarrow> h2err \<Rightarrow> bool \<Rightarrow> ('f, bool) sprog" where
  "handleReadErr now e eof t =
     (case e of
        StreamError sid code \<Rightarrow>
          (case getStream sid t of
             Some a \<Rightarrow> (Ok True, closeStream now a (ReadFrameFailed e) True code t)
           | None \<Rightarrow> (Ok True, sv_rst sid code t))
      | _ \<Rightarrow>
          (case closeWithErr (if eof \<or> e = ErrUnexpectedEOF then ConnectionEOF else ReadFrameFailed e) t of
             (Panic, t) \<Rightarrow> (Panic, t) | (_, t) \<Rightarrow> (Ok False, t)))"

definition HandleStreams_turn :: "('f, 'd) senv \<Rightarrow> int \<Rightarrow> frame + (h2err \<times> bool) \<Rightarrow> ('f, bool) sprog" where
  "HandleStreams_turn env now r t =
     (let t = t\<lparr>sv_lastRead := now\<rparr> in
      case r of
        Inl f \<Rightarrow> bindP (handleFrame env now f) (\<lambda>_ t. (Ok True, t)) t
      | Inr (e, eof) \<Rightarrow> handleReadErr now e eof t)"

section \<open>The greeting of the client\<close>

definition ClientPreface :: "byte list" where
  "ClientPreface = bytes_of ''PRI * HTTP/2.0'' @ [13, 10, 13, 10] @ bytes_of ''SM'' @ [13, 10, 13, 10]"

datatype prefaceErr = PrefaceEOF | PrefaceReadFailed | BogusGreeting "byte list" | SettingsReadFailed h2err | InvalidPrefaceType

text \<open>
  The end of \<^verbatim>\<open>newHTTP2Server\<close>: what \<^verbatim>\<open>io.ReadFull\<close> returned for the preface (the bytes, or whether the error is EOF), then
  what \<^verbatim>\<open>ReadFrame\<close> returned. Every error closes the transport.
\<close>

definition check_greeting ::
  "int \<Rightarrow> byte list + bool \<Rightarrow> frame + h2err \<Rightarrow> ('f http2Server, prefaceErr, unit) prog" where
  "check_greeting now pre fr t =
     (case pre of
        Inr eof \<Rightarrow> (Err (if eof then PrefaceEOF else PrefaceReadFailed), t)
      | Inl bs \<Rightarrow>
          if bs \<noteq> ClientPreface then (Err (BogusGreeting bs), t)
          else (case fr of
                  Inr e \<Rightarrow> (Err (SettingsReadFailed e), t)
                | Inl f \<Rightarrow>
                    let t = t\<lparr>sv_lastRead := now\<rparr> in
                    (case f of
                       SettingsFrame fh p \<Rightarrow>
                         (case handleSettings fh p t of (Panic, t) \<Rightarrow> (Panic, t) | (Diverge, t) \<Rightarrow> (Diverge, t) | (_, t) \<Rightarrow> (Ok (), t))
                     | _ \<Rightarrow> (Err InvalidPrefaceType, t))))"

definition server_greeting ::
  "int \<Rightarrow> byte list + bool \<Rightarrow> frame + h2err \<Rightarrow> ('f http2Server, prefaceErr, unit) prog" where
  "server_greeting now pre fr t =
     (case check_greeting now pre fr t of
        (Err e, t) \<Rightarrow> (case closeWithErr (if e = PrefaceEOF then ConnectionEOF else GreetingFailed) t of
                        (Panic, t) \<Rightarrow> (Panic, t) | (_, t) \<Rightarrow> (Err e, t))
      | r \<Rightarrow> r)"

section \<open>Keepalive\<close>

record kpParams =
  k_MaxConnectionIdle :: duration
  k_MaxConnectionAge :: duration
  k_MaxConnectionAgeGrace :: duration
  k_Time :: duration
  k_Timeout :: duration

definition Infinity :: duration where "Infinity = 2 ^ 63 - 1"

definition kp_defaults :: "kpParams \<Rightarrow> kpParams" where
  "kp_defaults p =
     \<lparr>k_MaxConnectionIdle = (if k_MaxConnectionIdle p = 0 then Infinity else k_MaxConnectionIdle p),
      k_MaxConnectionAge = (if k_MaxConnectionAge p = 0 then Infinity else k_MaxConnectionAge p),
      k_MaxConnectionAgeGrace = (if k_MaxConnectionAgeGrace p = 0 then Infinity else k_MaxConnectionAgeGrace p),
      k_Time = (if k_Time p = 0 then 2 * Hour else k_Time p),
      k_Timeout = (if k_Timeout p = 0 then 20 * Second else k_Timeout p)\<rparr>"

record kpState =
  k_outstandingPing :: bool
  k_timeoutLeft :: duration
  k_prevNano :: int

text \<open>What the goroutine does next: wait for its timers again (with a timer set anew), or return.\<close>

datatype kpNext = ResetIdle duration | ResetAge duration | ResetKp duration | KpReturn

definition idle_fired :: "kpParams \<Rightarrow> int \<Rightarrow> 'f http2Server \<Rightarrow> kpNext \<times> 'f http2Server" where
  "idle_fired p now t =
     (if sv_idle t = 0 then (ResetIdle (k_MaxConnectionIdle p), t)
      else let val = k_MaxConnectionIdle p - (now - sv_idle t) in
           if val \<le> 0 then (KpReturn, drain 0 (bytes_of ''idleTimeout'') t) else (ResetIdle val, t))"

definition age_fired :: "kpParams \<Rightarrow> 'f http2Server \<Rightarrow> kpNext \<times> 'f http2Server" where
  "age_fired p t = (ResetAge (k_MaxConnectionAgeGrace p), drain 0 (bytes_of ''ageTimeout'') t)"

definition grace_fired :: "('f, kpNext) sprog" where
  "grace_fired t = (case closeWithErr MaxAgeClosing t of (Panic, t) \<Rightarrow> (Panic, t) | (_, t) \<Rightarrow> (Ok KpReturn, t))"

definition minTime :: "duration \<Rightarrow> duration \<Rightarrow> duration" where
  "minTime a b = (if a < b then a else b)"

definition kp_fired :: "kpParams \<Rightarrow> int \<Rightarrow> kpState \<Rightarrow> ('f, kpNext \<times> kpState) sprog" where
  "kp_fired p now k t =
     (if sv_lastRead t > k_prevNano k then
        (Ok (ResetKp (sv_lastRead t + k_Time p - now), k\<lparr>k_outstandingPing := False, k_prevNano := sv_lastRead t\<rparr>), t)
      else if k_outstandingPing k \<and> k_timeoutLeft k \<le> 0 then
        (case closeWithErr IdleClosing t of (Panic, t) \<Rightarrow> (Panic, t) | (_, t) \<Rightarrow> (Ok (KpReturn, k), t))
      else
        let t' = (if \<not> k_outstandingPing k then sv_put (CbPing False (replicate 8 0)) t else t);
            k = (if \<not> k_outstandingPing k then k\<lparr>k_timeoutLeft := k_Timeout p, k_outstandingPing := True\<rparr> else k);
            sleep = minTime (k_Time p) (k_timeoutLeft k)
        in (Ok (ResetKp sleep, k\<lparr>k_timeoutLeft := k_timeoutLeft k - sleep\<rparr>), t'))"

end
