(* ===== verification/Http2ServerInv.thy ===== *)
theory Http2ServerInv
  imports Http2Server
begin

text \<open>
  The runs of a server transport - any interleaving of frames from the client, calls of the application, turns of the
  writer and timers - and the two invariants that every step keeps: the well-formedness of the transport's tables and the
  shape of each stream's response.
\<close>

section \<open>Runs\<close>

datatype 'd sv_event =
    Recv "frame + (h2err \<times> bool)"
  | AppWriteHeader nat MD
  | AppWrite nat "byte list" "byte list" bool
  | AppWriteStatus nat "'d status"
  | AppSetHeader nat MD
  | AppSetTrailer nat MD
  | AppSetBiz nat "(u32 \<times> gostring option) option"
  | AppRequestRead nat u32
  | AppRead nat u32
  | AppClose
  | AppDrain
  | WriterGet bool
  | WriterCleanup nat
  | WriterSentFrame
  | WriterGoAway u32 "byte list" bool bool
  | WriterGone
  | DrainGoAway u32 "byte list"
  | IdleTimer kpParams
  | AgeTimer kpParams
  | GraceTimer
  | KpTimer kpParams kpState

text \<open>One event; what the call returns is dropped, a panic is kept.\<close>

definition done_with :: "('e, 'a) res \<times> 's \<Rightarrow> (unit, unit) res \<times> 's" where
  "done_with r = (case r of (Panic, t) \<Rightarrow> (Panic, t) | (Diverge, t) \<Rightarrow> (Diverge, t) | (_, t) \<Rightarrow> (Ok (), t))"

definition sv_exec :: "('f, 'd) senv \<Rightarrow> int \<Rightarrow> 'd sv_event \<Rightarrow> 'f http2Server \<Rightarrow> (unit, unit) res \<times> 'f http2Server" where
  "sv_exec env now ev t =
     (case ev of
        Recv r \<Rightarrow> done_with (HandleStreams_turn env now r t)
      | AppWriteHeader a md \<Rightarrow> done_with (WriteHeader env now a md t)
      | AppWrite a h d cd \<Rightarrow> done_with (Write env now a h d cd t)
      | AppWriteStatus a st \<Rightarrow> done_with (WriteStatus env now a st t)
      | AppSetHeader a md \<Rightarrow> done_with (SetHeader a md t)
      | AppSetTrailer a md \<Rightarrow> done_with (SetTrailer a md t)
      | AppSetBiz a b \<Rightarrow> (Ok (), upd_stream a (\<lambda>s. s\<lparr>s_biz := b\<rparr>) t)
      | AppRequestRead a n \<Rightarrow> (Ok (), adjustWindow a n t)
      | AppRead a n \<Rightarrow> (Ok (), updateWindow a n t)
      | AppClose \<Rightarrow> (Ok (), snd (Close t))
      | AppDrain \<Rightarrow> (Ok (), drain 0 (bytes_of ''graceful shutdown'') t)
      | WriterGet b \<Rightarrow> (case cb_get b (sv_ctl t) of (Panic, c) \<Rightarrow> (Panic, t\<lparr>sv_ctl := c\<rparr>) | (_, c) \<Rightarrow> (Ok (), t\<lparr>sv_ctl := c\<rparr>))
      | WriterCleanup a \<Rightarrow> (Ok (), deleteStream now a t)
      | WriterSentFrame \<Rightarrow> (Ok (), t\<lparr>sv_resetPingStrikes := True\<rparr>)
      | WriterGoAway c d h cl \<Rightarrow> (Ok (), snd (snd (outgoingGoAwayHandler c d h cl t)))
      | WriterGone \<Rightarrow> done_with (closeLoopyWriter t)
      | DrainGoAway c d \<Rightarrow> (Ok (), sv_put (CbGoAway c d False False) t)
      | IdleTimer p \<Rightarrow> (Ok (), snd (idle_fired p now t))
      | AgeTimer p \<Rightarrow> (Ok (), snd (age_fired p t))
      | GraceTimer \<Rightarrow> done_with (grace_fired t)
      | KpTimer p k \<Rightarrow> done_with (kp_fired p now k t))"

text \<open>
  The application uses only streams it was given, and \<^verbatim>\<open>Close\<close> finishes the writer only once.
\<close>

fun sv_can :: "'d sv_event \<Rightarrow> 'f http2Server \<Rightarrow> bool" where
  "sv_can (AppWriteHeader a _) t \<longleftrightarrow> a \<in> set (sv_handled t)"
| "sv_can (AppWrite a _ _ _) t \<longleftrightarrow> a \<in> set (sv_handled t)"
| "sv_can (AppWriteStatus a _) t \<longleftrightarrow> a \<in> set (sv_handled t)"
| "sv_can (AppSetHeader a _) t \<longleftrightarrow> a \<in> set (sv_handled t)"
| "sv_can (AppSetTrailer a _) t \<longleftrightarrow> a \<in> set (sv_handled t)"
| "sv_can (AppSetBiz a _) t \<longleftrightarrow> a \<in> set (sv_handled t)"
| "sv_can (AppRequestRead a _) t \<longleftrightarrow> a \<in> set (sv_handled t)"
| "sv_can (AppRead a _) t \<longleftrightarrow> a \<in> set (sv_handled t)"
| "sv_can (WriterCleanup a) t \<longleftrightarrow> a \<in> set (sv_handled t)"
| "sv_can WriterGone t \<longleftrightarrow> sv_state t = closing \<and> \<not> sv_done t"
| "sv_can _ t \<longleftrightarrow> True"

inductive sv_reach :: "('f, 'd) senv \<Rightarrow> 'f http2Server \<Rightarrow> bool" for env :: "('f, 'd) senv" where
  Start: "0 < now \<Longrightarrow> sv_reach env (newHTTP2Server g now est)"
| Step: "sv_reach env t \<Longrightarrow> 0 < now \<Longrightarrow> sv_can ev t \<Longrightarrow> sv_exec env now ev t = (Ok (), t') \<Longrightarrow> sv_reach env t'"

section \<open>Effects of the helpers\<close>

lemma cb_put_cases:
  "cb_put it c = (case cb_err c of Some e \<Rightarrow> (Err e, c) | None \<Rightarrow> (Ok True, snd (cb_put it c)))"
  "cb_err (snd (cb_put it c)) = cb_err c"
  by (auto simp: cb_put_def executeAndPut_def Let_def split: option.splits)

definition accepts :: "'f http2Server \<Rightarrow> bool" where
  "accepts t \<longleftrightarrow> cb_err (sv_ctl t) = None"

text \<open>Putting an item is a change of the control buffer and of the log.\<close>

lemma sv_put_eq:
  "sv_put it t = t\<lparr>sv_ctl := snd (cb_put it (sv_ctl t)), sv_log := (if accepts t then sv_log t @ [it] else sv_log t)\<rparr>"
proof (cases "cb_err (sv_ctl t)")
  case None
  then have "cb_put it (sv_ctl t) = (Ok True, snd (cb_put it (sv_ctl t)))" using cb_put_cases(1)[of it "sv_ctl t"] by simp
  then show ?thesis using None unfolding sv_put_def by (auto simp: accepts_def split: prod.splits)
next
  case (Some e)
  then have "cb_put it (sv_ctl t) = (Err e, sv_ctl t)" using cb_put_cases(1)[of it "sv_ctl t"] by simp
  then show ?thesis using Some unfolding sv_put_def by (simp add: accepts_def)
qed

lemma sv_put_sel [simp]:
  "sv_active (sv_put it t) = sv_active t" "sv_state (sv_put it t) = sv_state t" "sv_maxStreamID (sv_put it t) = sv_maxStreamID t"
  "sv_maxStreams (sv_put it t) = sv_maxStreams t" "sv_fresh (sv_put it t) = sv_fresh t" "sv_handled (sv_put it t) = sv_handled t"
  "sv_idle (sv_put it t) = sv_idle t" "sv_drainChan (sv_put it t) = sv_drainChan t"
  "sv_drainChanClosed (sv_put it t) = sv_drainChanClosed t" "sv_done (sv_put it t) = sv_done t" "sv_obj (sv_put it t) = sv_obj t"
  "sv_log (sv_put it t) = (if accepts t then sv_log t @ [it] else sv_log t)" "accepts (sv_put it t) = accepts t"
  "sv_maxSendHeaderListSize (sv_put it t) = sv_maxSendHeaderListSize t"
  by (simp_all add: sv_put_eq accepts_def cb_put_cases(2))

lemma upd_stream_sel [simp]:
  "sv_active (upd_stream a f t) = sv_active t" "sv_state (upd_stream a f t) = sv_state t"
  "sv_maxStreamID (upd_stream a f t) = sv_maxStreamID t" "sv_maxStreams (upd_stream a f t) = sv_maxStreams t"
  "sv_fresh (upd_stream a f t) = sv_fresh t" "sv_handled (upd_stream a f t) = sv_handled t" "sv_idle (upd_stream a f t) = sv_idle t"
  "sv_drainChan (upd_stream a f t) = sv_drainChan t" "sv_drainChanClosed (upd_stream a f t) = sv_drainChanClosed t"
  "sv_done (upd_stream a f t) = sv_done t" "sv_log (upd_stream a f t) = sv_log t" "accepts (upd_stream a f t) = accepts t"
  "sv_obj (upd_stream a f t) = (sv_obj t)(a := f (sv_obj t a))" "sv_ctl (upd_stream a f t) = sv_ctl t"
  "sv_maxSendHeaderListSize (upd_stream a f t) = sv_maxSendHeaderListSize t"
  by (simp_all add: upd_stream_def accepts_def)

lemma cancel_sel [simp]: "s_id (cancel r s) = s_id s" "s_state (cancel r s) = s_state s" "s_headerSent (cancel r s) = s_headerSent s"
  by (simp_all add: cancel_def)

lemma active_cong: "sv_active t' = sv_active t \<Longrightarrow> active t' = active t"
  by (simp add: active_def)

section \<open>Well-formed tables\<close>

text \<open>A control buffer that is shut down, or holds a queue.\<close>

definition cb_ok :: "controlBuffer \<Rightarrow> bool" where
  "cb_ok c \<longleftrightarrow> cb_err c \<noteq> None \<or> (\<exists>q. cb_inv c q)"

lemma cb_ok_put: "cb_ok c \<Longrightarrow> cb_ok (snd (cb_put it c))"
  using cb_put_inv[of c _ it] cb_put_cases(2)[of it c] unfolding cb_ok_def by (metis snd_conv)

lemma cb_ok_get:
  assumes "cb_ok c" "cb_get b c = (r, c')"
  shows "r \<noteq> Panic \<and> cb_ok c'"
proof (cases "cb_err c")
  case None
  then obtain q where q: "cb_inv c q" using assms(1) by (auto simp: cb_ok_def)
  show ?thesis
  proof (cases q)
    case Nil
    then have "cb_inv (c\<lparr>cb_consumerWaiting := True\<rparr>) []" using q by (simp add: cb_inv_def)
    then show ?thesis using cb_get_Nil[of c b] q Nil assms by (auto simp: cb_ok_def split: if_splits)
  next
    case (Cons x q')
    then show ?thesis using cb_get_Cons[of c x q' b] q assms(2) by (auto simp: cb_ok_def)
  qed
next
  case (Some e) then show ?thesis using assms by (auto simp: cb_get_def)
qed

definition srv_wf :: "'f http2Server \<Rightarrow> bool" where
  "srv_wf t \<longleftrightarrow>
     (sv_active t = None \<longleftrightarrow> sv_state t = closing)
     \<and> distinct (map fst (active t)) \<and> distinct (map snd (active t))
     \<and> (\<forall>(k, a)\<in>set (active t). s_id (sv_obj t a) = k \<and> a \<in> set (sv_handled t))
     \<and> length (active t) \<le> unat (sv_maxStreams t)
     \<and> (sv_state t \<noteq> closing \<longrightarrow> (sv_idle t = 0 \<longleftrightarrow> active t \<noteq> []))
     \<and> (sv_drainChanClosed t \<longrightarrow> sv_drainChan t)
     \<and> (sv_done t \<longrightarrow> sv_state t = closing)
     \<and> (\<forall>a\<in>set (sv_handled t). a < sv_fresh t \<and> s_id (sv_obj t a) mod 2 = 1 \<and> s_id (sv_obj t a) \<le> sv_maxStreamID t)
     \<and> sorted_wrt (\<lambda>a b. s_id (sv_obj t a) < s_id (sv_obj t b)) (sv_handled t) \<and> cb_ok (sv_ctl t)"

lemma srv_wfD:
  assumes "srv_wf t"
  shows "sv_active t = None \<longleftrightarrow> sv_state t = closing" "distinct (map fst (active t))" "distinct (map snd (active t))"
    "\<And>k a. (k, a) \<in> set (active t) \<Longrightarrow> s_id (sv_obj t a) = k" "\<And>k a. (k, a) \<in> set (active t) \<Longrightarrow> a \<in> set (sv_handled t)"
    "length (active t) \<le> unat (sv_maxStreams t)" "sv_state t \<noteq> closing \<Longrightarrow> sv_idle t = 0 \<longleftrightarrow> active t \<noteq> []"
    "sv_drainChanClosed t \<Longrightarrow> sv_drainChan t" "sv_done t \<Longrightarrow> sv_state t = closing"
    "\<And>a. a \<in> set (sv_handled t) \<Longrightarrow> a < sv_fresh t" "\<And>a. a \<in> set (sv_handled t) \<Longrightarrow> s_id (sv_obj t a) mod 2 = 1"
    "\<And>a. a \<in> set (sv_handled t) \<Longrightarrow> s_id (sv_obj t a) \<le> sv_maxStreamID t"
    "sorted_wrt (\<lambda>a b. s_id (sv_obj t a) < s_id (sv_obj t b)) (sv_handled t)" "cb_ok (sv_ctl t)"
  using assms unfolding srv_wf_def by auto

lemma srv_wfI:
  assumes "sv_active t = None \<longleftrightarrow> sv_state t = closing" "distinct (map fst (active t))" "distinct (map snd (active t))"
    "\<And>k a. (k, a) \<in> set (active t) \<Longrightarrow> s_id (sv_obj t a) = k" "\<And>k a. (k, a) \<in> set (active t) \<Longrightarrow> a \<in> set (sv_handled t)"
    "length (active t) \<le> unat (sv_maxStreams t)" "sv_state t \<noteq> closing \<Longrightarrow> sv_idle t = 0 \<longleftrightarrow> active t \<noteq> []"
    "sv_drainChanClosed t \<Longrightarrow> sv_drainChan t" "sv_done t \<Longrightarrow> sv_state t = closing"
    "\<And>a. a \<in> set (sv_handled t) \<Longrightarrow> a < sv_fresh t" "\<And>a. a \<in> set (sv_handled t) \<Longrightarrow> s_id (sv_obj t a) mod 2 = 1"
    "\<And>a. a \<in> set (sv_handled t) \<Longrightarrow> s_id (sv_obj t a) \<le> sv_maxStreamID t"
    "sorted_wrt (\<lambda>a b. s_id (sv_obj t a) < s_id (sv_obj t b)) (sv_handled t)" "cb_ok (sv_ctl t)"
  shows "srv_wf t"
  unfolding srv_wf_def by (intro conjI impI ballI; clarify?; (intro conjI)?) (rule assms; assumption)+

text \<open>The invariant speaks about these components only.\<close>

lemma srv_wf_cong:
  assumes "sv_active t' = sv_active t" "sv_state t' = sv_state t" "sv_maxStreamID t' = sv_maxStreamID t"
    "sv_maxStreams t' = sv_maxStreams t" "sv_fresh t' = sv_fresh t" "sv_handled t' = sv_handled t" "sv_idle t' = sv_idle t"
    "sv_drainChan t' = sv_drainChan t" "sv_drainChanClosed t' = sv_drainChanClosed t" "sv_done t' = sv_done t"
    "\<And>a. s_id (sv_obj t' a) = s_id (sv_obj t a)" "cb_ok (sv_ctl t) \<Longrightarrow> cb_ok (sv_ctl t')"
  shows "srv_wf t \<Longrightarrow> srv_wf t'"
  unfolding srv_wf_def active_def assms(1-11) by (elim conjE, intro conjI) (assumption | erule assms(12))+

lemma srv_wf_put [simp]: "srv_wf t \<Longrightarrow> srv_wf (sv_put it t)"
  by (rule srv_wf_cong[of _ t]) (simp_all add: sv_put_eq cb_ok_put)

lemma srv_wf_upd [simp]: "(\<And>s. s_id (f s) = s_id s) \<Longrightarrow> srv_wf t \<Longrightarrow> srv_wf (upd_stream a f t)"
  by (rule srv_wf_cong[of _ t]) simp_all

lemma srv_wf_new: "0 < now \<Longrightarrow> srv_wf (newHTTP2Server g now est)"
  using cb_inv_new by (auto simp: srv_wf_def newHTTP2Server_def Let_def active_def cb_ok_def)

section \<open>The shape of a response\<close>

text \<open>What a stream puts on the wire: header blocks, data and trailers, in the order they enter the control buffer.\<close>

datatype resp_tag = TagHeader | TagData | TagTrailer

fun tag_of :: "u32 \<Rightarrow> cbItem \<Rightarrow> resp_tag list" where
  "tag_of sid (CbHeader h) = (if hf_streamID h = sid then [if hf_endStream h then TagTrailer else TagHeader] else [])"
| "tag_of sid (CbData d) = (if df_streamID d = sid then [TagData] else [])"
| "tag_of sid _ = []"

definition tags :: "u32 \<Rightarrow> cbItem list \<Rightarrow> resp_tag list" where
  "tags sid q = concat (map (tag_of sid) q)"

lemma tags_simps [simp]: "tags sid [] = []" "tags sid (q @ q') = tags sid q @ tags sid q'" "tags sid (x # q) = tag_of sid x @ tags sid q"
  by (simp_all add: tags_def)

text \<open>Nothing, or a header block and data, and at the end a trailer, which may also come alone; a trailer needs a finished stream.\<close>

definition resp_shape :: "bool \<Rightarrow> resp_tag list \<Rightarrow> bool" where
  "resp_shape fin ts \<longleftrightarrow>
     ts = [] \<or> (\<exists>n. ts = TagHeader # replicate n TagData)
     \<or> fin \<and> (ts = [TagTrailer] \<or> (\<exists>n. ts = TagHeader # replicate n TagData @ [TagTrailer]))"

definition resp_at :: "'f http2Server \<Rightarrow> nat \<Rightarrow> bool" where
  "resp_at t a \<longleftrightarrow>
     (let s = sv_obj t a; ts = tags (s_id s) (sv_log t) in
      resp_shape (s_state s = streamDone) ts \<and> (\<not> s_headerSent s \<longrightarrow> ts = [])
      \<and> (s_headerSent s \<and> s_state s \<noteq> streamDone \<longrightarrow> ts \<noteq> [] \<or> \<not> accepts t))"

definition resp_inv :: "'f http2Server \<Rightarrow> bool" where
  "resp_inv t \<longleftrightarrow>
     (\<forall>sid. sid \<notin> (\<lambda>a. s_id (sv_obj t a)) ` set (sv_handled t) \<longrightarrow> tags sid (sv_log t) = [])
     \<and> (\<forall>a\<in>set (sv_handled t). resp_at t a)"

text \<open>Steps that send nothing on any stream and at most finish streams.\<close>

definition quiet :: "'f http2Server \<Rightarrow> 'f http2Server \<Rightarrow> bool" where
  "quiet t t' \<longleftrightarrow>
     sv_handled t' = sv_handled t \<and> (\<forall>sid. tags sid (sv_log t') = tags sid (sv_log t)) \<and> (accepts t' \<longrightarrow> accepts t)
     \<and> (\<forall>a. s_id (sv_obj t' a) = s_id (sv_obj t a) \<and> s_headerSent (sv_obj t' a) = s_headerSent (sv_obj t a)
          \<and> (s_state (sv_obj t a) = streamDone \<longrightarrow> s_state (sv_obj t' a) = streamDone))"

lemma quiet_refl [simp]: "quiet t t"
  by (simp add: quiet_def)

lemma quiet_trans: "quiet t t' \<Longrightarrow> quiet t' t'' \<Longrightarrow> quiet t t''"
  by (simp add: quiet_def)

lemma resp_shape_mono: "resp_shape fin ts \<Longrightarrow> (fin \<Longrightarrow> fin') \<Longrightarrow> resp_shape fin' ts"
  by (auto simp: resp_shape_def)

lemma resp_inv_quiet:
  assumes "quiet t t'" "resp_inv t"
  shows "resp_inv t'"
proof -
  have "resp_at t' a" if "resp_at t a" for a
    using that assms(1) unfolding resp_at_def quiet_def Let_def by (auto intro: resp_shape_mono)
  then show ?thesis using assms unfolding resp_inv_def quiet_def by simp
qed

lemma quiet_put [intro]: "(\<And>sid. tag_of sid it = []) \<Longrightarrow> quiet t (sv_put it t)"
  by (simp add: quiet_def)

definition keeps_resp :: "(svStream \<Rightarrow> svStream) \<Rightarrow> bool" where
  "keeps_resp f \<longleftrightarrow> (\<forall>s. s_id (f s) = s_id s \<and> s_headerSent (f s) = s_headerSent s \<and> (s_state s = streamDone \<longrightarrow> s_state (f s) = streamDone))"

lemma quiet_upd [intro]: "keeps_resp f \<Longrightarrow> quiet t (upd_stream a f t)"
  by (simp add: quiet_def keeps_resp_def)

text \<open>Changes outside the heap, the log and the control buffer are quiet as well.\<close>

lemma quiet_other:
  "sv_handled t' = sv_handled t \<Longrightarrow> sv_log t' = sv_log t \<Longrightarrow> sv_ctl t' = sv_ctl t \<Longrightarrow> sv_obj t' = sv_obj t \<Longrightarrow> quiet t t'"
  by (simp add: quiet_def accepts_def)

lemma keeps_resp_simps [simp]:
  "keeps_resp (cancel r)" "keeps_resp (\<lambda>s. s\<lparr>s_state := streamDone\<rparr>)" "keeps_resp (\<lambda>s. s\<lparr>s_fc := fc\<rparr>)"
  "keeps_resp (\<lambda>s. s\<lparr>s_buf := g (s_buf s)\<rparr>)" "keeps_resp (\<lambda>s. s\<lparr>s_biz := b\<rparr>)" "keeps_resp (\<lambda>s. s\<lparr>s_header := h s\<rparr>)"
  "keeps_resp (\<lambda>s. s\<lparr>s_trailer := h s\<rparr>)" "keeps_resp (\<lambda>s. s\<lparr>s_wq := w s\<rparr>)"
  "keeps_resp (\<lambda>s. if s_state s = streamActive then s\<lparr>s_state := streamReadDone\<rparr> else s)"
  by (simp_all add: keeps_resp_def)

text \<open>Both invariants at once: a step that keeps the tables and is quiet.\<close>

definition srv_ok :: "'f http2Server \<Rightarrow> bool" where
  "srv_ok t \<longleftrightarrow> srv_wf t \<and> resp_inv t"

definition safe :: "'f http2Server \<Rightarrow> 'f http2Server \<Rightarrow> bool" where
  "safe t t' \<longleftrightarrow> quiet t t' \<and> (srv_wf t \<longrightarrow> srv_wf t')"

lemma safe_ok: "safe t t' \<Longrightarrow> srv_ok t \<Longrightarrow> srv_ok t'"
  using resp_inv_quiet unfolding safe_def srv_ok_def by blast

lemma safe_refl [simp]: "safe t t"
  by (simp add: safe_def)

lemma safe_trans: "safe t u \<Longrightarrow> safe u v \<Longrightarrow> safe t v"
  unfolding safe_def using quiet_trans by blast

lemma safe_stepI:
  assumes "safe t u" "quiet u v" "srv_wf u \<Longrightarrow> srv_wf v"
  shows "safe t v"
  by (rule safe_trans[OF assms(1)]) (simp add: safe_def assms(2,3))

text \<open>Each rule extends a safe run by one more step, so a handler is shown safe from its last step to its first.\<close>

named_theorems safes

lemma safe_put [safes]: "safe t u \<Longrightarrow> (\<And>sid. tag_of sid it = []) \<Longrightarrow> safe t (sv_put it u)"
  by (erule safe_trans) (simp add: safe_def quiet_put)

lemma keeps_respD: "keeps_resp f \<Longrightarrow> s_id (f s) = s_id s"
  by (simp add: keeps_resp_def)

lemma safe_upd [safes]: "safe t u \<Longrightarrow> keeps_resp f \<Longrightarrow> safe t (upd_stream a f u)"
  by (erule safe_trans) (simp add: safe_def quiet_upd keeps_respD)

lemma safe_if [safes]: "(P \<Longrightarrow> safe t u) \<Longrightarrow> (\<not> P \<Longrightarrow> safe t v) \<Longrightarrow> safe t (if P then u else v)"
  by simp

lemma safe_fold [safes]: "safe t u \<Longrightarrow> (\<And>x v. safe v (f x v)) \<Longrightarrow> safe t (fold f xs u)"
proof (induction xs arbitrary: u)
  case (Cons x xs)
  have "safe t (f x u)" by (rule safe_trans[OF Cons.prems])
  then show ?case using Cons.IH[of "f x u"] Cons.prems(2) by simp
qed simp

section \<open>Steps that keep both invariants\<close>

lemma active_upd [simp]: "active (t\<lparr>sv_active := Some m\<rparr>) = m" "active (t\<lparr>sv_active := None\<rparr>) = []"
  by (simp_all add: active_def)

lemma getStream_Some: "getStream sid t = Some a \<Longrightarrow> (sid, a) \<in> set (active t)"
  by (auto simp: getStream_def active_def split: option.splits dest: map_of_SomeD)

lemma distinct_map_filter: "distinct (map f xs) \<Longrightarrow> distinct (map f (filter P xs))"
  by (simp add: distinct_map inj_on_def)

lemma srv_wf_shrink:
  assumes wf: "srv_wf t" and m: "m = filter P (active t)" and "sv_active t \<noteq> None" "active t \<noteq> []" "0 < now"
  shows "srv_wf (t\<lparr>sv_active := Some m, sv_idle := (if m = [] then now else sv_idle t)\<rparr>)" (is "srv_wf ?t")
proof (rule srv_wfI)
  have a: "active ?t = m" by (simp add: active_def)
  have sub: "set m \<subseteq> set (active t)" using m by auto
  show "sv_active ?t = None \<longleftrightarrow> sv_state ?t = closing" using srv_wfD(1)[OF wf] assms(3) by simp
  show "distinct (map fst (active ?t))" "distinct (map snd (active ?t))"
    unfolding a using srv_wfD(2,3)[OF wf] m by (simp_all add: distinct_map_filter)
  show "s_id (sv_obj ?t x) = k" "x \<in> set (sv_handled ?t)" if "(k, x) \<in> set (active ?t)" for k x
    using srv_wfD(4,5)[OF wf] sub that unfolding a by auto
  have "length m \<le> length (active t)" unfolding m by (rule length_filter_le)
  then show "length (active ?t) \<le> unat (sv_maxStreams ?t)" unfolding a using srv_wfD(6)[OF wf] by simp
  show "sv_idle ?t = 0 \<longleftrightarrow> active ?t \<noteq> []" if "sv_state ?t \<noteq> closing"
    unfolding a using srv_wfD(7)[OF wf] that assms(4,5) by simp
qed (use srv_wfD(8-14)[OF wf] in simp_all)

lemma deleteStream_eq:
  "deleteStream now a t = (if getStream (s_id (sv_obj t a)) t = None then t
     else let m = filter (\<lambda>p. fst p \<noteq> s_id (sv_obj t a)) (active t) in
       t\<lparr>sv_active := Some m, sv_idle := (if m = [] then now else sv_idle t)\<rparr>)"
  by (simp add: deleteStream_def Let_def)

lemma safe_deleteStream [safes]:
  assumes "safe t u" "0 < now"
  shows "safe t (deleteStream now a u)"
proof -
  have "quiet u (deleteStream now a u)" by (rule quiet_other) (simp_all add: deleteStream_eq Let_def)
  moreover have "srv_wf (deleteStream now a u)" if wf: "srv_wf u"
  proof (cases "getStream (s_id (sv_obj u a)) u")
    case None then show ?thesis using wf by (simp add: deleteStream_eq)
  next
    case (Some b)
    have 1: "sv_active u \<noteq> None" using Some by (simp add: getStream_def split: option.splits)
    have 2: "active u \<noteq> []" using getStream_Some[OF Some] by force
    have "deleteStream now a u = (let m = filter (\<lambda>p. fst p \<noteq> s_id (sv_obj u a)) (active u) in
       u\<lparr>sv_active := Some m, sv_idle := (if m = [] then now else sv_idle u)\<rparr>)" unfolding deleteStream_eq Some by simp
    then show ?thesis unfolding Let_def by (rule ssubst) (rule srv_wf_shrink[OF wf refl 1 2 assms(2)])
  qed
  ultimately show ?thesis by (rule safe_stepI[OF assms(1)])
qed

lemma deleteStream_obj [simp]: "sv_obj (deleteStream now a t) = sv_obj t"
  by (simp add: deleteStream_eq Let_def)

lemma safe_closeStream [safes]: "safe t u \<Longrightarrow> 0 < now \<Longrightarrow> safe t (closeStream now a r rst code u)"
  unfolding closeStream_def Let_def by (intro safes) simp_all

lemma safe_adjustWindow [safes]: "safe t u \<Longrightarrow> safe t (adjustWindow a n u)"
  unfolding adjustWindow_def Let_def case_prod_beta by (intro safes) simp_all

lemma safe_updateWindow [safes]: "safe t u \<Longrightarrow> safe t (updateWindow a n u)"
  unfolding updateWindow_def Let_def case_prod_beta by (intro safes) simp_all

text \<open>A change of components that neither invariant mentions.\<close>

lemma safe_other:
  assumes "sv_active u = sv_active t" "sv_state u = sv_state t" "sv_maxStreamID u = sv_maxStreamID t"
    "sv_maxStreams u = sv_maxStreams t" "sv_fresh u = sv_fresh t" "sv_handled u = sv_handled t"
    "sv_idle u = sv_idle t" "sv_drainChan u = sv_drainChan t"
    "sv_drainChanClosed u = sv_drainChanClosed t" "sv_done u = sv_done t"
    "sv_log u = sv_log t" "accepts u \<Longrightarrow> accepts t"
    "\<And>a. s_id (sv_obj u a) = s_id (sv_obj t a)" "\<And>a. s_headerSent (sv_obj u a) = s_headerSent (sv_obj t a)"
    "\<And>a. s_state (sv_obj u a) = s_state (sv_obj t a)" "cb_ok (sv_ctl t) \<Longrightarrow> cb_ok (sv_ctl u)"
  shows "safe t u"
  unfolding safe_def quiet_def using srv_wf_cong[OF assms(1-10,13,16)]
  by (simp add: assms(6,11,13-15)) (use assms(12) in blast)

lemma safe_fc [safes]: "safe t u \<Longrightarrow> safe t (u\<lparr>sv_fc := x\<rparr>)"
  by (erule safe_trans, rule safe_other) (simp_all add: accepts_def)

lemma safe_updateFlowControl [safes]:
  assumes "safe t u"
  shows "safe t (updateFlowControl n u)"
proof -
  have "safe u (u\<lparr>sv_obj := (\<lambda>a. if a \<in> snd ` set (active u) then (sv_obj u a)\<lparr>s_fc := fl_newLimit n (s_fc (sv_obj u a))\<rparr>
      else sv_obj u a), sv_initialWindowSize := n\<rparr>)" by (rule safe_other) (simp_all add: accepts_def)
  from safe_trans[OF assms this] show ?thesis unfolding updateFlowControl_def Let_def by (intro safes) simp_all
qed

subsection \<open>Frames from the client\<close>

lemma safe_sv_rst [safes]: "safe t u \<Longrightarrow> safe t (sv_rst sid code u)"
  unfolding sv_rst_def by (intro safes) simp_all

lemma safe_sv_write [safes]: "safe t u \<Longrightarrow> safe t (sv_write a m u)"
  unfolding sv_write_def by (intro safes) simp_all

lemma safe_bdp [safes]: "safe t u \<Longrightarrow> safe t (u\<lparr>sv_bdpEst := x\<rparr>)"
  by (erule safe_trans, rule safe_other) (simp_all add: accepts_def)

lemma safe_ping [safes]:
  "safe t u \<Longrightarrow> safe t (u\<lparr>sv_pingStrikes := n\<rparr>)" "safe t u \<Longrightarrow> safe t (u\<lparr>sv_lastPingAt := k\<rparr>)"
  "safe t u \<Longrightarrow> safe t (u\<lparr>sv_resetPingStrikes := b, sv_pingStrikes := n\<rparr>)"
  "safe t u \<Longrightarrow> safe t (u\<lparr>sv_resetPingStrikes := b\<rparr>)" "safe t u \<Longrightarrow> safe t (u\<lparr>sv_lastRead := k\<rparr>)"
  "safe t u \<Longrightarrow> safe t (u\<lparr>sv_maxSendHeaderListSize := mx\<rparr>)" "safe t u \<Longrightarrow> safe t (u\<lparr>sv_connClosed := b\<rparr>)"
  by ((erule safe_trans, rule safe_other); simp add: accepts_def)+

lemma safe_bdp_on_data [safes]: "safe t u \<Longrightarrow> safe t (snd (bdp_on_data now n u))"
  by (auto simp: bdp_on_data_def split: option.splits prod.splits intro: safes)

lemma safe_conn_window [safes]: "safe t u \<Longrightarrow> safe t (conn_window b n u)"
  unfolding conn_window_def Let_def by (intro safes) simp_all

lemma safe_stream_data [safes]:
  assumes "safe t u" "0 < now"
  shows "safe t (stream_data now a fh data u)"
proof (cases "fl_onData (fh_Length fh) (s_fc (sv_obj u a))")
  case (Pair v fc)
  then show ?thesis using assms
    by (cases v) (auto simp: stream_data_def Let_def intro!: safes)
qed

lemma safe_handleData [safes]: "safe t u \<Longrightarrow> 0 < now \<Longrightarrow> safe t (handleData now fh data u)"
  unfolding handleData_def Let_def case_prod_beta by (auto split: option.split intro!: safes)

lemma safe_handleRSTStream [safes]: "safe t u \<Longrightarrow> 0 < now \<Longrightarrow> safe t (handleRSTStream now sid code u)"
  unfolding handleRSTStream_def by (auto split: option.split intro!: safes)

lemma safe_handleSettings [safes]: "safe t u \<Longrightarrow> safe t (snd (handleSettings fh p u))"
  unfolding handleSettings_def Let_def by (auto split: prod.split res.split intro!: safes)

lemma safe_bdp_on_ack [safes]: "safe t u \<Longrightarrow> safe t (bdp_on_ack env now data u)"
  unfolding bdp_on_ack_def Let_def by (auto split: prod.split option.split intro!: safes)

lemma safe_strike [safes]: "safe t u \<Longrightarrow> safe t (strike now u)"
  unfolding strike_def Let_def by (intro safes) simp_all

lemma safe_drainClosed:
  assumes "safe t u" "sv_drainChan u"
  shows "safe t (u\<lparr>sv_drainChanClosed := True\<rparr>)"
  using assms by (elim safe_stepI) (auto simp: srv_wf_def active_def intro: quiet_other)

lemma safe_handlePing [safes]: "safe t u \<Longrightarrow> safe t (snd (handlePing env now ack data u))"
  unfolding handlePing_def Let_def by (auto intro!: safes safe_drainClosed)

lemma safe_handleWindowUpdate [safes]: "safe t u \<Longrightarrow> safe t (handleWindowUpdate sid inc u)"
  unfolding handleWindowUpdate_def by (intro safes) simp_all

subsection \<open>Closing and draining\<close>

lemma safe_close_tables:
  assumes "safe t u"
  shows "safe t (u\<lparr>sv_state := closing, sv_active := None\<rparr>)"
  using assms by (elim safe_stepI) (simp_all add: srv_wf_def active_def quiet_other)

lemma safe_sv_finish:
  assumes "safe t u" "sv_state u = closing"
  shows "safe t (snd (sv_finish r u))"
proof -
  obtain e hs c where c: "cb_finish (CbErr (reason_text r)) (sv_ctl u) = (e, hs, c)" by (cases "cb_finish (CbErr (reason_text r)) (sv_ctl u)")
  have err: "cb_err c \<noteq> None" using c by (auto simp: cb_finish_def split: option.splits prod.splits)
  let ?u = "snd (sv_finish r u)"
  have eq: "?u = (if sv_done u then u\<lparr>sv_ctl := c\<rparr> else u\<lparr>sv_ctl := c, sv_done := True\<rparr>)" by (simp add: sv_finish_def c Let_def)
  have "srv_wf ?u" if "srv_wf u" using that assms(2) err by (simp add: eq srv_wf_def active_def cb_ok_def)
  moreover have "quiet u ?u" unfolding quiet_def eq using err by (auto simp: accepts_def)
  ultimately show ?thesis by (intro safe_stepI[OF assms(1)])
qed

lemma safe_cancel_all [safes]: "safe t u \<Longrightarrow> safe t (cancel_all r as u)"
  unfolding cancel_all_def by (intro safes) simp_all

lemma safe_closeWithErr [safes]:
  assumes "safe t u"
  shows "safe t (snd (closeWithErr r u))"
proof (cases "sv_state u = closing")
  case True then show ?thesis using assms by (simp add: closeWithErr_def)
next
  case False
  let ?u = "u\<lparr>sv_state := closing, sv_active := None\<rparr>"
  obtain x v where v: "sv_finish r ?u = (x, v)" by (cases "sv_finish r ?u")
  have "safe t v" using safe_sv_finish[OF safe_close_tables[OF assms], of r] v by simp
  then show ?thesis using False by (cases x) (simp_all add: closeWithErr_def Let_def bindP_def v safes)
qed

lemma safe_rst_stream [safes]: "safe t u \<Longrightarrow> safe t (rst_stream r code a u)"
  unfolding rst_stream_def Let_def by (intro safes) simp_all

lemma safe_Close [safes]: "safe t u \<Longrightarrow> safe t (snd (Close u))"
  unfolding Close_def Let_def by (auto intro!: safes safe_close_tables)

lemma safe_drain [safes]: 
  assumes "safe t u"
  shows "safe t (drain code debug u)"
proof -
  have "safe t (u\<lparr>sv_drainChan := True\<rparr>)" using assms by (elim safe_stepI) (simp_all add: srv_wf_def active_def quiet_other)
  then show ?thesis using assms unfolding drain_def by (intro safes) simp_all
qed

lemma safe_goAway [safes]:
  assumes "safe t u"
  shows "safe t (snd (snd (outgoingGoAwayHandler c d h cl u)))"
proof -
  have "safe t (u\<lparr>sv_state := draining\<rparr>)" if "sv_state u \<noteq> closing"
    using assms that by (elim safe_stepI) (simp_all add: srv_wf_def active_def quiet_other)
  then show ?thesis using assms by (simp add: outgoingGoAwayHandler_def Let_def)
qed

lemma safe_writer [safes]:
  assumes "safe t u" "cb_get b (sv_ctl u) = (r, c)"
  shows "safe t (u\<lparr>sv_ctl := c\<rparr>)"
proof -
  have "cb_err c = cb_err (sv_ctl u)"
    using assms(2) by (auto simp: cb_get_def Let_def split: option.splits if_splits prod.splits)
  then have "safe u (u\<lparr>sv_ctl := c\<rparr>)" using cb_ok_get[OF _ assms(2)] by (intro safe_other) (simp_all add: accepts_def)
  then show ?thesis by (rule safe_trans[OF assms(1)])
qed

subsection \<open>Keepalive\<close>

lemma safe_timers [safes]:
  "safe t u \<Longrightarrow> safe t (snd (idle_fired p now u))" "safe t u \<Longrightarrow> safe t (snd (age_fired p u))"
  "safe t u \<Longrightarrow> safe t (snd (grace_fired u))" "safe t u \<Longrightarrow> safe t (snd (kp_fired p now k u))"
  subgoal by (simp add: idle_fired_def Let_def safes)
  subgoal by (simp add: age_fired_def safes)
  subgoal using safe_closeWithErr[of t u MaxAgeClosing]
    by (cases "closeWithErr MaxAgeClosing u"; cases "fst (closeWithErr MaxAgeClosing u)") (simp_all add: grace_fired_def)
  subgoal using safe_closeWithErr[of t u IdleClosing]
    by (cases "closeWithErr IdleClosing u"; cases "fst (closeWithErr IdleClosing u)")
      (auto simp: kp_fired_def Let_def intro!: safes)
  done

section \<open>New streams\<close>

lemma wf_new_stream:
  assumes wf: "srv_wf t" and st: "sv_state t = reachable" and act: "sv_active t = Some m"
    and room: "of_nat (length m) < sv_maxStreams t" and sid: "sid mod 2 = 1" "sv_maxStreamID t < sid" and s: "s_id s = sid"
    and t': "t' = t\<lparr>sv_obj := (sv_obj t)(sv_fresh t := s), sv_fresh := sv_fresh t + 1, sv_maxStreamID := sid,
      sv_active := Some ((sid, sv_fresh t) # m), sv_idle := 0, sv_handled := sv_handled t @ [sv_fresh t]\<rparr>"
  shows "srv_wf t'"
proof (rule srv_wfI)
  have m: "active t = m" by (simp add: active_def act)
  have a': "active t' = (sid, sv_fresh t) # m" by (simp add: t' active_def)
  have h': "sv_handled t' = sv_handled t @ [sv_fresh t]" by (simp add: t')
  have fresh: "a \<noteq> sv_fresh t" if "a \<in> set (sv_handled t)" for a using srv_wfD(10)[OF wf that] by simp
  have old: "s_id (sv_obj t a) < sid" if "a \<in> set (sv_handled t)" for a using srv_wfD(12)[OF wf that] sid(2) by simp
  have obj: "sv_obj t' a = sv_obj t a" if "a \<in> set (sv_handled t)" for a using fresh[OF that] by (simp add: t')
  have new: "sv_obj t' (sv_fresh t) = s" by (simp add: t')
  have mem: "a \<in> set (sv_handled t) \<and> s_id (sv_obj t a) = k" if "(k, a) \<in> set m" for k a
    using srv_wfD(4,5)[OF wf] that unfolding m by blast
  have "sid \<notin> fst ` set m" "sv_fresh t \<notin> snd ` set m" using mem old fresh by fastforce+
  then show "distinct (map fst (active t'))" "distinct (map snd (active t'))"
    using srv_wfD(2,3)[OF wf] unfolding m a' by simp_all
  show "s_id (sv_obj t' a) = k" "a \<in> set (sv_handled t')" if "(k, a) \<in> set (active t')" for k a
    using that mem obj s new unfolding a' h' by auto
  have "length m \<le> unat (sv_maxStreams t)" using srv_wfD(6)[OF wf] unfolding m .
  then have "unat (of_nat (length m) :: u32) = length m" using unsigned_less[of "sv_maxStreams t", where ?'a = nat] by (simp add: unat_of_nat)
  then show "length (active t') \<le> unat (sv_maxStreams t')" using room unfolding a' by (simp add: t' word_less_nat_alt)
  show "a < sv_fresh t'" if "a \<in> set (sv_handled t')" for a using that srv_wfD(10)[OF wf, of a] unfolding h' by (auto simp: t')
  show "s_id (sv_obj t' a) mod 2 = 1" if "a \<in> set (sv_handled t')" for a
    using that srv_wfD(11)[OF wf, of a] sid(1) s obj new unfolding h' by auto
  show "s_id (sv_obj t' a) \<le> sv_maxStreamID t'" if "a \<in> set (sv_handled t')" for a
    using that old s obj new unfolding h' by (auto simp: t' intro: less_imp_le)
  have "sorted_wrt (\<lambda>a b. s_id (sv_obj t' a) < s_id (sv_obj t' b)) (sv_handled t)"
    by (rule sorted_wrt_mono_rel[OF _ srv_wfD(13)[OF wf]]) (simp add: obj)
  then show "sorted_wrt (\<lambda>a b. s_id (sv_obj t' a) < s_id (sv_obj t' b)) (sv_handled t')"
    unfolding h' using old s obj new by (simp add: sorted_wrt_append)
qed (use st srv_wfD(8,9,14)[OF wf] in \<open>simp_all add: t' active_def\<close>)

lemma resp_new_stream:
  assumes wf: "srv_wf t" and r: "resp_inv t" and sid: "sv_maxStreamID t < sid" and s: "s_id s = sid" "\<not> s_headerSent s"
    and t': "sv_handled t' = sv_handled t @ [sv_fresh t]" "sv_obj t' = (sv_obj t)(sv_fresh t := s)" "sv_log t' = sv_log t"
      "accepts t' = accepts t"
  shows "resp_inv t'"
proof -
  have fresh: "a \<noteq> sv_fresh t" if "a \<in> set (sv_handled t)" for a using srv_wfD(10)[OF wf that] by simp
  have old: "s_id (sv_obj t a) \<noteq> sid" if "a \<in> set (sv_handled t)" for a using srv_wfD(12)[OF wf that] sid by auto
  have none: "tags sid (sv_log t) = []" using r old unfolding resp_inv_def by (metis (no_types, lifting) imageE)
  have "resp_at t' a" if "a \<in> set (sv_handled t)" for a
    using r fresh[OF that] that unfolding resp_inv_def resp_at_def by (simp add: t')
  moreover have "resp_at t' (sv_fresh t)" using none s by (simp add: resp_at_def t' resp_shape_def)
  moreover have "tags x (sv_log t') = []" if "x \<notin> (\<lambda>a. s_id (sv_obj t' a)) ` set (sv_handled t')" for x
  proof -
    have "x \<notin> (\<lambda>a. s_id (sv_obj t a)) ` set (sv_handled t)" using that fresh by (auto simp: t' image_iff)
    then show ?thesis using r unfolding resp_inv_def t'(3) by blast
  qed
  ultimately show ?thesis unfolding resp_inv_def by (auto simp: t'(1))
qed

lemma ok_put: "srv_ok t \<Longrightarrow> (\<And>sid. tag_of sid it = []) \<Longrightarrow> srv_ok (sv_put it t)"
  by (rule safe_ok[of t]) (auto intro: safes)

lemma sv_put_handled: "(sv_put it t)\<lparr>sv_handled := h\<rparr> = sv_put it (t\<lparr>sv_handled := h\<rparr>)"
  by (simp add: sv_put_eq accepts_def)

lemma ok_accept_stream:
  assumes ok: "srv_ok t" and st: "sv_state t = reachable" and act: "sv_active t = Some m"
    and room: "of_nat (length m) < sv_maxStreams t" and sid: "sid mod 2 = 1" "sv_maxStreamID t < sid"
  shows "srv_ok (snd (
      let a = sv_fresh t;
          t = t\<lparr>sv_obj := (sv_obj t)(a := sv_newStream sid (sv_initialWindowSize t) ended d), sv_fresh := a + 1\<rparr>;
          t = t\<lparr>sv_maxStreamID := sid\<rparr>;
          m = (sid, a) # filter (\<lambda>p. fst p \<noteq> sid) m;
          t = t\<lparr>sv_active := Some m\<rparr>;
          t = (if length m = 1 then t\<lparr>sv_idle := 0\<rparr> else t);
          t = sv_put (CbRegisterStream sid (s_wq (sv_obj t a))) t
      in (Ok () :: (reason, unit) res, t\<lparr>sv_handled := sv_handled t @ [a]\<rparr>)))" (is "srv_ok (snd ?r)")
proof -
  have wf: "srv_wf t" and r: "resp_inv t" using ok by (simp_all add: srv_ok_def)
  have m: "active t = m" by (simp add: active_def act)
  let ?s = "sv_newStream sid (sv_initialWindowSize t) ended d"
  define t' where "t' = t\<lparr>sv_obj := (sv_obj t)(sv_fresh t := ?s), sv_fresh := sv_fresh t + 1, sv_maxStreamID := sid,
      sv_active := Some ((sid, sv_fresh t) # m), sv_idle := 0, sv_handled := sv_handled t @ [sv_fresh t]\<rparr>"
  have s: "s_id ?s = sid" "\<not> s_headerSent ?s" by (simp_all add: sv_newStream_def)
  have "fst p \<noteq> sid" if "p \<in> set m" for p
    using srv_wfD(4,5,12)[OF wf] that sid(2) unfolding m by (cases p) fastforce
  then have f: "filter (\<lambda>p. fst p \<noteq> sid) m = m" by (simp add: filter_id_conv)
  have idle: "m \<noteq> [] \<Longrightarrow> sv_idle t = 0" using srv_wfD(7)[OF wf] st unfolding m by simp
  have "t\<lparr>sv_obj := (sv_obj t)(sv_fresh t := ?s), sv_fresh := sv_fresh t + 1, sv_maxStreamID := sid,
      sv_active := Some ((sid, sv_fresh t) # m), sv_handled := sv_handled t @ [sv_fresh t]\<rparr> = t'" if "m \<noteq> []"
    unfolding t'_def using idle[OF that] by (intro http2Server.equality) simp_all
  then have "snd ?r = sv_put (CbRegisterStream sid (s_wq ?s)) t'"
    by (cases "m = []") (simp_all add: Let_def f sv_put_handled, simp_all add: t'_def)
  moreover have "srv_ok t'" unfolding srv_ok_def
    using wf_new_stream[OF wf st act room sid s(1) t'_def] resp_new_stream[OF wf r sid(2) s, of t']
    by (simp add: t'_def accepts_def)
  ultimately show ?thesis by (simp add: ok_put)
qed

lemma srv_ok_operateHeaders:
  assumes ok: "srv_ok t"
  shows "srv_ok (snd (operateHeaders env sid ended fs truncated t))"
proof -
  have "srv_ok (sv_rst x c t)" for x c by (rule safe_ok[OF _ ok]) (auto intro: safes)
  moreover have "srv_ok (snd (operateHeaders env sid ended fs truncated t))"
    if "decodeHeader (v_henv env) truncated fs (newDecodeState True False) = (Ok u, d)" "sv_state t = reachable"
      "\<not> of_nat (length (active t)) \<ge> sv_maxStreams t" "\<not> (sid mod 2 \<noteq> 1 \<or> sid \<le> sv_maxStreamID t)" for u d
  proof (cases "sv_active t")
    case None then show ?thesis using that ok by (simp add: operateHeaders_def)
  next
    case (Some m)
    then have "of_nat (length m) < sv_maxStreams t" "sid mod 2 = 1" "sv_maxStreamID t < sid" using that by (auto simp: active_def)
    from ok_accept_stream[OF ok that(2) Some this] show ?thesis using that Some by (simp add: operateHeaders_def)
  qed
  ultimately show ?thesis using ok
    by (cases "decodeHeader (v_henv env) truncated fs (newDecodeState True False)";
        cases "fst (decodeHeader (v_henv env) truncated fs (newDecodeState True False))")
      (auto simp: operateHeaders_def split: if_splits)
qed

section \<open>Sending\<close>

text \<open>The response invariant for every stream but one.\<close>

definition resp_but :: "nat \<Rightarrow> 'f http2Server \<Rightarrow> bool" where
  "resp_but a t \<longleftrightarrow> srv_wf t \<and> a \<in> set (sv_handled t)
     \<and> (\<forall>sid. sid \<notin> (\<lambda>a. s_id (sv_obj t a)) ` set (sv_handled t) \<longrightarrow> tags sid (sv_log t) = [])
     \<and> (\<forall>b\<in>set (sv_handled t). b \<noteq> a \<longrightarrow> resp_at t b)"

abbreviation sent :: "nat \<Rightarrow> 'f http2Server \<Rightarrow> resp_tag list" where
  "sent a t \<equiv> tags (s_id (sv_obj t a)) (sv_log t)"

lemma srv_ok_iff: "a \<in> set (sv_handled t) \<Longrightarrow> srv_ok t \<longleftrightarrow> resp_but a t \<and> resp_at t a"
  by (auto simp: srv_ok_def resp_inv_def resp_but_def)

lemma handled_ids:
  assumes "srv_wf t" "a \<in> set (sv_handled t)" "b \<in> set (sv_handled t)" "s_id (sv_obj t a) = s_id (sv_obj t b)"
  shows "a = b"
proof -
  obtain i j where ij: "i < length (sv_handled t)" "j < length (sv_handled t)" "a = sv_handled t ! i" "b = sv_handled t ! j"
    using assms(2,3) by (auto simp: in_set_conv_nth)
  have "\<not> i < j" "\<not> j < i" using sorted_wrt_nth_less[OF srv_wfD(13)[OF assms(1)]] ij assms(4) by fastforce+
  then show ?thesis using ij by simp
qed

lemma resp_but_upd:
  assumes "resp_but a t" "\<And>s. s_id (f s) = s_id s"
  shows "resp_but a (upd_stream a f t)"
proof -
  have "resp_at (upd_stream a f t) b" if "resp_at t b" "b \<noteq> a" for b using that by (simp add: resp_at_def)
  then show ?thesis using assms unfolding resp_but_def by (auto simp: image_iff split: if_splits)
qed

lemma resp_but_put:
  assumes "resp_but a t" "\<And>sid. sid \<noteq> s_id (sv_obj t a) \<Longrightarrow> tag_of sid it = []"
  shows "resp_but a (sv_put it t)"
proof -
  have wf: "srv_wf t" and a: "a \<in> set (sv_handled t)" using assms(1) by (simp_all add: resp_but_def)
  have "tags (s_id (sv_obj t b)) (sv_log (sv_put it t)) = tags (s_id (sv_obj t b)) (sv_log t)"
    if "b \<in> set (sv_handled t)" "b \<noteq> a" for b using handled_ids[OF wf that(1) a] that(2) assms(2) by auto
  then have "resp_at (sv_put it t) b" if "b \<in> set (sv_handled t)" "b \<noteq> a" "resp_at t b" for b
    using that unfolding resp_at_def Let_def by simp
  moreover have "tags sid (sv_log (sv_put it t)) = []"
    if "sid \<notin> (\<lambda>a. s_id (sv_obj t a)) ` set (sv_handled t)" for sid
    using assms that a unfolding resp_but_def by auto
  ultimately show ?thesis using assms(1) unfolding resp_but_def by simp
qed

lemma sv_executeAndPut_cases:
  "sv_executeAndPut f it t =
     (if \<not> accepts t then (Err (ControlBufferClosed (the (cb_err (sv_ctl t)))), t)
      else if f it then (Ok True, sv_put it t) else (Ok False, t))"
  by (auto simp: sv_executeAndPut_def sv_put_def cb_put_def executeAndPut_def accepts_def Let_def split: option.splits)

text \<open>A stream whose header block has not been sent, but is being sent.\<close>

definition hdrOpen :: "nat \<Rightarrow> 'f http2Server \<Rightarrow> bool" where
  "hdrOpen a t \<longleftrightarrow> resp_but a t \<and> s_headerSent (sv_obj t a) \<and> sent a t = []"

lemma hdrOpenI:
  assumes "srv_ok t" "a \<in> set (sv_handled t)" "\<not> s_headerSent (sv_obj t a)"
  shows "hdrOpen a (upd_stream a (\<lambda>s. s\<lparr>s_headerSent := True\<rparr>) t)"
proof -
  have "resp_but a t" "sent a t = []" using assms by (simp_all add: srv_ok_iff[OF assms(2)] resp_at_def Let_def)
  then show ?thesis by (simp add: hdrOpen_def resp_but_upd)
qed

lemma resp_but_safe:
  assumes "resp_but a t" "safe t u"
  shows "resp_but a u"
proof -
  have "resp_at u b" if "resp_at t b" for b
    using that assms(2) unfolding safe_def resp_at_def quiet_def Let_def by (auto intro: resp_shape_mono)
  then show ?thesis using assms unfolding resp_but_def safe_def quiet_def by simp
qed

lemma hdrOpen_safe: "hdrOpen a t \<Longrightarrow> safe t u \<Longrightarrow> hdrOpen a u"
  using resp_but_safe unfolding hdrOpen_def by (auto simp: safe_def quiet_def)

lemma hdrOpen_ok: "hdrOpen a t \<Longrightarrow> s_state (sv_obj t a) = streamDone \<or> \<not> accepts t \<Longrightarrow> srv_ok t"
proof -
  assume o: "hdrOpen a t" and d: "s_state (sv_obj t a) = streamDone \<or> \<not> accepts t"
  have "a \<in> set (sv_handled t)" using o by (simp add: hdrOpen_def resp_but_def)
  then show "srv_ok t" using o d by (auto simp: srv_ok_iff hdrOpen_def resp_at_def resp_shape_def)
qed

lemma closeStream_done: "s_state (sv_obj (closeStream now a r rst code t) a) = streamDone"
  by (simp add: closeStream_def Let_def)

lemma closeStream_handled: "sv_handled (closeStream now a r rst code t) = sv_handled t"
  by (simp add: closeStream_def Let_def deleteStream_eq)

lemma writeHeaderLocked_ok:
  assumes o: "hdrOpen a t" and now: "0 < now" and w: "writeHeaderLocked env now a t = (r, t')"
  shows "srv_ok t' \<and> sv_handled t' = sv_handled t \<and> (r = Ok () \<longrightarrow> sv_obj t' = sv_obj t \<and> sent a t' = [TagHeader])"
proof -
  let ?hdr = "CbHeader (header_frame (s_id (sv_obj t a)) (response_fields (s_contentSubtype (sv_obj t a))
    (FindCompressorName (v_registered env) (s_sendCompress (sv_obj t a))) (s_header (sv_obj t a))) False)"
  let ?ok = "checkForHeaderListSize (sv_maxSendHeaderListSize t) ?hdr"
  have a: "a \<in> set (sv_handled t)" using o by (simp add: hdrOpen_def resp_but_def)
  consider "\<not> accepts t" | "accepts t" "\<not> ?ok" | "accepts t" "?ok" by blast
  then show ?thesis
  proof cases
    case 1
    then show ?thesis using w hdrOpen_ok[OF o] by (auto simp: writeHeaderLocked_def bindP_def sv_executeAndPut_cases)
  next
    case 2
    then have "t' = closeStream now a HeaderListSizeViolation True 2 t" "r \<noteq> Ok ()"
      using w by (auto simp: writeHeaderLocked_def bindP_def sv_executeAndPut_cases)
    moreover have "hdrOpen a (closeStream now a HeaderListSizeViolation True 2 t)"
      using now by (intro hdrOpen_safe[OF o] safes) simp_all
    ultimately show ?thesis using hdrOpen_ok closeStream_done closeStream_handled by metis
  next
    case 3
    then have t': "t' = sv_put ?hdr t" using w by (simp add: writeHeaderLocked_def bindP_def sv_executeAndPut_cases Let_def)
    have s: "sent a t' = [TagHeader]" using o 3 by (simp add: t' hdrOpen_def header_frame_def)
    have "resp_but a t'" unfolding t' using o by (intro resp_but_put) (auto simp: hdrOpen_def header_frame_def)
    moreover have "resp_at t' a" using o s by (simp add: resp_at_def hdrOpen_def t' resp_shape_def)
    ultimately show ?thesis using a s by (simp add: srv_ok_iff t')
  qed
qed

lemma WriteHeader_ok:
  assumes ok: "srv_ok t" and a: "a \<in> set (sv_handled t)" and now: "0 < now" and w: "WriteHeader env now a md t = (r, t')"
  shows "srv_ok t' \<and> sv_handled t' = sv_handled t
    \<and> (r = Ok () \<longrightarrow> s_state (sv_obj t' a) \<noteq> streamDone \<and> s_headerSent (sv_obj t' a))"
proof (cases "s_headerSent (sv_obj t a)")
  case True then show ?thesis using w ok by (auto simp: WriteHeader_def)
next
  case False
  let ?u = "upd_stream a (\<lambda>s. s\<lparr>s_headerSent := True\<rparr>) t"
  let ?v = "if md \<noteq> [] then upd_stream a (\<lambda>s. s\<lparr>s_header := (if s_header s \<noteq> [] then AppendMD (s_header s) md else md)\<rparr>) ?u else ?u"
  have o: "hdrOpen a ?u" by (rule hdrOpenI[OF ok a False])
  show ?thesis
  proof (cases "s_state (sv_obj t a) = streamDone")
    case True
    then show ?thesis using w False hdrOpen_ok[OF o] by (auto simp: WriteHeader_def)
  next
    case nd: False
    have "hdrOpen a ?v" using o hdrOpen_safe[OF o safe_upd[OF safe_refl]] by simp
    moreover have "writeHeaderLocked env now a ?v = (r, t')" using w False nd unfolding WriteHeader_def Let_def by simp
    ultimately have "srv_ok t' \<and> sv_handled t' = sv_handled ?v \<and> (r = Ok () \<longrightarrow> sv_obj t' = sv_obj ?v \<and> sent a t' = [TagHeader])"
      by (rule writeHeaderLocked_ok[OF _ now])
    then show ?thesis using nd by simp
  qed
qed

text \<open>Data follow a header block on a stream that is not done.\<close>

lemma Write_data_ok:
  assumes ok: "srv_ok t" and a: "a \<in> set (sv_handled t)" and s: "s_state (sv_obj t a) \<noteq> streamDone" "s_headerSent (sv_obj t a)"
    and w: "Write_data a hdr data cd t = (r, t')"
  shows "srv_ok t'"
proof -
  let ?u = "upd_stream a (\<lambda>s. s\<lparr>s_wq := get_sub (of_nat (length hdr + length data)) (s_wq s)\<rparr>) t"
  let ?it = "CbData \<lparr>df_streamID = s_id (sv_obj t a), df_endStream = False, df_h = hdr, df_d = data\<rparr>"
  have u: "srv_ok ?u" by (rule safe_ok[OF _ ok]) (intro safes; simp)
  have "srv_ok (sv_put ?it ?u)"
  proof -
    have b: "resp_but a ?u" "resp_at ?u a" using u a by (simp_all add: srv_ok_iff[of a])
    have "resp_but a (sv_put ?it ?u)" by (rule resp_but_put[OF b(1)]) auto
    moreover have "resp_at (sv_put ?it ?u) a"
    proof (cases "accepts t")
      case True
      obtain n where n: "sent a t = TagHeader # replicate n TagData"
        using b(2) s True by (auto simp: resp_at_def resp_shape_def Let_def)
      then have "sent a (sv_put ?it ?u) = TagHeader # replicate (Suc n) TagData"
        using True by (simp add: replicate_append_same)
      then show ?thesis using s by (auto simp: resp_at_def resp_shape_def Let_def simp del: replicate_Suc)
    next
      case False then show ?thesis using b(2) by (simp add: resp_at_def)
    qed
    ultimately show ?thesis using a by (simp add: srv_ok_iff[of a])
  qed
  then show ?thesis using w ok u by (auto simp: Write_data_def Let_def split: if_splits prod.splits res.splits)
qed

lemma Write_ok:
  assumes ok: "srv_ok t" and a: "a \<in> set (sv_handled t)" and now: "0 < now" and w: "Write env now a hdr data cd t = (r, t')"
  shows "srv_ok t'"
proof (cases "s_headerSent (sv_obj t a)")
  case True
  then show ?thesis using w ok Write_data_ok[OF ok a] by (auto simp: Write_def split: if_splits)
next
  case False
  obtain x u where u: "WriteHeader env now a [] t = (x, u)" by (cases "WriteHeader env now a [] t")
  note h = WriteHeader_ok[OF ok a now u]
  then show ?thesis using w False u a Write_data_ok[of u a hdr data cd r t'] by (cases x) (auto simp: Write_def bindP_def)
qed

text \<open>A stream that is ready for its trailer: whatever was sent, it is not finished.\<close>

definition ready :: "nat \<Rightarrow> 'f http2Server \<Rightarrow> bool" where
  "ready a t \<longleftrightarrow> resp_but a t \<and> s_headerSent (sv_obj t a) \<and> resp_shape False (sent a t)"

lemma ready_handled: "ready a t \<Longrightarrow> a \<in> set (sv_handled t)"
  by (simp add: ready_def resp_but_def)

lemma readyI: "hdrOpen a t \<Longrightarrow> ready a t"
  by (simp add: ready_def hdrOpen_def resp_shape_def)

lemma ready_ok: "srv_ok t \<Longrightarrow> a \<in> set (sv_handled t) \<Longrightarrow> s_headerSent (sv_obj t a) \<Longrightarrow> s_state (sv_obj t a) \<noteq> streamDone \<Longrightarrow> ready a t"
  by (simp add: ready_def srv_ok_iff[of a] resp_at_def Let_def)

lemma ok_ready: "ready a t \<Longrightarrow> s_state (sv_obj t a) = streamDone \<or> \<not> accepts t \<Longrightarrow> srv_ok t"
  using ready_handled[of a t] resp_shape_mono[of False "sent a t" "s_state (sv_obj t a) = streamDone"]
  by (auto simp: ready_def srv_ok_iff[of a] resp_at_def Let_def)

lemma ready_closeStream: "ready a t \<Longrightarrow> 0 < now \<Longrightarrow> srv_ok (closeStream now a r rst code t)"
proof (rule ok_ready[of a])
  assume r: "ready a t" and "0 < now"
  then have "safe t (closeStream now a r rst code t)" by (intro safes) simp_all
  then show "ready a (closeStream now a r rst code t)"
    using r resp_but_safe[of a t] unfolding ready_def by (auto simp: safe_def quiet_def)
qed (simp add: closeStream_done)

lemma ready_finishStream:
  assumes r: "ready a t" and h: "hf_streamID hdr = s_id (sv_obj t a)" "hf_endStream hdr" and s: "s_state (sv_obj t a) \<noteq> streamDone"
  shows "srv_ok (finishStream a rst code hdr t)"
proof -
  let ?u = "upd_stream a (cancel BizHandlerReturn) (upd_stream a (\<lambda>s. s\<lparr>s_state := streamDone\<rparr>) t)"
  let ?hdr = "CbHeader (hdr\<lparr>hf_cleanup := Some \<lparr>cs_streamID = s_id (sv_obj ?u a), cs_rst = rst, cs_rstCode = code\<rparr>\<rparr>)"
  have b: "resp_but a ?u" using r unfolding ready_def by (intro resp_but_upd) simp_all
  have f: "finishStream a rst code hdr t = sv_put ?hdr ?u" using s by (simp add: finishStream_def Let_def)
  have "resp_but a (sv_put ?hdr ?u)" by (rule resp_but_put[OF b]) (use h in auto)
  moreover have "resp_at (sv_put ?hdr ?u) a"
    using r h unfolding ready_def resp_at_def Let_def by (auto simp: resp_shape_def)
  ultimately show ?thesis unfolding f using ready_handled[OF r] by (simp add: srv_ok_iff[of a])
qed

lemma status_header_ok:
  assumes ok: "srv_ok t" and a: "a \<in> set (sv_handled t)" and now: "0 < now" and s: "s_state (sv_obj t a) \<noteq> streamDone"
    and w: "status_header env now a t = (r, t')"
  shows "(case r of Ok _ \<Rightarrow> ready a t' \<and> s_state (sv_obj t' a) \<noteq> streamDone | _ \<Rightarrow> srv_ok t')"
proof (cases "s_headerSent (sv_obj t a)")
  case True
  have "(sv_obj t a)\<lparr>s_headerSent := True\<rparr> = sv_obj t a" using True by (intro svStream.equality) simp_all
  then have "upd_stream a (\<lambda>s. s\<lparr>s_headerSent := True\<rparr>) t = t" by (simp add: upd_stream_def)
  then have "r = Ok False" "t' = t" using w True by (simp_all add: status_header_def)
  then show ?thesis using ready_ok[OF ok a True s] s by simp
next
  case False
  let ?u = "upd_stream a (\<lambda>s. s\<lparr>s_headerSent := True\<rparr>) t"
  have o: "hdrOpen a ?u" by (rule hdrOpenI[OF ok a False])
  show ?thesis
  proof (cases "s_header (sv_obj t a) = []")
    case True
    then have "r = Ok True" "t' = ?u" using w False by (simp_all add: status_header_def)
    then show ?thesis using readyI[OF o] s by simp
  next
    case ne: False
    obtain x v where v: "writeHeaderLocked env now a ?u = (x, v)" by (cases "writeHeaderLocked env now a ?u")
    note h = writeHeaderLocked_ok[OF o now v]
    show ?thesis using w False ne v h s a ready_ok[of v a]
      by (cases x) (auto simp: status_header_def Let_def bindP_def)
  qed
qed

lemma WriteStatus_ok:
  assumes ok: "srv_ok t" and a: "a \<in> set (sv_handled t)" and now: "0 < now" and w: "WriteStatus env now a st t = (r, t')"
  shows "srv_ok t'"
proof (cases "s_state (sv_obj t a) = streamDone")
  case True then show ?thesis using w ok by (simp add: WriteStatus_def)
next
  case nd: False
  obtain x u where u: "status_header env now a t = (x, u)" by (cases "status_header env now a t")
  note h = status_header_ok[OF ok a now nd u]
  show ?thesis
  proof (cases x)
    case (Ok tonly)
    let ?hdr = "header_frame (s_id (sv_obj u a)) (trailer_fields (v_henv env) tonly (s_contentSubtype (sv_obj u a)) st
      (s_biz (sv_obj u a)) (s_trailer (sv_obj u a))) True"
    have r: "ready a u" and s: "s_state (sv_obj u a) \<noteq> streamDone" using h Ok by simp_all
    have "srv_ok (finishStream a b 0 ?hdr u)" for b by (rule ready_finishStream[OF r _ _ s]) (simp_all add: header_frame_def)
    moreover have "srv_ok u" if "\<not> accepts u" using ok_ready[OF r] that by simp
    ultimately show ?thesis using w nd u Ok ready_closeStream[OF r now]
      by (auto simp: WriteStatus_def bindP_def Let_def cb_execute_def accepts_def split: option.splits if_splits)
  qed (use w nd u h in \<open>auto simp: WriteStatus_def bindP_def\<close>)
qed

section \<open>Every reachable transport\<close>

lemma done_with_Ok: "done_with r = (Ok (), t') \<Longrightarrow> snd r = t'"
  by (cases r; cases "fst r") (auto simp: done_with_def)

lemma safe_handleReadErr:
  assumes "safe t u" "0 < now"
  shows "safe t (snd (handleReadErr now e eof u))"
proof -
  have c: "safe t (snd (case closeWithErr x u of (Panic, t) \<Rightarrow> (Panic, t) | (_, t) \<Rightarrow> (Ok False :: (reason, bool) res, t)))" for x
    using safe_closeWithErr[OF assms(1), of x] by (cases "closeWithErr x u"; cases "fst (closeWithErr x u)") simp_all
  show ?thesis
  proof (cases e)
    case (StreamError sid code)
    then show ?thesis using assms by (cases "getStream sid u") (simp_all add: handleReadErr_def safes)
  qed (simp_all only: handleReadErr_def h2err.case c)
qed

lemma handleFrame_ok:
  assumes ok: "srv_ok t" and now: "0 < now"
  shows "srv_ok (snd (handleFrame env now f t))"
proof (cases f)
  case (MetaHeadersFrame fh x fs tr)
  obtain r u where u: "operateHeaders env (fh_StreamID fh) (Has (fh_Flags fh) FlagEndStream) fs tr t = (r, u)"
    by (cases "operateHeaders env (fh_StreamID fh) (Has (fh_Flags fh) FlagEndStream) fs tr t")
  have o: "srv_ok u" using srv_ok_operateHeaders[OF ok] u by (metis snd_conv)
  have "srv_ok v" if "closeWithErr e u = (y, v)" for e y v
    using safe_ok[OF safe_closeWithErr[OF safe_refl] o, of e] that by simp
  then show ?thesis using o by (cases r) (auto simp: MetaHeadersFrame handleFrame_def u split: prod.splits res.splits)
qed (auto simp: handleFrame_def now intro!: safe_ok[OF _ ok] safes)

lemma HandleStreams_turn_ok:
  assumes ok: "srv_ok t" and "0 < now"
  shows "srv_ok (snd (HandleStreams_turn env now r t))"
proof -
  have o: "srv_ok (t\<lparr>sv_lastRead := now\<rparr>)" by (rule safe_ok[OF _ ok]) (intro safes; simp)
  show ?thesis
  proof (cases r)
    case (Inl f)
    then show ?thesis using handleFrame_ok[OF o assms(2), of env f]
      by (auto simp: HandleStreams_turn_def bindP_def Let_def split: prod.splits res.splits)
  next
    case (Inr p)
    then show ?thesis using safe_ok[OF safe_handleReadErr[OF safe_refl assms(2)] o, of "fst p" "snd p"]
      by (cases p) (simp add: HandleStreams_turn_def)
  qed
qed

lemma sv_exec_ok:
  assumes ok: "srv_ok t" and now: "0 < now" and can: "sv_can ev t" and ex: "sv_exec env now ev t = (Ok (), t')"
  shows "srv_ok t'"
proof -
  have s: "srv_ok u" if "safe t u" for u by (rule safe_ok[OF that ok])
  have d: "srv_ok t'" if "done_with r = (Ok (), t')" "srv_ok (snd r)" for r :: "('x, 'y) res \<times> 'a http2Server"
    using done_with_Ok[OF that(1)] that(2) by simp
  show ?thesis
  proof (cases ev)
    case (Recv r)
    then show ?thesis using ex HandleStreams_turn_ok[OF ok now, of env r] by (intro d) (simp_all add: sv_exec_def)
  next
    case (AppWriteHeader a md)
    then show ?thesis using ex can WriteHeader_ok[OF ok _ now prod.collapse[symmetric], THEN conjunct1, of a env md]
      by (intro d) (simp_all add: sv_exec_def)
  next
    case (AppWrite a h dt cd)
    then show ?thesis using ex can Write_ok[OF ok _ now prod.collapse[symmetric], of a env h dt cd]
      by (intro d) (simp_all add: sv_exec_def)
  next
    case (AppWriteStatus a st)
    then show ?thesis using ex can WriteStatus_ok[OF ok _ now prod.collapse[symmetric], of a env st]
      by (intro d) (simp_all add: sv_exec_def)
  next
    case (AppSetHeader a md)
    then show ?thesis using ex by (intro d s) (auto simp: sv_exec_def SetHeader_def intro!: s safes)
  next
    case (AppSetTrailer a md)
    then show ?thesis using ex by (intro d s) (auto simp: sv_exec_def SetTrailer_def intro!: s safes)
  next
    case (WriterGet b)
    then show ?thesis using ex by (auto simp: sv_exec_def split: prod.splits res.splits intro!: s safes)
  next
    case WriterGone
    then show ?thesis using ex can safe_sv_finish[OF safe_refl, of t GracefulShutdown]
      by (intro d s) (simp_all add: sv_exec_def closeLoopyWriter_def)
  next
    case GraceTimer
    then show ?thesis using ex by (intro d s) (auto simp: sv_exec_def intro!: safes)
  next
    case (KpTimer p k)
    then show ?thesis using ex by (intro d s) (auto simp: sv_exec_def intro!: safes)
  qed (use ex now in \<open>auto simp: sv_exec_def intro!: s safes\<close>)
qed

lemma reach_ok: "sv_reach env t \<Longrightarrow> srv_ok t"
proof (induction rule: sv_reach.induct)
  case (Start now g est)
  then show ?case by (simp add: srv_ok_def srv_wf_new resp_inv_def) (simp add: newHTTP2Server_def Let_def)
next
  case (Step t now ev t')
  then show ?case using sv_exec_ok by blast
qed

end
