(* ===== verification/Http2ServerProps.thy ===== *)
theory Http2ServerProps
  imports Http2ServerInv GrpcSafety
begin

text \<open>
  The properties of the server transport: its tables stay well-formed, every response has the shape HTTP/2 asks for,
  a run panics for one reason only, and data frames reach the reader or end the stream.
\<close>

section \<open>Which steps panic\<close>

lemma decodeHeader_no_panic: "fst (decodeHeader env tr fs d) \<noteq> Panic"
  by (auto simp: decodeHeader_def Let_def split: option.splits)

lemma closeWithErr_no_panic: "srv_wf t \<Longrightarrow> fst (closeWithErr r t) \<noteq> Panic"
  using srv_wfD(9)[of t]
  by (auto simp: closeWithErr_def Let_def bindP_def sv_finish_def split: prod.splits if_splits)

lemma closeWithErr_not_Panic: "srv_wf t \<Longrightarrow> closeWithErr r t = (Panic, u) \<longleftrightarrow> False"
  using closeWithErr_no_panic[of t r] by auto

lemma close_no_panic:
  assumes "srv_wf t"
  shows "fst (case closeWithErr r t of (Panic, t) \<Rightarrow> (Panic, t) | (_, t) \<Rightarrow> (Ok x, t)) \<noteq> Panic"
  using closeWithErr_no_panic[OF assms, of r] by (cases "closeWithErr r t"; cases "fst (closeWithErr r t)") simp_all

lemma operateHeaders_no_panic:
  assumes "srv_wf t"
  shows "fst (operateHeaders env sid ended fs tr t) \<noteq> Panic"
proof -
  obtain r d where d: "decodeHeader (v_henv env) tr fs (newDecodeState True False) = (r, d)"
    by (cases "decodeHeader (v_henv env) tr fs (newDecodeState True False)")
  then have "r \<noteq> Panic" using decodeHeader_no_panic[of "v_henv env" tr fs] by (metis fst_conv)
  then show ?thesis using srv_wfD(1)[OF assms] d
    by (cases r) (auto simp: operateHeaders_def Let_def split: option.splits)
qed

lemma writeHeaderLocked_no_panic: "fst (writeHeaderLocked env now a t) \<noteq> Panic"
  by (simp add: writeHeaderLocked_def Let_def bindP_def sv_executeAndPut_cases)

lemma WriteHeader_no_panic: "fst (WriteHeader env now a md t) \<noteq> Panic"
  using writeHeaderLocked_no_panic by (auto simp: WriteHeader_def Let_def)

lemma Write_no_panic: "fst (Write env now a h d cd t) \<noteq> Panic"
  using WriteHeader_no_panic[of env now a "[]" t]
  by (auto simp: Write_def Write_data_def Let_def bindP_def split: prod.splits res.splits)

lemma WriteStatus_no_panic: "fst (WriteStatus env now a st t) \<noteq> Panic"
proof -
  have "fst (status_header env now a t) \<noteq> Panic"
    using writeHeaderLocked_no_panic[of env now a "upd_stream a (\<lambda>s. s\<lparr>s_headerSent := True\<rparr>) t"]
    by (auto simp: status_header_def Let_def bindP_def split: prod.splits res.splits)
  then show ?thesis
    by (auto simp: WriteStatus_def Let_def bindP_def cb_execute_def split: prod.splits res.splits option.splits)
qed

lemma ForeachSetting_no_panic:
  "6 * (i + k) \<le> length p \<Longrightarrow> fst (ForeachSetting k p i collect_setting st) \<noteq> Panic"
proof (induction k arbitrary: i st)
  case (Suc k)
  obtain x where x: "Setting p i = Ok x" using Setting_ok[of i p] Suc.prems by auto
  have "\<exists>st'. collect_setting x st = (Ok (), st')" by (simp add: collect_setting_def)
  then obtain st' where "collect_setting x st = (Ok (), st')" by blast
  then show ?case using Suc.IH[of "Suc i" st'] Suc.prems x by (simp add: bindP_def)
qed simp

lemma handleSettings_no_panic: "fst (handleSettings fh p t) \<noteq> Panic"
  using ForeachSetting_no_panic[of 0 "NumSettings p" p "(None, [])"]
  by (auto simp: handleSettings_def NumSettings_def Let_def split: prod.splits res.splits)

lemma handlePing_panics: "srv_wf t \<Longrightarrow> fst (handlePing env now ack data t) = Panic \<longleftrightarrow> ack \<and> data = goAwayPing_data \<and> \<not> sv_drainChan t"
  using srv_wfD(8)[of t] by (auto simp: handlePing_def Let_def)

definition bad_ping :: "frame + (h2err \<times> bool) \<Rightarrow> bool" where
  "bad_ping r \<longleftrightarrow> (\<exists>fh. r = Inl (PingFrame fh goAwayPing_data) \<and> Has (fh_Flags fh) FlagAck)"

lemma handleFrame_panics:
  assumes "srv_wf t"
  shows "fst (handleFrame env now f t) = Panic \<longleftrightarrow> bad_ping (Inl f) \<and> \<not> sv_drainChan t"
proof (cases f)
  case (MetaHeadersFrame fh x fs tr)
  obtain r u where u: "operateHeaders env (fh_StreamID fh) (Has (fh_Flags fh) FlagEndStream) fs tr t = (r, u)"
    by (cases "operateHeaders env (fh_StreamID fh) (Has (fh_Flags fh) FlagEndStream) fs tr t")
  have "r \<noteq> Panic" using operateHeaders_no_panic[OF assms] u by (metis fst_conv)
  moreover have "u = t" if "r = Err e" for e
    using u that by (auto simp: operateHeaders_def Let_def split: prod.splits res.splits if_splits option.splits)
  ultimately show ?thesis
    by (cases r) (auto simp: MetaHeadersFrame handleFrame_def bad_ping_def u closeWithErr_not_Panic[OF assms] split: prod.splits res.splits)
next
  case (PingFrame fh data)
  then show ?thesis using handlePing_panics[OF assms] by (auto simp: handleFrame_def bad_ping_def)
qed (use handleSettings_no_panic in \<open>auto simp: handleFrame_def bad_ping_def\<close>)

lemma turn_panics:
  assumes "srv_wf t"
  shows "fst (HandleStreams_turn env now r t) = Panic \<longleftrightarrow> bad_ping r \<and> \<not> sv_drainChan t"
proof -
  have wf: "srv_wf (t\<lparr>sv_lastRead := now\<rparr>)" by (rule srv_wf_cong[of _ t]) (simp_all add: assms)
  show ?thesis
  proof (cases r)
    case (Inl f)
    then show ?thesis using handleFrame_panics[OF wf, of env now f]
      by (auto simp: HandleStreams_turn_def Let_def bindP_def split: prod.splits res.splits)
  next
    case (Inr p)
    obtain e eof where p: "p = (e, eof)" by (cases p)
    have "fst (handleReadErr now e eof (t\<lparr>sv_lastRead := now\<rparr>)) \<noteq> Panic"
    proof (cases e)
      case (StreamError sid c) then show ?thesis by (simp add: handleReadErr_def split: option.split)
    qed (simp_all only: handleReadErr_def h2err.case close_no_panic[OF wf] not_False_eq_True)
    then show ?thesis using Inr p by (auto simp: HandleStreams_turn_def Let_def bad_ping_def)
  qed
qed

lemma done_with_Panic: "fst (done_with r) = Panic \<longleftrightarrow> fst r = Panic"
  by (cases r; cases "fst r") (auto simp: done_with_def)

lemma timers_no_panic:
  assumes "srv_wf t"
  shows "fst (grace_fired t) \<noteq> Panic" "fst (kp_fired p now k t) \<noteq> Panic"
  by (auto simp: grace_fired_def kp_fired_def Let_def closeWithErr_not_Panic[OF assms] split: prod.split res.split)

text \<open>Greeting a client is a step of the reading loop: a good greeting takes the settings frame, a bad one closes the transport.\<close>

lemma greeting_is_turn:
  assumes "server_greeting now pre fr t = (Ok (), t')"
  shows "\<exists>fh p. pre = Inl ClientPreface \<and> fr = Inl (SettingsFrame fh p)
    \<and> snd (HandleStreams_turn env now (Inl (SettingsFrame fh p)) t) = t'"
proof -
  have "check_greeting now pre fr t = (Ok (), t')" using assms
    by (cases "check_greeting now pre fr t"; cases "fst (check_greeting now pre fr t)")
      (auto simp: server_greeting_def split: prod.splits res.splits)
  then show ?thesis
    by (auto simp: check_greeting_def HandleStreams_turn_def handleFrame_def bindP_def Let_def
        split: sum.splits if_splits frame.splits prod.splits res.splits)
qed

lemma bad_greeting_closes:
  assumes "server_greeting now pre fr t = (Err e, t')" "sv_state t \<noteq> closing" "\<not> sv_done t"
  shows "sv_state t' = closing \<and> sv_connClosed t' \<and> \<not> accepts t'"
proof -
  obtain u where u: "check_greeting now pre fr t = (Err e, u)"
    using assms(1) by (cases "check_greeting now pre fr t"; cases "fst (check_greeting now pre fr t)")
      (auto simp: server_greeting_def split: prod.splits res.splits)
  then have s: "sv_state u \<noteq> closing" "\<not> sv_done u" using assms(2,3)
    by (auto simp: check_greeting_def Let_def split: sum.splits if_splits frame.splits prod.splits res.splits)
  have c: "sv_state (cancel_all r as v) = sv_state v \<and> sv_connClosed (cancel_all r as v) = sv_connClosed v
    \<and> sv_ctl (cancel_all r as v) = sv_ctl v" for r as and v :: "'a http2Server"
    unfolding cancel_all_def by (induction as arbitrary: v) (simp_all add: upd_stream_def accepts_def)
  have "snd (closeWithErr r u) = t' \<Longrightarrow> ?thesis" for r
    using s by (auto simp: closeWithErr_def sv_finish_def Let_def bindP_def c accepts_def cb_finish_def split: prod.splits option.splits)
  moreover have "snd (closeWithErr (if e = PrefaceEOF then ConnectionEOF else GreetingFailed) u) = t'"
    using assms(1) u by (auto simp: server_greeting_def split: prod.splits res.splits simp del: if_split)
  ultimately show ?thesis by blast
qed

section \<open>A run to look at\<close>

fun sv_run :: "('f, 'd) senv \<Rightarrow> (int \<times> 'd sv_event) list \<Rightarrow> 'f http2Server \<Rightarrow> 'f http2Server option" where
  "sv_run env [] t = Some t"
| "sv_run env ((now, ev) # evs) t =
     (if 0 < now \<and> sv_can ev t then (case sv_exec env now ev t of (Ok _, t') \<Rightarrow> sv_run env evs t' | _ \<Rightarrow> None) else None)"

lemma sv_run_reach: "sv_reach env t \<Longrightarrow> sv_run env evs t = Some t' \<Longrightarrow> sv_reach env t'"
proof (induction env evs t rule: sv_run.induct)
  case (2 env now ev evs t)
  then show ?case by (cases "sv_exec env now ev t") (auto split: if_splits res.splits intro: sv_reach.Step)
qed simp

definition demo_floats :: "unit float_ops" where
  "demo_floats = \<lparr>f_of_u32 = (\<lambda>_. ()), f_of_u64 = (\<lambda>_. ()), f_sub = (\<lambda>_ _. ()), f_add = (\<lambda>_ _. ()), f_mul = (\<lambda>_ _. ()),
     f_div = (\<lambda>_ _. ()), f_gt = (\<lambda>_ _. False), f_ge = (\<lambda>_ _. False), f_eq = (\<lambda>_ _. True), f_to_u32 = (\<lambda>_. 0),
     f_alpha = (), f_beta = (), f_gamma = (), f_1_5 = ()\<rparr>"

definition demo_senv :: "(unit, unit) senv" where
  "demo_senv = \<lparr>v_henv = \<lparr>e_unmarshal = (\<lambda>_. None), e_marshal = (\<lambda>_. None), e_json = (\<lambda>_. None), e_uni = (\<lambda>s. s)\<rparr>,
     v_F = demo_floats, v_secs = (\<lambda>_. ()), v_registered = [bytes_of ''gzip'']\<rparr>"

definition demo_config :: serverConfig where
  "demo_config = \<lparr>g_MaxStreams = 0, g_InitialWindowSize = 0, g_InitialConnWindowSize = 0, g_MaxHeaderListSize = None,
     g_MinTime = 0, g_PermitWithoutStream = False\<rparr>"

definition demo_bdp :: "unit bdpEstimator" where
  "demo_bdp = \<lparr>sentAt = 0, bdp = 0, sample = 0, bwMax = (), isSent = False, sampleCount = 0, rtt = ()\<rparr>"

definition demo_server :: "unit http2Server" where
  "demo_server = newHTTP2Server demo_config 1 demo_bdp"

definition demo_fh :: "byte \<Rightarrow> byte \<Rightarrow> u32 \<Rightarrow> u32 \<Rightarrow> frame_header" where
  "demo_fh ty fl len sid = \<lparr>fh_Type = ty, fh_Flags = fl, fh_Length = len, fh_StreamID = sid\<rparr>"

definition demo_headers :: "u32 \<Rightarrow> unit sv_event" where
  "demo_headers sid = Recv (Inl (MetaHeadersFrame (demo_fh 1 4 10 sid) \<lparr>StreamDep = 0, Exclusive = False, Weight = 0\<rparr>
     [(bytes_of ''content-type'', bytes_of ''application/grpc'')] False))"

definition demo_calls :: "(int \<times> unit sv_event) list" where
  "demo_calls = [(2, demo_headers 1), (3, demo_headers 3), (4, AppWrite 0 [0, 0, 0, 0, 1] [7] False), (5, AppWrite 0 [0, 0, 0, 0, 0] [] False),
     (6, AppWriteStatus 0 (Status 0 [] [])), (7, AppWriteStatus 1 (Status 5 [] []))]"

lemma demo_start: "sv_reach demo_senv demo_server"
  unfolding demo_server_def by (rule sv_reach.Start) simp

text \<open>C2. In every reachable state of a server transport - whatever the interleaving of frames, application calls, the
  writer and timers - the tables are well-formed: the map of active streams is nil exactly when the transport is
  closing; otherwise it maps each id to a stream with that id, injectively, never holds more streams than the limit, and
  the connection counts as idle exactly when the map is empty. Ids of streams given to the application are odd and
  strictly increasing, bounded by the largest id seen, and the control buffer is shut down or holds a queue.\<close>

theorem server_state_well_formed:
  assumes "sv_reach env t"
  shows "srv_wf t"
  using reach_ok[OF assms] by (simp add: srv_ok_def)

theorem server_state_well_formed_witness:
  "\<exists>t. sv_run demo_senv (take 2 demo_calls) demo_server = Some t \<and> srv_wf t \<and> active t = [(3, 1), (1, 0)]"
proof -
  have "case sv_run demo_senv (take 2 demo_calls) demo_server of Some t \<Rightarrow> active t = [(3, 1), (1, 0)] | None \<Rightarrow> False" by code_simp
  then obtain t where t: "sv_run demo_senv (take 2 demo_calls) demo_server = Some t" "active t = [(3, 1), (1, 0)]"
    by (auto split: option.splits)
  from server_state_well_formed[OF sv_run_reach[OF demo_start t(1)]] t show ?thesis by blast
qed



text \<open>C8. The only step that panics a server transport, in any interleaving of frames, application calls, turns of the writer
  and timers, is a PING acknowledgement that carries the data of the shutdown ping before the transport began to
  drain; and that step panics in every state.\<close>

theorem server_panics_iff:
  assumes "sv_reach env t" "sv_can ev t"
  shows "fst (sv_exec env now ev t) = Panic \<longleftrightarrow>
    (\<exists>fh. ev = Recv (Inl (PingFrame fh goAwayPing_data)) \<and> Has (fh_Flags fh) FlagAck) \<and> \<not> sv_drainChan t"
proof -
  have wf: "srv_wf t" using reach_ok[OF assms(1)] by (simp add: srv_ok_def)
  have fin: "fst (closeLoopyWriter t) \<noteq> Panic" if "\<not> sv_done t"
    using that by (auto simp: closeLoopyWriter_def sv_finish_def Let_def split: prod.splits)
  have get: "fst (case cb_get b (sv_ctl t) of (Panic, c) \<Rightarrow> (Panic, t\<lparr>sv_ctl := c\<rparr>) | (_, c) \<Rightarrow> (Ok (), t\<lparr>sv_ctl := c\<rparr>)) \<noteq> Panic" for b
    using cb_ok_get[OF srv_wfD(14)[OF wf]] by (auto split: prod.splits res.splits)
  show ?thesis
  proof (cases ev)
    case (Recv r)
    then show ?thesis using turn_panics[OF wf] by (auto simp: sv_exec_def done_with_Panic bad_ping_def)
  next
    case (WriterGet b) then show ?thesis using get[of b] by (simp add: sv_exec_def)
  qed (use assms(2) fin in \<open>auto simp: sv_exec_def done_with_Panic SetHeader_def SetTrailer_def timers_no_panic[OF wf]
      WriteHeader_no_panic Write_no_panic WriteStatus_no_panic\<close>)
qed

theorem server_panics_iff_witness:
  "let ping = Recv (Inl (PingFrame (demo_fh 6 1 8 0) goAwayPing_data)) in
     fst (sv_exec demo_senv 2 ping demo_server) = Panic
     \<and> (\<exists>t. sv_run demo_senv [(2, AppDrain)] demo_server = Some t \<and> fst (sv_exec demo_senv 3 ping t) \<noteq> Panic)"
proof -
  let ?ping = "Recv (Inl (PingFrame (demo_fh 6 1 8 0) goAwayPing_data)) :: unit sv_event"
  have ack: "Has (fh_Flags (demo_fh 6 1 8 0)) FlagAck" and no: "\<not> sv_drainChan demo_server" by code_simp+
  have "case sv_run demo_senv [(2, AppDrain)] demo_server of Some t \<Rightarrow> sv_drainChan t | None \<Rightarrow> False" by code_simp
  then obtain t where t: "sv_run demo_senv [(2, AppDrain)] demo_server = Some t" "sv_drainChan t" by (auto split: option.splits)
  from server_panics_iff[OF demo_start, of ?ping 2] server_panics_iff[OF sv_run_reach[OF demo_start t(1)], of ?ping 3] ack no t
  show ?thesis by (simp add: Let_def)
qed

section \<open>Data frames\<close>

lemma accepts_upd [simp]:
  "accepts (t\<lparr>sv_fc := x\<rparr>) = accepts t" "accepts (t\<lparr>sv_bdpEst := y\<rparr>) = accepts t" "accepts (t\<lparr>sv_lastRead := z\<rparr>) = accepts t"
  by (simp_all add: accepts_def)

lemma conn_window_sel [simp]:
  "sv_obj (conn_window b n t) = sv_obj t" "sv_active (conn_window b n t) = sv_active t" "accepts (conn_window b n t) = accepts t"
  by (simp_all add: conn_window_def Let_def)

lemma bdp_on_data_sel [simp]:
  "sv_obj (snd (bdp_on_data now n t)) = sv_obj t" "sv_active (snd (bdp_on_data now n t)) = sv_active t"
  "accepts (snd (bdp_on_data now n t)) = accepts t"
  by (simp_all add: bdp_on_data_def split: option.split prod.split)

lemma updateWindow_sel [simp]:
  "sv_active (updateWindow a n t) = sv_active t" "s_buf (sv_obj (updateWindow a n t) b) = s_buf (sv_obj t b)"
  "b \<noteq> a \<Longrightarrow> sv_obj (updateWindow a n t) b = sv_obj t b"
  by (simp_all add: updateWindow_def Let_def split: prod.split)

lemma getStream_active: "sv_active t' = sv_active t \<Longrightarrow> getStream sid t' = getStream sid t"
  by (simp add: getStream_def)

lemma getStream_delete: "getStream (s_id (sv_obj t a)) (deleteStream now a t) = None"
  by (auto simp: deleteStream_eq Let_def getStream_def active_def map_of_eq_None_iff split: option.splits)

lemma closeStream_effect:
  assumes "accepts t" "s_id (sv_obj t a) = sid"
  shows "s_state (sv_obj (closeStream now a r rst code t) a) = streamDone"
    "getStream sid (closeStream now a r rst code t) = None" "s_buf (sv_obj (closeStream now a r rst code t) a) = s_buf (sv_obj t a)"
    "last (sv_log (closeStream now a r rst code t)) = CbCleanup \<lparr>cs_streamID = sid, cs_rst = rst, cs_rstCode = code\<rparr>"
    "b \<noteq> a \<Longrightarrow> sv_obj (closeStream now a r rst code t) b = sv_obj t b"
proof -
  let ?u = "upd_stream a (\<lambda>s. s\<lparr>s_state := streamDone\<rparr>) (upd_stream a (cancel r) t)"
  have "accepts (deleteStream now a ?u)" using assms(1) by (simp add: deleteStream_eq Let_def accepts_def)
  moreover have "getStream sid (deleteStream now a ?u) = None" using getStream_delete[of ?u a now] assms(2) by simp
  ultimately show "getStream sid (closeStream now a r rst code t) = None"
    "last (sv_log (closeStream now a r rst code t)) = CbCleanup \<lparr>cs_streamID = sid, cs_rst = rst, cs_rstCode = code\<rparr>"
    using assms(2) by (simp_all add: closeStream_def Let_def getStream_def)
qed (simp_all add: closeStream_def Let_def cancel_def)

definition over_window :: "u32 \<Rightarrow> inFlow \<Rightarrow> bool" where
  "over_window n fc \<longleftrightarrow> n > 0 \<and> pendingData fc + n + pendingUpdate fc > fl_limit fc + fl_delta fc"

definition frame_msgs :: "frame_header \<Rightarrow> byte list \<Rightarrow> reason recvMsg list" where
  "frame_msgs fh data = (if fh_Length fh > 0 \<and> data \<noteq> [] then [RData data] else [])
     @ (if Has (fh_Flags fh) FlagEndStream then [RFail EndOfStream] else [])"

lemma stream_data_over:
  assumes "over_window (fh_Length fh) (s_fc (sv_obj t a))"
  shows "\<exists>fc r. stream_data now a fh data t = closeStream now a r True ErrCodeFlowControl (upd_stream a (\<lambda>s. s\<lparr>s_fc := fc\<rparr>) t)"
  using assms unfolding over_window_def by (auto simp: stream_data_def fl_onData_def Let_def)

lemma stream_data_within:
  assumes "\<not> over_window (fh_Length fh) (s_fc (sv_obj t a))"
  shows "sv_active (stream_data now a fh data t) = sv_active t"
    "s_buf (sv_obj (stream_data now a fh data t) a) = fold rb_put (frame_msgs fh data) (s_buf (sv_obj t a))"
    "b \<noteq> a \<Longrightarrow> sv_obj (stream_data now a fh data t) b = sv_obj t b"
  using assms unfolding over_window_def
  by (auto simp: stream_data_def fl_onData_def Let_def sv_write_def frame_msgs_def)

text \<open>C3. A data frame for an active stream either exceeds the stream's window - then the stream is done, gone from the
  table and reset with FLOW_CONTROL_ERROR, and nothing of the frame reaches the reader - or its payload is put into the
  stream's receive buffer, followed by the end of the stream if the frame carries it, and the stream stays active. No
  other stream changes.\<close>

theorem data_frame_delivered_or_reset:
  assumes "sv_reach env t" "getStream (fh_StreamID fh) t = Some a" "accepts t"
  shows "let t' = snd (HandleStreams_turn env now (Inl (DataFrame fh data)) t) in
    (if over_window (fh_Length fh) (s_fc (sv_obj t a))
     then s_state (sv_obj t' a) = streamDone \<and> getStream (fh_StreamID fh) t' = None \<and> s_buf (sv_obj t' a) = s_buf (sv_obj t a)
       \<and> last (sv_log t') = CbCleanup \<lparr>cs_streamID = fh_StreamID fh, cs_rst = True, cs_rstCode = ErrCodeFlowControl\<rparr>
     else getStream (fh_StreamID fh) t' = Some a
       \<and> s_buf (sv_obj t' a) = fold rb_put (frame_msgs fh data) (s_buf (sv_obj t a)))
    \<and> (\<forall>b. b \<noteq> a \<longrightarrow> sv_obj t' b = sv_obj t b)"
proof -
  have wf: "srv_wf t" using reach_ok[OF assms(1)] by (simp add: srv_ok_def)
  have sid: "s_id (sv_obj t a) = fh_StreamID fh" using srv_wfD(4)[OF wf getStream_Some[OF assms(2)]] .
  define u where "u = conn_window (fst (bdp_on_data now (fh_Length fh) (t\<lparr>sv_lastRead := now\<rparr>))) (fh_Length fh)
    (snd (bdp_on_data now (fh_Length fh) (t\<lparr>sv_lastRead := now\<rparr>)))"
  have u: "sv_obj u = sv_obj t" "accepts u" "getStream (fh_StreamID fh) u = Some a"
    using assms(2,3) getStream_active[of u t] by (simp_all add: u_def)
  define t' where "t' = snd (HandleStreams_turn env now (Inl (DataFrame fh data)) t)"
  have t': "t' = stream_data now a fh data u"
    using u(3) by (simp add: t'_def HandleStreams_turn_def handleFrame_def handleData_def bindP_def Let_def case_prod_beta u_def)
  show ?thesis
  proof (cases "over_window (fh_Length fh) (s_fc (sv_obj t a))")
    case True
    obtain fc r where c: "t' = closeStream now a r True ErrCodeFlowControl (upd_stream a (\<lambda>s. s\<lparr>s_fc := fc\<rparr>) u)"
      using stream_data_over[where now = now and data = data, of fh u a] True unfolding t' u(1) by blast
    have "accepts (upd_stream a (\<lambda>s. s\<lparr>s_fc := fc\<rparr>) u)" "s_id (sv_obj (upd_stream a (\<lambda>s. s\<lparr>s_fc := fc\<rparr>) u) a) = fh_StreamID fh"
      using u sid by simp_all
    from closeStream_effect[OF this, where now = now and r = r and rst = True and code = ErrCodeFlowControl, folded c] show ?thesis
      using True u(1) unfolding t'_def[symmetric] by (simp add: Let_def)
  next
    case False
    then show ?thesis using stream_data_within[where now = now and data = data, of fh u a, folded t'] u getStream_active[of t' u]
      unfolding t'_def[symmetric] by (simp add: Let_def)
  qed
qed

definition demo_data_frame :: "u32 \<Rightarrow> byte list \<Rightarrow> frame" where
  "demo_data_frame len bs = DataFrame (demo_fh 0 1 len 1) bs"

theorem data_frame_delivered_or_reset_witness:
  "\<exists>t. sv_run demo_senv (take 2 demo_calls) demo_server = Some t
     \<and> rb_c (s_buf (sv_obj (snd (HandleStreams_turn demo_senv 4 (Inl (demo_data_frame 2 [8, 9])) t)) 0)) = Some (RData [8, 9])
     \<and> getStream 1 (snd (HandleStreams_turn demo_senv 4 (Inl (demo_data_frame 70000 [])) t)) = None"
proof -
  have "case sv_run demo_senv (take 2 demo_calls) demo_server of
      Some t \<Rightarrow> getStream 1 t = Some 0 \<and> accepts t \<and> \<not> over_window 2 (s_fc (sv_obj t 0)) \<and> over_window 70000 (s_fc (sv_obj t 0))
        \<and> rb_c (fold rb_put (frame_msgs (demo_fh 0 1 2 1) [8, 9]) (s_buf (sv_obj t 0))) = Some (RData [8, 9])
    | None \<Rightarrow> False" by code_simp
  then obtain t where t: "sv_run demo_senv (take 2 demo_calls) demo_server = Some t" "getStream 1 t = Some 0" "accepts t"
    "\<not> over_window 2 (s_fc (sv_obj t 0))" "over_window 70000 (s_fc (sv_obj t 0))"
    "rb_c (fold rb_put (frame_msgs (demo_fh 0 1 2 1) [8, 9]) (s_buf (sv_obj t 0))) = Some (RData [8, 9])" by (auto split: option.splits)
  have h: "fh_StreamID (demo_fh 0 1 n 1) = 1" "fh_Length (demo_fh 0 1 n 1) = n" for n by (simp_all add: demo_fh_def)
  note r = data_frame_delivered_or_reset[OF sv_run_reach[OF demo_start t(1)], where a = 0 and now = 4, unfolded Let_def]
  have "rb_c (s_buf (sv_obj (snd (HandleStreams_turn demo_senv 4 (Inl (demo_data_frame 2 [8, 9])) t)) 0)) = Some (RData [8, 9])"
    using r[of "demo_fh 0 1 2 1" "[8, 9]", unfolded h] t(2,3,4,6) by (simp add: demo_data_frame_def)
  moreover have "getStream 1 (snd (HandleStreams_turn demo_senv 4 (Inl (demo_data_frame 70000 [])) t)) = None"
    using r[of "demo_fh 0 1 70000 1" "[]", unfolded h] t(2,3,5) by (simp add: demo_data_frame_def)
  ultimately show ?thesis using t(1) by blast
qed

end
