(* ===== verification/Http2Client.thy ===== *)
theory Http2Client
  imports Http2Server
begin

text \<open>
  The client transport of \<^verbatim>\<open>nphttp2/grpc/http2_client.go\<close>: opening streams under the server's limit on concurrent streams,
  the handlers of the frames a server sends, the calls of the application, GOAWAY, closing, the clean-up of cancelled
  streams and the keepalive goroutine. Streams are objects in a heap. A call of \<^verbatim>\<open>NewStream\<close> that waits for quota is a
  record of its local variables in the state, so that calls interleave with everything else.
\<close>

section \<open>Statuses and errors\<close>

text \<open>
  A \<^verbatim>\<open>status.Status\<close> with the mark of a cascading cancellation; a message the client builds is given by what it says.
  Errors: \<^verbatim>\<open>io.EOF\<close>, a \<^verbatim>\<open>status.Error\<close>, a \<^verbatim>\<open>ConnectionError\<close> with its ignorable flag, or the error the control buffer was closed with.
\<close>

datatype cmsg =
    MsgPeer gostring | MsgText string | MsgFlow u32 u32 | MsgRST u32 | MsgHeader hdrReason | MsgRead "string option" | MsgContext

datatype 'd cstatus = CStatus (cst_code: u32) (cst_msg: cmsg) (cst_details: "'d list") (cst_cascade: bool)

datatype connDesc =
    TransportIsClosing | NoActiveStreams | GoAwayEvenID u32 | GoAwayGrows u32 u32 | GoAwayNoStreams | ReadFailed h2err
  | FirstNotSettings | KeepaliveTimeout | PrefaceFailed

datatype 'd cerr = EOF | StatusE "'d cstatus" | ConnE connDesc bool | BufferE cberr

definition ConnClosing :: "'d cerr" where "ConnClosing = ConnE TransportIsClosing True"

definition code_DeadlineExceeded :: u32 where "code_DeadlineExceeded = 4"

definition new_status :: "u32 \<Rightarrow> cmsg \<Rightarrow> 'd cstatus" where
  "new_status c m = CStatus c m [] False"

definition errStreamDrain :: "'d cerr" where
  "errStreamDrain = StatusE (new_status code_Unavailable (MsgText ''the connection is draining''))"

definition statusGoAway :: "'d cstatus" where
  "statusGoAway = new_status code_Unavailable (MsgText ''the stream is rejected because server is draining the connection'')"

definition errStatusStreamDone :: "'d cerr" where
  "errStatusStreamDone = StatusE (new_status code_Internal (MsgText ''the stream is done''))"

definition errGracefulShutdown :: "'d cerr" where
  "errGracefulShutdown = StatusE (new_status code_Unavailable (MsgText ''graceful shutdown''))"

text \<open>\<^verbatim>\<open>Status.Err\<close> and \<^verbatim>\<open>status.Convert\<close>; \<open>None\<close> is nil.\<close>

definition status_Err :: "'d cstatus option \<Rightarrow> 'd cerr option" where
  "status_Err st = (case st of None \<Rightarrow> None | Some s \<Rightarrow> if cst_code s = 0 then None else Some (StatusE s))"

definition Convert :: "'d cerr option \<Rightarrow> 'd cstatus option" where
  "Convert e =
     (case e of None \<Rightarrow> None
      | Some (StatusE s) \<Rightarrow> Some s
      | Some EOF \<Rightarrow> Some (new_status code_Unknown (MsgText ''EOF''))
      | Some (ConnE _ _) \<Rightarrow> Some (new_status code_Unknown (MsgText ''connection error''))
      | Some (BufferE _) \<Rightarrow> Some (new_status code_Unknown (MsgText ''connection error'')))"

text \<open>The error of a context: the two of the standard library, the reason of a cancelled server stream, or another one.\<close>

datatype 'd ctxErr = CtxDeadline | CtxCanceled | CtxStatus "'d cstatus" | CtxOther

definition WithCascadeCancel :: "'d cstatus \<Rightarrow> 'd cstatus" where
  "WithCascadeCancel s =
     (if cst_code s \<noteq> code_Canceled \<or> cst_cascade s then s else CStatus (cst_code s) (cst_msg s) (cst_details s) True)"

definition statusDeadlineExceeded :: "'d cstatus" where
  "statusDeadlineExceeded = new_status code_DeadlineExceeded (MsgText ''context deadline exceeded'')"

definition statusCanceled :: "'d cstatus" where
  "statusCanceled = new_status code_Canceled (MsgText ''context canceled'')"

definition cascadeContextErr :: "'d ctxErr \<Rightarrow> 'd cerr" where
  "cascadeContextErr e =
     (case e of CtxDeadline \<Rightarrow> StatusE statusDeadlineExceeded | CtxCanceled \<Rightarrow> StatusE statusCanceled
      | CtxStatus s \<Rightarrow> StatusE (WithCascadeCancel s) | CtxOther \<Rightarrow> StatusE (new_status code_Internal MsgContext))"

definition tryMarkAsCascadeCancel :: "'d ctxErr \<Rightarrow> 'd ctxErr" where
  "tryMarkAsCascadeCancel e = (case e of CtxStatus s \<Rightarrow> CtxStatus (WithCascadeCancel s) | _ \<Rightarrow> e)"

definition contextStatusAndErr :: "'d ctxErr \<Rightarrow> 'd cstatus \<times> bool \<times> 'd cerr" where
  "contextStatusAndErr e =
     (case e of CtxDeadline \<Rightarrow> (statusDeadlineExceeded, True, StatusE statusDeadlineExceeded)
      | CtxCanceled \<Rightarrow> (statusCanceled, True, StatusE statusCanceled)
      | CtxStatus s \<Rightarrow> (s, False, StatusE s)
      | CtxOther \<Rightarrow> (new_status code_Internal MsgContext, False, StatusE (new_status code_Internal MsgContext)))"

section \<open>Streams and the transport\<close>

text \<open>
  The fields of \<^verbatim>\<open>Stream\<close> a client uses. \<open>x_done\<close>: the channel \<^verbatim>\<open>done\<close> is closed; \<open>x_writing\<close> is the data frame of a \<^verbatim>\<open>Write\<close>
  that waits for write quota.
\<close>

record 'd clStream =
  x_id :: u32
  x_state :: streamState
  x_fc :: inFlow
  x_buf :: "'d cerr recvBuffer"
  x_wq :: writeQuota
  x_done :: bool
  x_headerChanClosed :: bool
  x_headerValid :: bool
  x_noHeaders :: bool
  x_header :: "gostring \<rightharpoonup> gostring list"
  x_trailer :: "gostring \<rightharpoonup> gostring list"
  x_recvCompress :: gostring
  x_status :: "'d cstatus option"
  x_reuseStatus :: bool
  x_biz :: "'d bizErr option"
  x_closeStreamErr :: "'d cerr option"
  x_bytesReceived :: bool
  x_unprocessed :: bool
  x_method :: gostring
  x_sendCompress :: gostring
  x_contentSubtype :: gostring
  x_writing :: "dataFrame option"

text \<open>
  The local variables of a call of \<^verbatim>\<open>NewStream\<close>: its stream, the header fields, \<^verbatim>\<open>firstTry\<close>, the channel \<^verbatim>\<open>ch\<close> (by its number),
  and whether the call is about to try or waits.
\<close>

record ncall =
  n_stream :: nat
  n_fields :: "(gostring \<times> gostring) list"
  n_first :: bool
  n_ch :: "nat option"
  n_awake :: bool

datatype goAwayReason = GoAwayInvalid | GoAwayNoReason | GoAwayTooManyPings

datatype 'd callback = OnGoAway goAwayReason | OnClose "'d cerr"

text \<open>
  \<open>cl_gen\<close> numbers the channel \<^verbatim>\<open>streamsQuotaAvailable\<close>, \<open>cl_token\<close> tells whether it holds a token; channels with a smaller
  number are closed. \<open>cl_log\<close> records the items the control buffer accepted, \<open>cl_opened\<close> the streams \<^verbatim>\<open>NewStream\<close> returned,
  \<open>cl_ids\<close> the stream ids handed out.
\<close>

record ('f, 'd) http2Client =
  cl_ctl :: controlBuffer
  cl_fc :: trInFlow
  cl_keepaliveEnabled :: bool
  cl_lastRead :: int
  cl_initialWindowSize :: u32
  cl_maxSendHeaderListSize :: "u32 option"
  cl_bdpEst :: "'f bdpEstimator option"
  cl_maxConcurrentStreams :: u32
  cl_streamQuota :: int
  cl_gen :: nat
  cl_token :: bool
  cl_waitingStreams :: u32
  cl_nextID :: u32
  cl_state :: transportState
  cl_active :: "(u32 \<times> nat) list option"
  cl_prevGoAwayID :: u32
  cl_goAway :: bool
  cl_goAwayReason :: goAwayReason
  cl_kpDormant :: bool
  cl_kpSignalled :: bool
  cl_cancelled :: bool
  cl_connClosed :: bool
  cl_callbacks :: "'d callback list"
  cl_obj :: "nat \<Rightarrow> 'd clStream"
  cl_fresh :: nat
  cl_calls :: "ncall list"
  cl_opened :: "nat list"
  cl_ids :: "(u32 \<times> nat) list"
  cl_log :: "cbItem list"

type_synonym ('f, 'd, 'a) cprog = "(('f, 'd) http2Client, 'd cerr, 'a) prog"

definition actives :: "('f, 'd) http2Client \<Rightarrow> (u32 \<times> nat) list" where
  "actives t = (case cl_active t of Some m \<Rightarrow> m | None \<Rightarrow> [])"

definition upd :: "nat \<Rightarrow> ('d clStream \<Rightarrow> 'd clStream) \<Rightarrow> ('f, 'd) http2Client \<Rightarrow> ('f, 'd) http2Client" where
  "upd a f t = t\<lparr>cl_obj := (cl_obj t)(a := f (cl_obj t a))\<rparr>"

text \<open>\<^verbatim>\<open>controlBuf.put\<close>, and \<^verbatim>\<open>executeAndPut\<close> with a function that changes the transport and the item under the buffer's lock.\<close>

definition cl_put :: "cbItem \<Rightarrow> ('f, 'd) http2Client \<Rightarrow> ('f, 'd) http2Client" where
  "cl_put it t =
     (case cb_put it (cl_ctl t) of
        (Ok True, c) \<Rightarrow> t\<lparr>cl_ctl := c, cl_log := cl_log t @ [it]\<rparr>
      | (_, c) \<Rightarrow> t\<lparr>cl_ctl := c\<rparr>)"

definition cl_executeAndPut ::
  "(('f, 'd) http2Client \<Rightarrow> cbItem option \<times> ('f, 'd) http2Client) \<Rightarrow> ('f, 'd, bool) cprog" where
  "cl_executeAndPut f t =
     (case cb_err (cl_ctl t) of
        Some e \<Rightarrow> (Err (BufferE e), t)
      | None \<Rightarrow> (case f t of (Some it, t) \<Rightarrow> (Ok True, cl_put it t) | (None, t) \<Rightarrow> (Ok False, t)))"

definition x_write :: "nat \<Rightarrow> 'd cerr recvMsg \<Rightarrow> ('f, 'd) http2Client \<Rightarrow> ('f, 'd) http2Client" where
  "x_write a m = upd a (\<lambda>s. s\<lparr>x_buf := rb_put m (x_buf s)\<rparr>)"

text \<open>Closing \<^verbatim>\<open>s.done\<close> a second time, or signalling a condition variable that is nil, panics.\<close>

definition close_done :: "nat \<Rightarrow> ('f, 'd, unit) cprog" where
  "close_done a t = (if x_done (cl_obj t a) then (Panic, t) else (Ok (), upd a (\<lambda>s. s\<lparr>x_done := True\<rparr>) t))"

definition kp_signal :: "('f, 'd, unit) cprog" where
  "kp_signal t = (if \<not> cl_kpDormant t then (Ok (), t) else if \<not> cl_keepaliveEnabled t then (Panic, t) else (Ok (), t\<lparr>cl_kpSignalled := True\<rparr>))"

section \<open>Ending streams\<close>

text \<open>A token for one waiting call, if quota is left and calls wait.\<close>

definition offer_quota :: "('f, 'd) http2Client \<Rightarrow> ('f, 'd) http2Client" where
  "offer_quota t = (if cl_streamQuota t > 0 \<and> cl_waitingStreams t > 0 then t\<lparr>cl_token := True\<rparr> else t)"

definition addBackStreamQuota :: "('f, 'd) http2Client \<Rightarrow> ('f, 'd) http2Client" where
  "addBackStreamQuota t = offer_quota (t\<lparr>cl_streamQuota := cl_streamQuota t + 1\<rparr>)"

text \<open>
  What \<^verbatim>\<open>doCloseStream\<close> writes into the stream. The trailer is empty before, so that an empty \<^verbatim>\<open>mdata\<close> leaves it as it is.
\<close>

definition finish_stream ::
  "'d cerr option \<Rightarrow> 'd cstatus option \<Rightarrow> bool \<Rightarrow> (gostring \<rightharpoonup> gostring list) \<Rightarrow> 'd clStream \<Rightarrow> 'd clStream" where
  "finish_stream err st reuse mdata s =
     (let s = s\<lparr>x_status := st, x_reuseStatus := reuse\<rparr>;
          s = s\<lparr>x_trailer := mdata\<rparr>;
          s = (case err of Some e \<Rightarrow> s\<lparr>x_buf := rb_put (RFail e) (x_buf s)\<rparr> | None \<Rightarrow> s);
          storeErr = (if err = Some EOF \<or> err = None then status_Err st else err);
          s = (if storeErr \<noteq> None then s\<lparr>x_closeStreamErr := storeErr\<rparr> else s)
      in if \<not> x_headerChanClosed s then s\<lparr>x_headerChanClosed := True, x_noHeaders := True\<rparr> else s)"

definition doCloseStream ::
  "nat \<Rightarrow> 'd cerr option \<Rightarrow> bool \<Rightarrow> u32 \<Rightarrow> 'd cstatus option \<Rightarrow> bool \<Rightarrow> (gostring \<rightharpoonup> gostring list) \<Rightarrow> ('f, 'd, unit) cprog" where
  "doCloseStream a err rst rstCode st reuse mdata t =
     (let t = upd a (finish_stream err st reuse mdata) t;
          cleanup = CbCleanup \<lparr>cs_streamID = x_id (cl_obj t a), cs_rst = rst, cs_rstCode = rstCode\<rparr>
      in case cl_executeAndPut (\<lambda>t. (Some cleanup, addBackStreamQuota t)) t of (_, t) \<Rightarrow> close_done a t)"

text \<open>The streams that a call closes are done when another call finds them so: it does not wait for \<^verbatim>\<open>s.done\<close> between steps.\<close>

definition cl_closeStream ::
  "nat \<Rightarrow> 'd cerr option \<Rightarrow> bool \<Rightarrow> u32 \<Rightarrow> 'd cstatus option \<Rightarrow> (gostring \<rightharpoonup> gostring list) \<Rightarrow> ('f, 'd, unit) cprog" where
  "cl_closeStream a err rst rstCode st mdata t =
     (if x_state (cl_obj t a) = streamDone then (Ok (), t)
      else doCloseStream a err rst rstCode st False mdata (upd a (\<lambda>s. s\<lparr>x_state := streamDone\<rparr>) t))"

definition ErrCodeCancel :: u32 where "ErrCodeCancel = 8"

definition CloseStream :: "nat \<Rightarrow> 'd cerr option \<Rightarrow> ('f, 'd, unit) cprog" where
  "CloseStream a err =
     (case err of
        None \<Rightarrow> cl_closeStream a None False 0 (Convert None) Map.empty
      | Some e \<Rightarrow> cl_closeStream a err True (if e = errGracefulShutdown then gracefulShutdownCode else ErrCodeCancel) (Convert err) Map.empty)"

text \<open>\<^verbatim>\<open>cleanup\<close> of \<^verbatim>\<open>NewStream\<close>: the stream was never sent.\<close>

definition cl_cleanup :: "nat \<Rightarrow> 'd cerr \<Rightarrow> ('f, 'd, unit) cprog" where
  "cl_cleanup a e t =
     (if x_state (cl_obj t a) = streamDone then (Ok (), t)
      else bindP (close_done a) (\<lambda>_ t. (Ok (), upd a (\<lambda>s. s\<lparr>x_headerChanClosed := True\<rparr>) t))
        (upd a (\<lambda>s. s\<lparr>x_state := streamDone, x_unprocessed := True, x_buf := rb_put (RFail e) (x_buf s)\<rparr>) t))"

text \<open>\<^verbatim>\<open>initStream\<close>, which the writer calls before it sends the header block.\<close>

definition initStream :: "nat \<Rightarrow> ('f, 'd, unit) cprog" where
  "initStream a t =
     (if cl_state t \<noteq> reachable then
        let e = (if cl_state t = closing then ConnClosing else errStreamDrain)
        in bindP (cl_cleanup a e) (\<lambda>_ t. (Err e, t)) t
      else kp_signal t)"

section \<open>Opening streams\<close>

definition new_clStream :: "callHdr \<Rightarrow> 'd clStream" where
  "new_clStream ch =
     \<lparr>x_id = 0, x_state = streamActive, x_fc = \<lparr>fl_limit = 0, pendingData = 0, pendingUpdate = 0, fl_delta = 0\<rparr>,
      x_buf = newRecvBuffer, x_wq = newWriteQuota defaultWriteQuota, x_done = False, x_headerChanClosed = False,
      x_headerValid = False, x_noHeaders = False, x_header = Map.empty, x_trailer = Map.empty, x_recvCompress = [], x_status = None,
      x_reuseStatus = False, x_biz = None, x_closeStreamErr = None, x_bytesReceived = False, x_unprocessed = False,
      x_method = c_Method ch, x_sendCompress = c_SendCompress ch, x_contentSubtype = c_ContentSubtype ch, x_writing = None\<rparr>"

text \<open>The start of \<^verbatim>\<open>NewStream\<close>; \<open>fs\<close> are the header fields that \<^verbatim>\<open>createHeaderFields\<close> built.\<close>

definition NewStream_start :: "callHdr \<Rightarrow> (gostring \<times> gostring) list \<Rightarrow> ('f, 'd) http2Client \<Rightarrow> ('f, 'd) http2Client" where
  "NewStream_start ch fs t =
     (let a = cl_fresh t in
      t\<lparr>cl_obj := (cl_obj t)(a := new_clStream ch), cl_fresh := a + 1,
        cl_calls := \<lparr>n_stream = a, n_fields = fs, n_first = True, n_ch = None, n_awake = True\<rparr> # cl_calls t\<rparr>)"

definition checkForStreamQuota :: "ncall \<Rightarrow> ('f, 'd) http2Client \<Rightarrow> cbItem option \<times> nat option \<times> ('f, 'd) http2Client" where
  "checkForStreamQuota c t =
     (if cl_streamQuota t \<le> 0 then
        (None, Some (cl_gen t), if n_first c then t\<lparr>cl_waitingStreams := cl_waitingStreams t + 1\<rparr> else t)
      else
        let t = (if \<not> n_first c then t\<lparr>cl_waitingStreams := cl_waitingStreams t - 1\<rparr> else t);
            t = t\<lparr>cl_streamQuota := cl_streamQuota t - 1\<rparr>;
            a = n_stream c; sid = cl_nextID t;
            t = t\<lparr>cl_nextID := sid + 2, cl_ids := (sid, a) # cl_ids t\<rparr>;
            t = upd a (\<lambda>s. s\<lparr>x_id := sid,
                  x_fc := \<lparr>fl_limit = cl_initialWindowSize t, pendingData = 0, pendingUpdate = 0, fl_delta = 0\<rparr>\<rparr>) t
        in case (cl_state t = draining, cl_active t) of
             (False, Some m) \<Rightarrow>
               (Some (CbHeader \<lparr>hf_streamID = sid, hf_hf = n_fields c, hf_endStream = False, hf_initStream = InitOk,
                        hf_wq = x_wq (cl_obj t a), hf_cleanup = None, hf_onOrphaned = True\<rparr>),
                n_ch c, offer_quota (t\<lparr>cl_active := Some ((sid, a) # filter (\<lambda>p. fst p \<noteq> sid) m)\<rparr>))
           | _ \<Rightarrow> (None, n_ch c, t))"

definition header_ok :: "(gostring \<times> gostring) list \<Rightarrow> ('f, 'd) http2Client \<Rightarrow> bool" where
  "header_ok fs t \<longleftrightarrow> (case cl_maxSendHeaderListSize t of None \<Rightarrow> True | Some m \<Rightarrow> hf_size fs \<le> unat m)"

definition hdrListSizeErr :: "'d cerr" where
  "hdrListSizeErr = StatusE (new_status code_Internal (MsgText ''header list size to send violates the maximum size set by server''))"

definition drop_call :: "nat \<Rightarrow> ('f, 'd) http2Client \<Rightarrow> ('f, 'd) http2Client" where
  "drop_call a t = t\<lparr>cl_calls := filter (\<lambda>c. n_stream c \<noteq> a) (cl_calls t)\<rparr>"

text \<open>One pass of the loop of \<^verbatim>\<open>NewStream\<close>: it opens the stream, fails, or goes to wait.\<close>

definition NewStream_try :: "ncall \<Rightarrow> ('f, 'd, unit) cprog" where
  "NewStream_try c t =
     (let a = n_stream c in
      case cb_err (cl_ctl t) of
        Some e \<Rightarrow> (Err (BufferE e), drop_call a t)
      | None \<Rightarrow>
          if \<not> header_ok (n_fields c) t then (Err hdrListSizeErr, drop_call a t)
          else (case checkForStreamQuota c t of
                  (Some it, ch, t) \<Rightarrow> (Ok (), drop_call a (cl_put it (t\<lparr>cl_opened := cl_opened t @ [a]\<rparr>)))
                | (None, ch, t) \<Rightarrow>
                    (Ok (), t\<lparr>cl_calls := map (\<lambda>c'. if n_stream c' = a then c\<lparr>n_first := False, n_ch := ch, n_awake := False\<rparr> else c')
                                           (cl_calls t)\<rparr>)))"

text \<open>The \<^verbatim>\<open>select\<close> of the loop: the channel is ready, or another case ends the call.\<close>

definition can_wake :: "ncall \<Rightarrow> ('f, 'd) http2Client \<Rightarrow> bool" where
  "can_wake c t \<longleftrightarrow> \<not> n_awake c \<and> (case n_ch c of None \<Rightarrow> False | Some g \<Rightarrow> g < cl_gen t \<or> g = cl_gen t \<and> cl_token t)"

definition NewStream_wake :: "ncall \<Rightarrow> ('f, 'd) http2Client \<Rightarrow> ('f, 'd) http2Client" where
  "NewStream_wake c t =
     (let t = (if n_ch c = Some (cl_gen t) then t\<lparr>cl_token := False\<rparr> else t)
      in t\<lparr>cl_calls := map (\<lambda>c'. if n_stream c' = n_stream c then c'\<lparr>n_awake := True\<rparr> else c') (cl_calls t)\<rparr>)"

definition NewStream_end :: "'d ctxErr option \<Rightarrow> ncall \<Rightarrow> ('f, 'd, unit) cprog" where
  "NewStream_end ctx c t =
     (case ctx of
        Some e \<Rightarrow> (Err (cascadeContextErr e), drop_call (n_stream c) t)
      | None \<Rightarrow> if cl_goAway t then (Err errStreamDrain, drop_call (n_stream c) t)
               else (Err ConnClosing, drop_call (n_stream c) t))"

section \<open>Closing\<close>

text \<open>The error as the control buffer keeps it, and the header frames it orphans.\<close>

definition conn_text :: "'d cerr \<Rightarrow> string" where
  "conn_text e = (case e of ConnE d _ \<Rightarrow> ''connection error'' | _ \<Rightarrow> ''error'')"

fun cleanup_all :: "'d cerr \<Rightarrow> headerFrame list \<Rightarrow> ('f, 'd, unit) cprog" where
  "cleanup_all e [] t = (Ok (), t)"
| "cleanup_all e (h # hs) t =
     (case map_of (cl_ids t) (hf_streamID h) of
        Some a \<Rightarrow> bindP (cl_cleanup a e) (\<lambda>_. cleanup_all e hs) t
      | None \<Rightarrow> cleanup_all e hs t)"

fun close_all :: "'d cerr \<Rightarrow> nat list \<Rightarrow> ('f, 'd, unit) cprog" where
  "close_all e [] t = (Ok (), t)"
| "close_all e (a # as) t =
     bindP (cl_closeStream a (Some e) False 0 (Some (new_status code_Unavailable (MsgText ''transport is closing''))) Map.empty)
       (\<lambda>_. close_all e as) t"

definition cl_Close :: "'d cerr \<Rightarrow> ('f, 'd, unit) cprog" where
  "cl_Close e t =
     (if cl_state t = closing then (Ok (), t)
      else let streams = map snd (actives t);
               t = t\<lparr>cl_state := closing, cl_active := None\<rparr>
           in bindP kp_signal (\<lambda>_ t.
                let t = t\<lparr>cl_callbacks := cl_callbacks t @ [OnClose e]\<rparr> in
                case cb_finish (CbErr (conn_text e)) (cl_ctl t) of (_, orphans, c) \<Rightarrow>
                  bindP (cleanup_all e orphans) (\<lambda>_ t.
                    close_all e streams (t\<lparr>cl_cancelled := True, cl_connClosed := True\<rparr>)) (t\<lparr>cl_ctl := c\<rparr>)) t)"

definition GracefulClose :: "('f, 'd, unit) cprog" where
  "GracefulClose t =
     (if cl_state t = draining \<or> cl_state t = closing then (Ok (), t)
      else let t = t\<lparr>cl_state := draining\<rparr> in
           if actives t = [] then cl_Close (ConnE NoActiveStreams True) t
           else (Ok (), cl_put CbIncomingGoAway t))"

section \<open>Sending\<close>

definition getCloseStreamErr :: "'d clStream \<Rightarrow> 'd cerr" where
  "getCloseStreamErr s = (case x_closeStreamErr s of Some e \<Rightarrow> e | None \<Rightarrow> errStatusStreamDone)"

definition buffer_res :: "cbItem \<Rightarrow> ('f, 'd, unit option) cprog" where
  "buffer_res it t = (case cb_err (cl_ctl t) of Some e \<Rightarrow> (Err (BufferE e), t) | None \<Rightarrow> (Ok (Some ()), cl_put it t))"

text \<open>
  \<^verbatim>\<open>Write\<close>: the guard on the state, then write quota and the control buffer. \<open>None\<close>: the call waits for quota and goes on
  with \<^verbatim>\<open>Write_resume\<close>; \<open>nodata\<close> says that header and data are both nil.
\<close>

definition Write_rest :: "nat \<Rightarrow> dataFrame \<Rightarrow> bool \<Rightarrow> ('f, 'd, unit option) cprog" where
  "Write_rest a df nodata t =
     (let s = cl_obj t a; n = of_nat (length (df_h df) + length (df_d df)) in
      if nodata then buffer_res (CbData df) (upd a (\<lambda>s. s\<lparr>x_writing := None\<rparr>) t)
      else if get_load (x_wq s) then
        buffer_res (CbData df) (upd a (\<lambda>s. s\<lparr>x_wq := get_sub n (x_wq s), x_writing := None\<rparr>) t)
      else if x_done s then (Err (getCloseStreamErr s), upd a (\<lambda>s. s\<lparr>x_writing := None\<rparr>) t)
      else (Ok None, upd a (\<lambda>s. s\<lparr>x_writing := Some df\<rparr>) t))"

definition cl_Write :: "nat \<Rightarrow> byte list option \<Rightarrow> byte list option \<Rightarrow> bool \<Rightarrow> ('f, 'd, unit option) cprog" where
  "cl_Write a hdr data isLast t =
     (let s = cl_obj t a;
          df = \<lparr>df_streamID = x_id s, df_endStream = isLast, df_h = (case hdr of Some h \<Rightarrow> h | None \<Rightarrow> []),
                df_d = (case data of Some d \<Rightarrow> d | None \<Rightarrow> [])\<rparr>;
          nodata = (hdr = None \<and> data = None)
      in if x_state s \<noteq> streamActive then (Err (getCloseStreamErr s), t)
         else Write_rest a df nodata (if isLast then upd a (\<lambda>s. s\<lparr>x_state := streamWriteDone\<rparr>) t else t))"

definition Write_resume :: "nat \<Rightarrow> ('f, 'd, unit option) cprog" where
  "Write_resume a t = (case x_writing (cl_obj t a) of Some df \<Rightarrow> Write_rest a df False t | None \<Rightarrow> (Ok (Some ()), t))"

section \<open>Frames from the server\<close>

definition cl_getStream :: "u32 \<Rightarrow> ('f, 'd) http2Client \<Rightarrow> nat option" where
  "cl_getStream sid t = map_of (actives t) sid"

definition cl_window :: "nat \<Rightarrow> u32 \<times> inFlow \<Rightarrow> ('f, 'd) http2Client \<Rightarrow> ('f, 'd) http2Client" where
  "cl_window a r t =
     (let t = upd a (\<lambda>s. s\<lparr>x_fc := snd r\<rparr>) t
      in if fst r > 0 then cl_put (CbOutgoingWindowUpdate (x_id (cl_obj t a)) (fst r)) t else t)"

definition cl_adjustWindow :: "nat \<Rightarrow> u32 \<Rightarrow> ('f, 'd) http2Client \<Rightarrow> ('f, 'd) http2Client" where
  "cl_adjustWindow a n t = cl_window a (maybeAdjust n (x_fc (cl_obj t a))) t"

definition cl_updateWindow :: "nat \<Rightarrow> u32 \<Rightarrow> ('f, 'd) http2Client \<Rightarrow> ('f, 'd) http2Client" where
  "cl_updateWindow a n t = cl_window a (fl_onRead n (x_fc (cl_obj t a))) t"

definition cl_updateFlowControl :: "u32 \<Rightarrow> ('f, 'd) http2Client \<Rightarrow> ('f, 'd) http2Client" where
  "cl_updateFlowControl n t =
     (let w = fst (tr_newLimit n (cl_fc t));
          t = t\<lparr>cl_fc := snd (tr_newLimit n (cl_fc t))\<rparr>;
          updateIWS = (\<lambda>t. t\<lparr>cl_initialWindowSize := n,
            cl_obj := (\<lambda>a. if a \<in> snd ` set (actives t) then (cl_obj t a)\<lparr>x_fc := fl_newLimit n (x_fc (cl_obj t a))\<rparr> else cl_obj t a)\<rparr>);
          t = snd (cl_executeAndPut (\<lambda>t. (Some (CbOutgoingWindowUpdate 0 w), updateIWS t)) t)
      in cl_put (CbOutgoingSettings [(SettingInitialWindowSize, n)]) t)"

definition cl_bdp_on_data :: "int \<Rightarrow> u32 \<Rightarrow> ('f, 'd) http2Client \<Rightarrow> bool \<times> ('f, 'd) http2Client" where
  "cl_bdp_on_data now n t =
     (case cl_bdpEst t of
        None \<Rightarrow> (False, t)
      | Some b \<Rightarrow> (case bdp_add now 0 n b of (p, b) \<Rightarrow> (p, t\<lparr>cl_bdpEst := Some b\<rparr>)))"

definition cl_conn_window :: "bool \<Rightarrow> u32 \<Rightarrow> ('f, 'd) http2Client \<Rightarrow> ('f, 'd) http2Client" where
  "cl_conn_window sendBDPPing n t =
     (let w = fst (tr_onData n (cl_fc t));
          t = t\<lparr>cl_fc := snd (tr_onData n (cl_fc t))\<rparr>;
          t = (if w > 0 then cl_put (CbOutgoingWindowUpdate 0 w) t else t)
      in if sendBDPPing then
           let w = fst (tr_reset (cl_fc t));
               t = t\<lparr>cl_fc := snd (tr_reset (cl_fc t))\<rparr>;
               t = (if w > 0 then cl_put (CbOutgoingWindowUpdate 0 w) t else t)
           in cl_put (CbPing False bdpPing_data) t
         else t)"

definition cl_stream_data :: "nat \<Rightarrow> frame_header \<Rightarrow> byte list \<Rightarrow> ('f, 'd, unit) cprog" where
  "cl_stream_data a fh data t =
     (let size = fh_Length fh;
          eos = (\<lambda>t. if Has (fh_Flags fh) FlagEndStream
                     then cl_closeStream a (Some EOF) False 0
                       (Some (new_status code_Internal (MsgText ''server closed the stream without sending trailers''))) Map.empty t
                     else (Ok (), t))
      in if size > 0 then
           (case fl_onData size (x_fc (cl_obj t a)) of
              (Some (rcvd, limit), fc) \<Rightarrow>
                cl_closeStream a (Some EOF) True ErrCodeFlowControl (Some (new_status code_Internal (MsgFlow rcvd limit))) Map.empty
                  (upd a (\<lambda>s. s\<lparr>x_fc := fc\<rparr>) t)
            | (None, fc) \<Rightarrow>
                let t = upd a (\<lambda>s. s\<lparr>x_fc := fc\<rparr>) t;
                    t = (if Has (fh_Flags fh) FlagPadded then cl_updateWindow a (size - of_nat (length data)) t else t);
                    t = (if data \<noteq> [] then x_write a (RData data) t else t)
                in eos t)
         else eos t)"

definition cl_handleData :: "int \<Rightarrow> frame_header \<Rightarrow> byte list \<Rightarrow> ('f, 'd, unit) cprog" where
  "cl_handleData now fh data t =
     (case cl_bdp_on_data now (fh_Length fh) t of (sendBDPPing, t) \<Rightarrow>
        let t = cl_conn_window sendBDPPing (fh_Length fh) t in
        case cl_getStream (fh_StreamID fh) t of
          None \<Rightarrow> (Ok (), t)
        | Some a \<Rightarrow> cl_stream_data a fh data t)"

text \<open>\<^verbatim>\<open>handleRSTStream\<close>; \<open>expired\<close> tells whether the deadline of the stream's context has passed.\<close>

definition cl_handleRSTStream :: "bool \<Rightarrow> u32 \<Rightarrow> u32 \<Rightarrow> ('f, 'd, unit) cprog" where
  "cl_handleRSTStream expired sid code t =
     (case cl_getStream sid t of
        None \<Rightarrow> (Ok (), t)
      | Some a \<Rightarrow>
          let t = (if code = ErrCodeRefusedStream then upd a (\<lambda>s. s\<lparr>x_unprocessed := True\<rparr>) t else t);
              statusCode = (case http2ErrConvTab code of Some c \<Rightarrow> c | None \<Rightarrow> code_Unknown);
              statusCode = (if statusCode = code_Canceled \<and> expired then code_DeadlineExceeded else statusCode);
              msg = (if code = gracefulShutdownCode then MsgText ''graceful shutdown'' else MsgRST code)
          in cl_closeStream a (Some EOF) False 0 (Some (new_status statusCode msg)) Map.empty t)"

text \<open>\<^verbatim>\<open>handleSettings\<close>: the callback collects the limit on streams, the limit on header lists and the rest.\<close>

definition SettingMaxConcurrentStreams :: u16 where "SettingMaxConcurrentStreams = 3"

definition cl_collect_setting :: "u16 \<times> u32 \<Rightarrow> (u32 option \<times> u32 option \<times> (u16 \<times> u32) list, h2err, unit) prog" where
  "cl_collect_setting s st =
     (case st of (ms, mx, ss) \<Rightarrow>
        if fst s = SettingMaxConcurrentStreams then (Ok (), (Some (snd s), mx, ss))
        else if fst s = SettingMaxHeaderListSize then (Ok (), (ms, Some (snd s), ss))
        else (Ok (), (ms, mx, ss @ [s])))"

definition updateStreamQuota :: "u32 \<Rightarrow> ('f, 'd) http2Client \<Rightarrow> ('f, 'd) http2Client" where
  "updateStreamQuota n t =
     (let delta = uint n - uint (cl_maxConcurrentStreams t);
          t = t\<lparr>cl_maxConcurrentStreams := n, cl_streamQuota := cl_streamQuota t + delta\<rparr>
      in if delta > 0 \<and> cl_waitingStreams t > 0 then t\<lparr>cl_gen := cl_gen t + 1, cl_token := False\<rparr> else t)"

definition cl_handleSettings :: "frame_header \<Rightarrow> byte list \<Rightarrow> bool \<Rightarrow> ('f, 'd, unit) cprog" where
  "cl_handleSettings fh p isFirst t =
     (if Has (fh_Flags fh) FlagAck then (Ok (), t)
      else case ForeachSetting (NumSettings p) p 0 cl_collect_setting (None, None, []) of
             (Panic, _) \<Rightarrow> (Panic, t)
           | (Diverge, _) \<Rightarrow> (Diverge, t)
           | (_, (ms, mx, ss)) \<Rightarrow>
               let ms = (if isFirst \<and> ms = None then Some 0xFFFFFFFF else ms);
                   update = (\<lambda>t. let t = (if mx \<noteq> None then t\<lparr>cl_maxSendHeaderListSize := mx\<rparr> else t)
                                 in case ms of Some n \<Rightarrow> updateStreamQuota n t | None \<Rightarrow> t)
               in (Ok (), snd (cl_executeAndPut (\<lambda>t. (Some (CbIncomingSettings ss), update t)) t)))"

definition cl_bdp_on_ack :: "('f, 'd) senv \<Rightarrow> int \<Rightarrow> byte list \<Rightarrow> ('f, 'd) http2Client \<Rightarrow> ('f, 'd) http2Client" where
  "cl_bdp_on_ack env now data t =
     (case cl_bdpEst t of
        None \<Rightarrow> t
      | Some b \<Rightarrow>
          (case calculate (v_F env) (v_secs env) now data b of (w, b) \<Rightarrow>
             let t = t\<lparr>cl_bdpEst := Some b\<rparr>
             in case w of None \<Rightarrow> t | Some n \<Rightarrow> cl_updateFlowControl n t))"

definition cl_handlePing :: "('f, 'd) senv \<Rightarrow> int \<Rightarrow> bool \<Rightarrow> byte list \<Rightarrow> ('f, 'd) http2Client \<Rightarrow> ('f, 'd) http2Client" where
  "cl_handlePing env now ack data t = (if ack then cl_bdp_on_ack env now data t else cl_put (CbPing True data) t)"

definition setGoAwayReason :: "u32 \<Rightarrow> byte list \<Rightarrow> goAwayReason" where
  "setGoAwayReason code debug =
     (if code = ErrCodeEnhanceYourCalm \<and> debug = bytes_of ''too_many_pings'' then GoAwayTooManyPings else GoAwayNoReason)"

fun drain_all :: "nat list \<Rightarrow> ('f, 'd, unit) cprog" where
  "drain_all [] t = (Ok (), t)"
| "drain_all (a # as) t =
     bindP (cl_closeStream a (Some errStreamDrain) False 0 (Some statusGoAway) Map.empty) (\<lambda>_. drain_all as) t"

text \<open>
  The part of \<^verbatim>\<open>handleGoAway\<close> after the checks: \<open>first\<close> says that this is the first GOAWAY, whose deferred \<^verbatim>\<open>incomingGoAway\<close>
  comes last.
\<close>

definition goAway_streams :: "u32 \<Rightarrow> bool \<Rightarrow> ('f, 'd, unit) cprog" where
  "goAway_streams lastID invokeOnGoAway t =
     (let upperLimit = (if cl_prevGoAwayID t = 0 then 0xFFFFFFFF else cl_prevGoAwayID t);
          t = t\<lparr>cl_prevGoAwayID := lastID\<rparr>;
          notify = (\<lambda>t. if invokeOnGoAway then t\<lparr>cl_callbacks := cl_callbacks t @ [OnGoAway (cl_goAwayReason t)]\<rparr> else t)
      in if actives t = [] then cl_Close (ConnE GoAwayNoStreams True) (notify t)
         else let as = map snd (filter (\<lambda>(k, a). k > lastID \<and> k \<le> upperLimit) (actives t));
                  t = fold (\<lambda>a. upd a (\<lambda>s. s\<lparr>x_unprocessed := True\<rparr>)) as t
              in drain_all as (notify t))"

definition handleGoAway :: "u32 \<Rightarrow> u32 \<Rightarrow> byte list \<Rightarrow> ('f, 'd, unit) cprog" where
  "handleGoAway lastID code debug t =
     (if cl_state t = closing then (Ok (), t)
      else if lastID > 0 \<and> lastID mod 2 \<noteq> 1 then cl_Close (ConnE (GoAwayEvenID lastID) False) t
      else if cl_goAway t then
        (if lastID > cl_prevGoAwayID t then cl_Close (ConnE (GoAwayGrows lastID (cl_prevGoAwayID t)) False) t
         else goAway_streams lastID False t)
      else
        let invoke = (cl_state t \<noteq> draining);
            t = t\<lparr>cl_goAwayReason := setGoAwayReason code debug, cl_goAway := True, cl_state := draining\<rparr>
        in bindP (goAway_streams lastID invoke) (\<lambda>_ t. (Ok (), cl_put CbIncomingGoAway t)) t)"

definition cl_handleWindowUpdate :: "u32 \<Rightarrow> u32 \<Rightarrow> ('f, 'd) http2Client \<Rightarrow> ('f, 'd) http2Client" where
  "cl_handleWindowUpdate sid inc = cl_put (CbIncomingWindowUpdate sid inc)"

definition ErrCodeProtocolC :: u32 where "ErrCodeProtocolC = 1"

text \<open>The end of \<^verbatim>\<open>operateHeaders\<close>, for a header block that ends the stream: the status of the trailer, which may panic.\<close>

definition end_of_stream :: "nat \<Rightarrow> 'd decodeState \<Rightarrow> ('f, 'd, unit) cprog" where
  "end_of_stream a d t =
     (let rst = (x_state (cl_obj t a) = streamActive) in
      case bizStatusErr d of
        (Ok biz, d) \<Rightarrow>
          let t = upd a (\<lambda>s. s\<lparr>x_biz := biz\<rparr>) t in
          (case status_of d of
             (Ok st, d) \<Rightarrow> cl_closeStream a (Some EOF) rst 0 (Some (CStatus (st_code st) (MsgPeer (st_message st)) (st_details st) False))
                           (p_mdata d) t
           | (Err e, d) \<Rightarrow> (Err e, t) | (Panic, d) \<Rightarrow> (Panic, t) | (Diverge, d) \<Rightarrow> (Diverge, t))
      | (Err e, d) \<Rightarrow> (Err e, t) | (Panic, d) \<Rightarrow> (Panic, t) | (Diverge, d) \<Rightarrow> (Diverge, t))"

definition first_header :: "bool \<Rightarrow> 'd decodeState \<Rightarrow> 'd clStream \<Rightarrow> 'd clStream" where
  "first_header endStream d s =
     (if x_headerChanClosed s then s
      else let s = s\<lparr>x_headerChanClosed := True, x_headerValid := True\<rparr>
           in if \<not> endStream then s\<lparr>x_recvCompress := p_encoding d, x_header := p_mdata d\<rparr> else s\<lparr>x_noHeaders := True\<rparr>)"

definition cl_operateHeaders ::
  "('f, 'd) senv \<Rightarrow> u32 \<Rightarrow> bool \<Rightarrow> (gostring \<times> gostring) list \<Rightarrow> bool \<Rightarrow> ('f, 'd, unit) cprog" where
  "cl_operateHeaders env sid endStream fs truncated t =
     (case cl_getStream sid t of
        None \<Rightarrow> (Ok (), t)
      | Some a \<Rightarrow>
          let t = upd a (\<lambda>s. s\<lparr>x_bytesReceived := True\<rparr>) t;
              initialHeader = (\<not> x_headerChanClosed (cl_obj t a))
          in if \<not> initialHeader \<and> \<not> endStream then
               let st = new_status code_Internal (MsgText ''a HEADERS frame cannot appear in the middle of a stream'')
               in cl_closeStream a (status_Err (Some st)) True ErrCodeProtocolC (Some st) Map.empty t
             else (case decodeHeader (v_henv env) truncated fs (newDecodeState False (\<not> initialHeader)) of
                     (Err e, d) \<Rightarrow>
                       let st = new_status (se_code e) (MsgHeader (se_reason e))
                       in cl_closeStream a (Some (StatusE st)) True ErrCodeProtocolC (Convert (Some (StatusE st))) Map.empty t
                   | (Ok _, d) \<Rightarrow>
                       let t = upd a (first_header endStream d) t
                       in if \<not> endStream then (Ok (), t) else end_of_stream a d t
                   | (Panic, d) \<Rightarrow> (Panic, t)
                   | (Diverge, d) \<Rightarrow> (Diverge, t)))"

section \<open>The reader\<close>

definition cl_handleFrame :: "('f, 'd) senv \<Rightarrow> int \<Rightarrow> bool \<Rightarrow> frame \<Rightarrow> ('f, 'd, unit) cprog" where
  "cl_handleFrame env now expired f t =
     (case f of
        MetaHeadersFrame fh _ fs truncated \<Rightarrow>
          cl_operateHeaders env (fh_StreamID fh) (Has (fh_Flags fh) FlagEndStream) fs truncated t
      | DataFrame fh data \<Rightarrow> cl_handleData now fh data t
      | RSTStreamFrame fh code \<Rightarrow> cl_handleRSTStream expired (fh_StreamID fh) code t
      | SettingsFrame fh p \<Rightarrow> cl_handleSettings fh p False t
      | PingFrame fh data \<Rightarrow> (Ok (), cl_handlePing env now (Has (fh_Flags fh) FlagAck) data t)
      | GoAwayFrame fh lastID code debug \<Rightarrow> handleGoAway lastID code debug t
      | WindowUpdateFrame fh inc \<Rightarrow> (Ok (), cl_handleWindowUpdate (fh_StreamID fh) inc t)
      | _ \<Rightarrow> (Ok (), t))"

text \<open>One turn with the frame, or the error and the framer's \<^verbatim>\<open>ErrorDetail\<close>; the result tells whether the loop goes on.\<close>

definition cl_handleReadErr :: "h2err \<Rightarrow> string option \<Rightarrow> ('f, 'd, bool) cprog" where
  "cl_handleReadErr e detail t =
     (case e of
        StreamError sid code \<Rightarrow>
          (case cl_getStream sid t of
             Some a \<Rightarrow>
               let c = (case http2ErrConvTab code of Some c \<Rightarrow> c | None \<Rightarrow> 0); st = new_status c (MsgRead detail)
               in bindP (cl_closeStream a (status_Err (Some st)) True ErrCodeProtocolC (Some st) Map.empty) (\<lambda>_ t. (Ok True, t)) t
           | None \<Rightarrow> (Ok True, t))
      | _ \<Rightarrow> bindP (cl_Close (ConnE (ReadFailed e) False)) (\<lambda>_ t. (Ok False, t)) t)"

definition read_at :: "int \<Rightarrow> ('f, 'd) http2Client \<Rightarrow> ('f, 'd) http2Client" where
  "read_at now t = (if cl_keepaliveEnabled t then t\<lparr>cl_lastRead := now\<rparr> else t)"

definition reader_turn :: "('f, 'd) senv \<Rightarrow> int \<Rightarrow> bool \<Rightarrow> frame + (h2err \<times> string option) \<Rightarrow> ('f, 'd, bool) cprog" where
  "reader_turn env now expired r t =
     (let t = read_at now t in
      case r of
        Inl f \<Rightarrow> bindP (cl_handleFrame env now expired f) (\<lambda>_ t. (Ok True, t)) t
      | Inr (e, detail) \<Rightarrow> cl_handleReadErr e detail t)"

text \<open>The first frame must be SETTINGS.\<close>

definition reader_start :: "int \<Rightarrow> frame + h2err \<Rightarrow> ('f, 'd, bool) cprog" where
  "reader_start now r t =
     (case r of
        Inr e \<Rightarrow> bindP (cl_Close (ConnE (ReadFailed e) False)) (\<lambda>_ t. (Ok False, t)) t
      | Inl f \<Rightarrow>
          let t = read_at now t in
          (case f of
             SettingsFrame fh p \<Rightarrow> bindP (cl_handleSettings fh p True) (\<lambda>_ t. (Ok True, t)) t
           | _ \<Rightarrow> bindP (cl_Close (ConnE FirstNotSettings False)) (\<lambda>_ t. (Ok False, t)) t))"

section \<open>Cancelled streams\<close>

text \<open>
  \<^verbatim>\<open>closeStreamTask.Tick\<close>: it closes the active streams whose context is done; \<open>ctx\<close> gives the context's error. The stream
  objects are taken from the table first. Removing the task from the global ticker has no effect on the transport.
\<close>

fun tick_all :: "(nat \<Rightarrow> 'd ctxErr option) \<Rightarrow> nat list \<Rightarrow> ('f, 'd, unit) cprog" where
  "tick_all ctx [] t = (Ok (), t)"
| "tick_all ctx (a # as) t =
     (case ctx a of
        None \<Rightarrow> tick_all ctx as t
      | Some e \<Rightarrow>
          if x_state (cl_obj t a) = streamDone then tick_all ctx as t
          else (case contextStatusAndErr (tryMarkAsCascadeCancel e) of (st, reuse, err) \<Rightarrow>
                  bindP (doCloseStream a (Some err) True ErrCodeCancel (Some st) reuse Map.empty) (\<lambda>_. tick_all ctx as)
                    (upd a (\<lambda>s. s\<lparr>x_state := streamDone\<rparr>) t)))"

definition Tick :: "(nat \<Rightarrow> 'd ctxErr option) \<Rightarrow> ('f, 'd, unit) cprog" where
  "Tick ctx t = tick_all ctx (map snd (filter (\<lambda>p. ctx (snd p) \<noteq> None) (actives t))) t"

text \<open>\<^verbatim>\<open>waitOnHeader\<close> and \<^verbatim>\<open>readClient\<close> close the stream when its context is done.\<close>

definition context_done :: "nat \<Rightarrow> 'd ctxErr \<Rightarrow> ('f, 'd, unit) cprog" where
  "context_done a e = CloseStream a (Some (cascadeContextErr e))"

section \<open>Keepalive\<close>

record ckParams =
  ck_Time :: duration
  ck_Timeout :: duration
  ck_PermitWithoutStream :: bool

definition ck_defaults :: "ckParams \<Rightarrow> ckParams" where
  "ck_defaults p =
     p\<lparr>ck_Time := (if ck_Time p = 0 then Infinity else ck_Time p), ck_Timeout := (if ck_Timeout p = 0 then 20 * Second else ck_Timeout p)\<rparr>"

datatype ckNext = CkReset duration | CkDormant | CkReturn

text \<open>Sending the ping and going to sleep again; then what happens when the timer fires, and when a dormant goroutine is woken.\<close>

definition ck_ping :: "ckParams \<Rightarrow> kpState \<Rightarrow> ('f, 'd) http2Client \<Rightarrow> (ckNext \<times> kpState) \<times> ('f, 'd) http2Client" where
  "ck_ping p k t =
     (let t = (if \<not> k_outstandingPing k then cl_put (CbPing False (replicate 8 0)) t else t);
          k = (if \<not> k_outstandingPing k then k\<lparr>k_timeoutLeft := ck_Timeout p, k_outstandingPing := True\<rparr> else k);
          sleep = minTime (ck_Time p) (k_timeoutLeft k)
      in ((CkReset sleep, k\<lparr>k_timeoutLeft := k_timeoutLeft k - sleep\<rparr>), t))"

definition ck_fired :: "ckParams \<Rightarrow> int \<Rightarrow> kpState \<Rightarrow> ('f, 'd, ckNext \<times> kpState) cprog" where
  "ck_fired p now k t =
     (if cl_lastRead t > k_prevNano k then
        (Ok (CkReset (cl_lastRead t + ck_Time p - now), k\<lparr>k_outstandingPing := False, k_prevNano := cl_lastRead t\<rparr>), t)
      else if k_outstandingPing k \<and> k_timeoutLeft k \<le> 0 then
        bindP (cl_Close (ConnE KeepaliveTimeout False)) (\<lambda>_ t. (Ok (CkReturn, k), t)) t
      else if cl_state t = closing then (Ok (CkReturn, k), t)
      else if actives t = [] \<and> \<not> ck_PermitWithoutStream p then
        (Ok (CkDormant, k\<lparr>k_outstandingPing := False\<rparr>), t\<lparr>cl_kpDormant := True, cl_kpSignalled := False\<rparr>)
      else case ck_ping p k (t\<lparr>cl_kpDormant := False\<rparr>) of (r, t) \<Rightarrow> (Ok r, t))"

definition ck_woken :: "ckParams \<Rightarrow> kpState \<Rightarrow> ('f, 'd) http2Client \<Rightarrow> (ckNext \<times> kpState) \<times> ('f, 'd) http2Client" where
  "ck_woken p k t = ck_ping p k (t\<lparr>cl_kpDormant := False\<rparr>)"

section \<open>Construction\<close>

record connectOptions =
  o_keepalive :: ckParams
  o_InitialWindowSize :: u32
  o_InitialConnWindowSize :: u32

definition defaultMaxStreamsClient :: u32 where "defaultMaxStreamsClient = 100"

definition newHTTP2Client :: "connectOptions \<Rightarrow> 'f bdpEstimator \<Rightarrow> ('f, 'd) http2Client" where
  "newHTTP2Client opt est =
     (let kp = ck_defaults (o_keepalive opt);
          icwz = (if o_InitialConnWindowSize opt \<ge> defaultWindowSize then o_InitialConnWindowSize opt else defaultWindowSize);
          iwz = (if o_InitialWindowSize opt \<ge> defaultWindowSize then o_InitialWindowSize opt else defaultWindowSize);
          dynamicWindow = (o_InitialWindowSize opt < defaultWindowSize \<and> o_InitialConnWindowSize opt < defaultWindowSize)
      in \<lparr>cl_ctl = newControlBuffer, cl_fc = \<lparr>tr_limit = icwz, tr_unacked = 0, tr_effective = 0\<rparr>,
          cl_keepaliveEnabled = (ck_Time kp \<noteq> Infinity), cl_lastRead = 0, cl_initialWindowSize = iwz,
          cl_maxSendHeaderListSize = None,
          cl_bdpEst = (if dynamicWindow then Some (est\<lparr>bdp := defaultWindowSize\<rparr>) else None),
          cl_maxConcurrentStreams = defaultMaxStreamsClient, cl_streamQuota = uint defaultMaxStreamsClient, cl_gen = 0,
          cl_token = False, cl_waitingStreams = 0, cl_nextID = 1, cl_state = reachable, cl_active = Some [],
          cl_prevGoAwayID = 0, cl_goAway = False, cl_goAwayReason = GoAwayInvalid, cl_kpDormant = False,
          cl_kpSignalled = False, cl_cancelled = False, cl_connClosed = False, cl_callbacks = [],
          cl_obj = (\<lambda>_. new_clStream \<lparr>c_Host = [], c_Method = [], c_SendCompress = [], c_ContentSubtype = [], c_PreviousAttempts = 0\<rparr>),
          cl_fresh = 0, cl_calls = [], cl_opened = [], cl_ids = [], cl_log = []\<rparr>)"

text \<open>
  What the constructor sends: the preface, the settings and a window update; an error of the connection closes the
  transport. \<open>wrote\<close> is the number of bytes of the preface that were written, or nothing after an error.
\<close>

definition client_preface :: "connectOptions \<Rightarrow> ('f, 'd) http2Client \<Rightarrow> byte list \<times> wcmd list" where
  "client_preface opt t =
     (ClientPreface,
      [WSettings [(SettingInitialWindowSize, cl_initialWindowSize t)]]
      @ (let icwz = (if o_InitialConnWindowSize opt \<ge> defaultWindowSize then o_InitialConnWindowSize opt else defaultWindowSize)
         in if icwz - defaultWindowSize > 0 then [WWindow 0 (icwz - defaultWindowSize)] else []))"

definition client_greeting :: "nat option \<Rightarrow> bool \<Rightarrow> ('f, 'd, unit) cprog" where
  "client_greeting wrote framesOk t =
     (if wrote = Some (length ClientPreface) \<and> framesOk then (Ok (), t)
      else bindP (cl_Close (ConnE PrefaceFailed False)) (\<lambda>_ t. (Err (ConnE PrefaceFailed False), t)) t)"

end
