(* ===== verification/Http2ClientInv.thy ===== *)
theory Http2ClientInv
  imports Http2Client Http2ServerProps
begin

text \<open>
  The runs of a client transport - frames from the server, calls of the application, calls of \<^verbatim>\<open>NewStream\<close> that wait for
  quota, turns of the writer and timers in any interleaving - and the invariant that every step keeps: well-formed tables,
  the accounting of the stream quota and the shape of each request.
\<close>

section \<open>Runs\<close>

datatype 'd cl_event =
    CFirst "frame + h2err"
  | CRecv bool "frame + (h2err \<times> string option)"
  | CStart callHdr "(gostring \<times> gostring) list"
  | CTry ncall
  | CWake ncall
  | CEnd "'d ctxErr option" ncall
  | CWrite nat "byte list option" "byte list option" bool
  | CResume nat
  | CCloseStream nat "'d cerr option"
  | CContext nat "'d ctxErr"
  | CRequestRead nat u32
  | CRead nat u32
  | CClose "'d cerr"
  | CGraceful
  | CTick "nat \<Rightarrow> 'd ctxErr option"
  | CGreeting "nat option" bool
  | CWriterGet bool
  | CWriterInit nat
  | CWriterCleanup nat
  | CTimer ckParams kpState
  | CWoken ckParams kpState

definition cl_delete :: "nat \<Rightarrow> ('f, 'd) http2Client \<Rightarrow> ('f, 'd) http2Client" where
  "cl_delete a t =
     (case cl_active t of None \<Rightarrow> t | Some m \<Rightarrow> t\<lparr>cl_active := Some (filter (\<lambda>p. fst p \<noteq> x_id (cl_obj t a)) m)\<rparr>)"

definition cl_exec :: "('f, 'd) senv \<Rightarrow> int \<Rightarrow> 'd cl_event \<Rightarrow> ('f, 'd) http2Client \<Rightarrow> (unit, unit) res \<times> ('f, 'd) http2Client" where
  "cl_exec env now ev t =
     (case ev of
        CFirst r \<Rightarrow> done_with (reader_start now r t)
      | CRecv x r \<Rightarrow> done_with (reader_turn env now x r t)
      | CStart ch fs \<Rightarrow> (Ok (), NewStream_start ch fs t)
      | CTry c \<Rightarrow> done_with (NewStream_try c t)
      | CWake c \<Rightarrow> (Ok (), NewStream_wake c t)
      | CEnd ctx c \<Rightarrow> done_with (NewStream_end ctx c t)
      | CWrite a h d l \<Rightarrow> done_with (cl_Write a h d l t)
      | CResume a \<Rightarrow> done_with (Write_resume a t)
      | CCloseStream a e \<Rightarrow> done_with (CloseStream a e t)
      | CContext a e \<Rightarrow> done_with (context_done a e t)
      | CRequestRead a n \<Rightarrow> (Ok (), cl_adjustWindow a n t)
      | CRead a n \<Rightarrow> (Ok (), cl_updateWindow a n t)
      | CClose e \<Rightarrow> done_with (cl_Close e t)
      | CGraceful \<Rightarrow> done_with (GracefulClose t)
      | CTick ctx \<Rightarrow> done_with (Tick ctx t)
      | CGreeting w ok \<Rightarrow> done_with (client_greeting w ok t)
      | CWriterGet b \<Rightarrow> (case cb_get b (cl_ctl t) of (Panic, c) \<Rightarrow> (Panic, t\<lparr>cl_ctl := c\<rparr>) | (_, c) \<Rightarrow> (Ok (), t\<lparr>cl_ctl := c\<rparr>))
      | CWriterInit a \<Rightarrow> done_with (initStream a t)
      | CWriterCleanup a \<Rightarrow> (Ok (), cl_delete a t)
      | CTimer p k \<Rightarrow> done_with (ck_fired p now k t)
      | CWoken p k \<Rightarrow> (Ok (), snd (ck_woken p k t)))"

text \<open>
  The application uses only streams it was given and writes to a stream from one goroutine; a waiting call goes on only
  when a case of its \<^verbatim>\<open>select\<close> is ready.
\<close>

fun cl_can :: "'d cl_event \<Rightarrow> ('f, 'd) http2Client \<Rightarrow> bool" where
  "cl_can (CTry c) t \<longleftrightarrow> c \<in> set (cl_calls t) \<and> n_awake c"
| "cl_can (CWake c) t \<longleftrightarrow> c \<in> set (cl_calls t) \<and> can_wake c t"
| "cl_can (CEnd ctx c) t \<longleftrightarrow> c \<in> set (cl_calls t) \<and> \<not> n_awake c \<and> (ctx \<noteq> None \<or> cl_goAway t \<or> cl_cancelled t)"
| "cl_can (CWrite a h d l) t \<longleftrightarrow> a \<in> set (cl_opened t) \<and> x_writing (cl_obj t a) = None"
| "cl_can (CResume a) t \<longleftrightarrow> a \<in> set (cl_opened t)"
| "cl_can (CCloseStream a e) t \<longleftrightarrow> a \<in> set (cl_opened t)"
| "cl_can (CContext a e) t \<longleftrightarrow> a \<in> set (cl_opened t)"
| "cl_can (CRequestRead a n) t \<longleftrightarrow> a \<in> set (cl_opened t)"
| "cl_can (CRead a n) t \<longleftrightarrow> a \<in> set (cl_opened t)"
| "cl_can (CWriterInit a) t \<longleftrightarrow> a \<in> set (cl_opened t)"
| "cl_can (CWriterCleanup a) t \<longleftrightarrow> a \<in> set (cl_opened t)"
| "cl_can (CTimer p k) t \<longleftrightarrow> cl_keepaliveEnabled t \<and> \<not> cl_kpDormant t"
| "cl_can (CWoken p k) t \<longleftrightarrow> cl_kpDormant t \<and> cl_kpSignalled t"
| "cl_can _ t \<longleftrightarrow> True"

inductive cl_reach :: "('f, 'd) senv \<Rightarrow> ('f, 'd) http2Client \<Rightarrow> bool" for env :: "('f, 'd) senv" where
  Start: "cl_reach env (newHTTP2Client opt est)"
| Step: "cl_reach env t \<Longrightarrow> cl_can ev t \<Longrightarrow> cl_exec env now ev t = (Ok (), t') \<Longrightarrow> cl_reach env t'"

section \<open>Effects of the helpers\<close>

definition cl_accepts :: "('f, 'd) http2Client \<Rightarrow> bool" where
  "cl_accepts t \<longleftrightarrow> cb_err (cl_ctl t) = None"

lemma cl_put_eq:
  "cl_put it t = t\<lparr>cl_ctl := snd (cb_put it (cl_ctl t)), cl_log := (if cl_accepts t then cl_log t @ [it] else cl_log t)\<rparr>"
proof (cases "cb_err (cl_ctl t)")
  case None
  then have "cb_put it (cl_ctl t) = (Ok True, snd (cb_put it (cl_ctl t)))" using cb_put_cases(1)[of it "cl_ctl t"] by simp
  then show ?thesis using None unfolding cl_put_def by (auto simp: cl_accepts_def split: prod.splits)
next
  case (Some e)
  then have "cb_put it (cl_ctl t) = (Err e, cl_ctl t)" using cb_put_cases(1)[of it "cl_ctl t"] by simp
  then show ?thesis using Some unfolding cl_put_def by (simp add: cl_accepts_def)
qed

lemma cl_put_sel [simp]:
  "cl_active (cl_put it t) = cl_active t" "cl_state (cl_put it t) = cl_state t" "cl_nextID (cl_put it t) = cl_nextID t"
  "cl_ids (cl_put it t) = cl_ids t" "cl_fresh (cl_put it t) = cl_fresh t" "cl_opened (cl_put it t) = cl_opened t"
  "cl_calls (cl_put it t) = cl_calls t" "cl_streamQuota (cl_put it t) = cl_streamQuota t"
  "cl_maxConcurrentStreams (cl_put it t) = cl_maxConcurrentStreams t" "cl_kpDormant (cl_put it t) = cl_kpDormant t"
  "cl_keepaliveEnabled (cl_put it t) = cl_keepaliveEnabled t" "cl_obj (cl_put it t) = cl_obj t"
  "cl_token (cl_put it t) = cl_token t" "cl_gen (cl_put it t) = cl_gen t" "cl_waitingStreams (cl_put it t) = cl_waitingStreams t"
  "cl_log (cl_put it t) = (if cl_accepts t then cl_log t @ [it] else cl_log t)" "cl_accepts (cl_put it t) = cl_accepts t"
  "cl_goAway (cl_put it t) = cl_goAway t" "cl_prevGoAwayID (cl_put it t) = cl_prevGoAwayID t" "cl_callbacks (cl_put it t) = cl_callbacks t"
  by (simp_all add: cl_put_eq cl_accepts_def cb_put_cases(2))

lemma upd_sel [simp]:
  "cl_active (upd a f t) = cl_active t" "cl_state (upd a f t) = cl_state t" "cl_nextID (upd a f t) = cl_nextID t"
  "cl_ids (upd a f t) = cl_ids t" "cl_fresh (upd a f t) = cl_fresh t" "cl_opened (upd a f t) = cl_opened t"
  "cl_calls (upd a f t) = cl_calls t" "cl_streamQuota (upd a f t) = cl_streamQuota t"
  "cl_maxConcurrentStreams (upd a f t) = cl_maxConcurrentStreams t" "cl_kpDormant (upd a f t) = cl_kpDormant t"
  "cl_keepaliveEnabled (upd a f t) = cl_keepaliveEnabled t" "cl_obj (upd a f t) = (cl_obj t)(a := f (cl_obj t a))"
  "cl_token (upd a f t) = cl_token t" "cl_gen (upd a f t) = cl_gen t" "cl_waitingStreams (upd a f t) = cl_waitingStreams t"
  "cl_log (upd a f t) = cl_log t" "cl_accepts (upd a f t) = cl_accepts t" "cl_ctl (upd a f t) = cl_ctl t"
  "cl_goAway (upd a f t) = cl_goAway t" "cl_prevGoAwayID (upd a f t) = cl_prevGoAwayID t" "cl_callbacks (upd a f t) = cl_callbacks t"
  by (simp_all add: upd_def cl_accepts_def)

lemma cl_ok_ctl: "cb_ok (cl_ctl t) \<Longrightarrow> cb_ok (cl_ctl (cl_put it t))"
  by (simp add: cl_put_eq cb_ok_put)

section \<open>The invariant\<close>

text \<open>What a client sends on a stream: a header block, data, and data that end the stream.\<close>

datatype req_tag = ReqHeader | ReqData | ReqEnd

fun rtag_of :: "u32 \<Rightarrow> cbItem \<Rightarrow> req_tag list" where
  "rtag_of sid (CbHeader h) = (if hf_streamID h = sid then [ReqHeader] else [])"
| "rtag_of sid (CbData d) = (if df_streamID d = sid then [if df_endStream d then ReqEnd else ReqData] else [])"
| "rtag_of sid _ = []"

definition rtags :: "u32 \<Rightarrow> cbItem list \<Rightarrow> req_tag list" where
  "rtags sid q = concat (map (rtag_of sid) q)"

lemma rtags_simps [simp]: "rtags sid [] = []" "rtags sid (q @ q') = rtags sid q @ rtags sid q'" "rtags sid (x # q) = rtag_of sid x @ rtags sid q"
  by (simp_all add: rtags_def)

definition write_over :: "'d clStream \<Rightarrow> bool" where
  "write_over s \<longleftrightarrow> x_state s = streamWriteDone \<or> x_state s = streamDone"

definition req_at :: "('f, 'd) http2Client \<Rightarrow> nat \<Rightarrow> bool" where
  "req_at t a \<longleftrightarrow>
     (let s = cl_obj t a; ts = rtags (x_id s) (cl_log t) in
      (case x_writing s of
         Some df \<Rightarrow> (\<exists>n. ts = ReqHeader # replicate n ReqData) \<and> df_streamID df = x_id s \<and> (df_endStream df \<longrightarrow> write_over s)
       | None \<Rightarrow> (\<exists>n. ts = ReqHeader # replicate n ReqData) \<or> write_over s \<and> (\<exists>n. ts = ReqHeader # replicate n ReqData @ [ReqEnd])))"

definition req_inv :: "('f, 'd) http2Client \<Rightarrow> bool" where
  "req_inv t \<longleftrightarrow>
     (\<forall>sid. sid \<notin> (\<lambda>a. x_id (cl_obj t a)) ` set (cl_opened t) \<longrightarrow> rtags sid (cl_log t) = [])
     \<and> (\<forall>a\<in>set (cl_opened t). req_at t a)"

definition ids_inv :: "('f, 'd) http2Client \<Rightarrow> bool" where
  "ids_inv t \<longleftrightarrow> unat (cl_nextID t) = 2 * length (cl_ids t) + 1
     \<and> (\<forall>a\<in>set (cl_opened t). x_id (cl_obj t a) < cl_nextID t \<and> x_id (cl_obj t a) mod 2 = 1)
     \<and> sorted_wrt (\<lambda>a b. x_id (cl_obj t a) < x_id (cl_obj t b)) (cl_opened t)"

definition few_ids :: "('f, 'd) http2Client \<Rightarrow> bool" where
  "few_ids t \<longleftrightarrow> length (cl_ids t) < 2 ^ 31"

definition open_streams :: "('f, 'd) http2Client \<Rightarrow> nat list" where
  "open_streams t = filter (\<lambda>a. x_state (cl_obj t a) \<noteq> streamDone) (cl_opened t)"

definition cl_wf :: "('f, 'd) http2Client \<Rightarrow> bool" where
  "cl_wf t \<longleftrightarrow>
     (cl_active t = None \<longleftrightarrow> cl_state t = closing) \<and> distinct (map fst (actives t))
     \<and> (\<forall>(k, a)\<in>set (actives t). x_id (cl_obj t a) = k \<and> a \<in> set (cl_opened t))
     \<and> (\<forall>a\<in>set (cl_opened t). a < cl_fresh t) \<and> distinct (cl_opened t)
     \<and> (\<forall>c\<in>set (cl_calls t). n_stream c < cl_fresh t \<and> n_stream c \<notin> set (cl_opened t)) \<and> distinct (map n_stream (cl_calls t))
     \<and> (\<forall>a. x_done (cl_obj t a) \<longleftrightarrow> x_state (cl_obj t a) = streamDone)
     \<and> (cl_kpDormant t \<longrightarrow> cl_keepaliveEnabled t) \<and> cb_ok (cl_ctl t)"

definition quota_inv :: "('f, 'd) http2Client \<Rightarrow> bool" where
  "quota_inv t \<longleftrightarrow>
     (cl_accepts t \<longrightarrow> (\<forall>c\<in>set (cl_calls t). x_state (cl_obj t (n_stream c)) = streamActive \<and> x_writing (cl_obj t (n_stream c)) = None))
     \<and> (cl_accepts t \<and> cl_state t = reachable \<longrightarrow>
         cl_streamQuota t = uint (cl_maxConcurrentStreams t) - int (length (open_streams t)))"

definition cl_ok :: "('f, 'd) http2Client \<Rightarrow> bool" where
  "cl_ok t \<longleftrightarrow> cl_wf t \<and> quota_inv t \<and> (few_ids t \<longrightarrow> ids_inv t \<and> req_inv t)"

section \<open>Calm steps\<close>

text \<open>Steps that change nothing the invariant speaks about, except that they may shut the control buffer.\<close>

definition calm :: "('f, 'd) http2Client \<Rightarrow> ('f, 'd) http2Client \<Rightarrow> bool" where
  "calm t u \<longleftrightarrow>
     cl_active u = cl_active t \<and> cl_state u = cl_state t \<and> cl_opened u = cl_opened t \<and> cl_calls u = cl_calls t
     \<and> cl_fresh u = cl_fresh t \<and> cl_ids u = cl_ids t \<and> cl_nextID u = cl_nextID t \<and> cl_streamQuota u = cl_streamQuota t
     \<and> cl_maxConcurrentStreams u = cl_maxConcurrentStreams t \<and> cl_keepaliveEnabled u = cl_keepaliveEnabled t
     \<and> (cl_kpDormant u \<longrightarrow> cl_kpDormant t \<or> cl_keepaliveEnabled t) \<and> (cl_accepts u \<longrightarrow> cl_accepts t)
     \<and> (cb_ok (cl_ctl t) \<longrightarrow> cb_ok (cl_ctl u)) \<and> (\<forall>sid. rtags sid (cl_log u) = rtags sid (cl_log t))
     \<and> (\<forall>a. x_id (cl_obj u a) = x_id (cl_obj t a) \<and> x_state (cl_obj u a) = x_state (cl_obj t a)
         \<and> x_done (cl_obj u a) = x_done (cl_obj t a) \<and> x_writing (cl_obj u a) = x_writing (cl_obj t a))"

named_theorems calms

lemma calm_refl [simp]: "calm t t"
  by (simp add: calm_def)

lemma calm_trans: "calm t u \<Longrightarrow> calm u v \<Longrightarrow> calm t v"
  by (auto simp: calm_def)

lemma calm_wf: "calm t u \<Longrightarrow> cl_wf t \<Longrightarrow> cl_wf u"
  unfolding cl_wf_def calm_def actives_def by (elim conjE) auto

lemma calm_req: "calm t u \<Longrightarrow> req_at t a \<Longrightarrow> req_at u a"
  by (cases "x_writing (cl_obj t a)") (simp_all add: req_at_def calm_def write_over_def Let_def)

lemma calm_ok:
  assumes c: "calm t u" and ok: "cl_ok t"
  shows "cl_ok u"
proof -
  have "quota_inv u" using c ok unfolding cl_ok_def quota_inv_def calm_def open_streams_def by auto
  moreover have "ids_inv t \<Longrightarrow> ids_inv u" using c by (simp add: ids_inv_def calm_def)
  moreover have "req_inv t \<Longrightarrow> req_inv u" using c calm_req[OF c] by (auto simp: req_inv_def calm_def)
  moreover have "few_ids u = few_ids t" using c by (simp add: few_ids_def calm_def)
  ultimately show ?thesis using calm_wf[OF c] ok by (simp add: cl_ok_def)
qed

lemma calm_put [calms]: "calm t u \<Longrightarrow> (\<And>sid. rtag_of sid it = []) \<Longrightarrow> calm t (cl_put it u)"
  by (erule calm_trans) (simp add: calm_def cl_ok_ctl)

definition calm_upd :: "('d clStream \<Rightarrow> 'd clStream) \<Rightarrow> bool" where
  "calm_upd f \<longleftrightarrow> (\<forall>s. x_id (f s) = x_id s \<and> x_state (f s) = x_state s \<and> x_done (f s) = x_done s \<and> x_writing (f s) = x_writing s)"

lemma calm_upd [calms]: "calm t u \<Longrightarrow> calm_upd f \<Longrightarrow> calm t (upd a f u)"
  by (erule calm_trans) (simp add: calm_def calm_upd_def)

lemma calm_updI [simp]:
  "calm_upd (\<lambda>s. s\<lparr>x_fc := fc\<rparr>)" "calm_upd (\<lambda>s. s\<lparr>x_buf := g s\<rparr>)" "calm_upd (\<lambda>s. s\<lparr>x_unprocessed := b\<rparr>)"
  "calm_upd (\<lambda>s. s\<lparr>x_bytesReceived := b\<rparr>)" "calm_upd (\<lambda>s. s\<lparr>x_biz := z\<rparr>)" "calm_upd (first_header e d)"
  by (simp_all add: calm_upd_def first_header_def Let_def)

lemma calm_if [calms]: "(P \<Longrightarrow> calm t u) \<Longrightarrow> (\<not> P \<Longrightarrow> calm t v) \<Longrightarrow> calm t (if P then u else v)"
  by simp

lemma calm_fold [calms]: "calm t u \<Longrightarrow> (\<And>x v. calm v (f x v)) \<Longrightarrow> calm t (fold f xs u)"
proof (induction xs arbitrary: u)
  case (Cons x xs)
  have "calm t (f x u)" by (rule calm_trans[OF Cons.prems])
  then show ?case using Cons.IH[of "f x u"] Cons.prems(2) by simp
qed simp

lemma calm_fields [calms]:
  "calm t u \<Longrightarrow> calm t (u\<lparr>cl_fc := v1\<rparr>)" "calm t u \<Longrightarrow> calm t (u\<lparr>cl_lastRead := v2\<rparr>)" "calm t u \<Longrightarrow> calm t (u\<lparr>cl_bdpEst := v3\<rparr>)"
  "calm t u \<Longrightarrow> calm t (u\<lparr>cl_maxSendHeaderListSize := v4\<rparr>)" "calm t u \<Longrightarrow> calm t (u\<lparr>cl_token := v5\<rparr>)"
  "calm t u \<Longrightarrow> calm t (u\<lparr>cl_gen := v6, cl_token := v5\<rparr>)" "calm t u \<Longrightarrow> calm t (u\<lparr>cl_waitingStreams := v7\<rparr>)"
  "calm t u \<Longrightarrow> calm t (u\<lparr>cl_prevGoAwayID := v8\<rparr>)" "calm t u \<Longrightarrow> calm t (u\<lparr>cl_callbacks := v9\<rparr>)"
  "calm t u \<Longrightarrow> calm t (u\<lparr>cl_kpSignalled := v10\<rparr>)" "calm t u \<Longrightarrow> calm t (u\<lparr>cl_kpDormant := False\<rparr>)"
  "calm t u \<Longrightarrow> calm t (u\<lparr>cl_cancelled := v11, cl_connClosed := v12\<rparr>)"
  by (auto simp: calm_def cl_accepts_def)

lemma calm_x_write [calms]: "calm t u \<Longrightarrow> calm t (x_write a m u)"
  unfolding x_write_def by (intro calms) simp_all

lemma calm_window [calms]:
  "calm t u \<Longrightarrow> calm t (cl_adjustWindow a n u)" "calm t u \<Longrightarrow> calm t (cl_updateWindow a n u)"
  unfolding cl_adjustWindow_def cl_updateWindow_def cl_window_def Let_def by (intro calms; simp)+

lemma cl_executeAndPut_cases:
  "cl_executeAndPut f t =
     (if \<not> cl_accepts t then (Err (BufferE (the (cb_err (cl_ctl t)))), t)
      else case f t of (Some it, t) \<Rightarrow> (Ok True, cl_put it t) | (None, t) \<Rightarrow> (Ok False, t))"
  by (auto simp: cl_executeAndPut_def cl_accepts_def split: option.splits)

lemma calm_updateFlowControl [calms]:
  assumes "calm t u"
  shows "calm t (cl_updateFlowControl n u)"
proof -
  have "calm v (v\<lparr>cl_initialWindowSize := n, cl_obj := (\<lambda>a. if a \<in> snd ` set (actives v)
      then (cl_obj v a)\<lparr>x_fc := fl_newLimit n (x_fc (cl_obj v a))\<rparr> else cl_obj v a)\<rparr>)" for v :: "('a, 'b) http2Client"
    by (simp add: calm_def cl_accepts_def)
  then have "calm t (v\<lparr>cl_initialWindowSize := n, cl_obj := (\<lambda>a. if a \<in> snd ` set (actives v)
      then (cl_obj v a)\<lparr>x_fc := fl_newLimit n (x_fc (cl_obj v a))\<rparr> else cl_obj v a)\<rparr>)" if "calm t v" for v
    by (rule calm_trans[OF that])
  then have "calm t (snd (cl_executeAndPut (\<lambda>t. (Some (CbOutgoingWindowUpdate 0 w), t\<lparr>cl_initialWindowSize := n,
      cl_obj := (\<lambda>a. if a \<in> snd ` set (actives t) then (cl_obj t a)\<lparr>x_fc := fl_newLimit n (x_fc (cl_obj t a))\<rparr> else cl_obj t a)\<rparr>)) v))"
    if "calm t v" for v w unfolding cl_executeAndPut_cases using that by (simp add: calm_put)
  then show ?thesis unfolding cl_updateFlowControl_def Let_def using assms by (intro calm_put) (simp_all add: calms)
qed

lemma calm_bdp_on_data [calms]: "calm t u \<Longrightarrow> calm t (snd (cl_bdp_on_data now n u))"
  by (auto simp: cl_bdp_on_data_def split: option.splits prod.splits intro: calms)

lemma calm_conn_window [calms]: "calm t u \<Longrightarrow> calm t (cl_conn_window b n u)"
  unfolding cl_conn_window_def Let_def by (intro calms) simp_all

lemma calm_handlePing [calms]: "calm t u \<Longrightarrow> calm t (cl_handlePing env now ack data u)"
  unfolding cl_handlePing_def cl_bdp_on_ack_def Let_def by (auto split: option.split prod.split intro!: calms)

lemma calm_read_at [calms]: "calm t u \<Longrightarrow> calm t (read_at now u)"
  unfolding read_at_def by (intro calms)

lemma calm_offer [calms]: "calm t u \<Longrightarrow> calm t (offer_quota u)"
  unfolding offer_quota_def by (intro calms)

lemma calm_kp_signal:
  assumes "cl_wf t"
  shows "\<exists>u. kp_signal t = (Ok (), u) \<and> calm t u"
  using assms by (auto simp: kp_signal_def cl_wf_def intro: calms)

lemma calm_writer:
  assumes "cb_get b (cl_ctl t) = (r, c)"
  shows "calm t (t\<lparr>cl_ctl := c\<rparr>)"
proof -
  have "cb_err c = cb_err (cl_ctl t)"
    using assms by (auto simp: cb_get_def Let_def split: option.splits if_splits prod.splits)
  then show ?thesis using cb_ok_get[OF _ assms] by (simp add: calm_def cl_accepts_def)
qed

section \<open>Ending a stream\<close>

definition ends :: "('d clStream \<Rightarrow> 'd clStream) \<Rightarrow> bool" where
  "ends f \<longleftrightarrow> (\<forall>s. x_id (f s) = x_id s \<and> x_state (f s) = streamDone \<and> x_done (f s) \<and> x_writing (f s) = x_writing s)"

lemma open_streams_end:
  assumes "distinct (cl_opened t)" "a \<in> set (cl_opened t)" "x_state (cl_obj t a) \<noteq> streamDone" "ends f"
  shows "int (length (open_streams (upd a f t))) = int (length (open_streams t)) - 1"
proof -
  have "open_streams (upd a f t) = filter (\<lambda>b. b \<noteq> a) (open_streams t)"
    unfolding open_streams_def using assms(4) by (auto simp: ends_def intro: filter_cong)
  moreover have "filter (\<lambda>b. b \<noteq> a) (open_streams t) = remove1 a (open_streams t)"
    using distinct_remove1_removeAll[of "open_streams t" a] assms(1)
    by (simp add: open_streams_def removeAll_filter_not_eq eq_commute[of a])
  moreover have a: "a \<in> set (open_streams t)" using assms(2,3) by (simp add: open_streams_def)
  ultimately have "length (open_streams (upd a f t)) = length (open_streams t) - 1" by (simp add: length_remove1)
  moreover have "0 < length (open_streams t)" using a by (rule length_pos_if_in_set)
  ultimately show ?thesis by linarith
qed

lemma ends_wf: "cl_wf t \<Longrightarrow> ends f \<Longrightarrow> cl_wf (upd a f t)"
  unfolding cl_wf_def actives_def by (auto simp: ends_def)

lemma ends_req: "ends f \<Longrightarrow> req_at t b \<Longrightarrow> req_at (upd a f t) b"
  by (cases "x_writing (cl_obj t b)") (auto simp: req_at_def ends_def write_over_def Let_def)

text \<open>Marking a stream as done; if the transport is in use, its quota comes back.\<close>

lemma ok_end:
  assumes ok: "cl_ok t" and f: "ends f" and a: "cl_accepts t \<Longrightarrow> a \<in> set (cl_opened t)"
    and q: "cl_accepts t \<Longrightarrow> cl_state t = reachable \<Longrightarrow> x_state (cl_obj t a) \<noteq> streamDone \<and> q = cl_streamQuota t + 1"
  shows "cl_ok ((upd a f t)\<lparr>cl_streamQuota := q\<rparr>)" (is "cl_ok ?u")
proof -
  have wf: "cl_wf t" using ok by (simp add: cl_ok_def)
  have wf': "cl_wf ?u" using ends_wf[OF wf f, of a] by (simp add: cl_wf_def actives_def)
  have os: "open_streams ?u = open_streams (upd a f t)" by (simp add: open_streams_def)
  have acc: "cl_accepts ?u = cl_accepts t" by (simp add: cl_accepts_def)
  have "a \<noteq> n_stream c" if "cl_accepts t" "c \<in> set (cl_calls t)" for c using wf a[OF that(1)] that(2) by (auto simp: cl_wf_def)
  moreover have "distinct (cl_opened t)" using wf by (simp add: cl_wf_def)
  ultimately have "quota_inv ?u"
    using ok a q open_streams_end[of t a f] f unfolding cl_ok_def quota_inv_def acc os by (auto simp del: upd_sel(12) simp: upd_def)
  moreover have "few_ids ?u = few_ids t" by (simp add: few_ids_def)
  moreover have "x_id (cl_obj ?u b) = x_id (cl_obj t b)" for b using f by (simp add: ends_def)
  then have "ids_inv t \<Longrightarrow> ids_inv ?u" unfolding ids_inv_def by simp
  moreover have "req_inv ?u" if "req_inv t"
  proof -
    have "req_at ?u b" if "req_at t b" for b using ends_req[OF f that, of a] by (simp add: req_at_def)
    then show ?thesis using that f by (auto simp: req_inv_def ends_def image_iff split: if_splits)
  qed
  ultimately show ?thesis using wf' ok by (simp add: cl_ok_def)
qed

lemma ends_finish: "ends (\<lambda>s. (finish_stream err st reuse mdata (s\<lparr>x_state := streamDone\<rparr>))\<lparr>x_done := True\<rparr>)"
  by (auto simp: ends_def finish_stream_def Let_def split: option.splits)

lemma upd_put: "upd a f (cl_put it t) = cl_put it (upd a f t)"
  by (simp add: cl_put_eq upd_def cl_accepts_def)

lemma finish_sel [simp]:
  "x_id (finish_stream err st reuse mdata s) = x_id s" "x_done (finish_stream err st reuse mdata s) = x_done s"
  "x_state (finish_stream err st reuse mdata s) = x_state s"
  by (auto simp: finish_stream_def Let_def split: option.splits)

definition closed :: "nat \<Rightarrow> 'd cerr option \<Rightarrow> bool \<Rightarrow> u32 \<Rightarrow> 'd cstatus option \<Rightarrow> bool \<Rightarrow> (gostring \<rightharpoonup> gostring list) \<Rightarrow>
    ('f, 'd) http2Client \<Rightarrow> ('f, 'd) http2Client" where
  "closed a err rst code st reuse mdata t =
     (let u = upd a (\<lambda>s. (finish_stream err st reuse mdata (s\<lparr>x_state := streamDone\<rparr>))\<lparr>x_done := True\<rparr>) t
      in if cl_accepts t
         then cl_put (CbCleanup \<lparr>cs_streamID = x_id (cl_obj t a), cs_rst = rst, cs_rstCode = code\<rparr>) (addBackStreamQuota u) else u)"

lemma addBack_upd: "addBackStreamQuota (upd a f t) = upd a f (addBackStreamQuota t)"
  by (simp add: addBackStreamQuota_def offer_quota_def upd_def)

lemma addBack_sel [simp]: "cl_obj (addBackStreamQuota t) = cl_obj t" "cl_accepts (addBackStreamQuota t) = cl_accepts t"
  "cl_opened (addBackStreamQuota t) = cl_opened t" "cl_active (addBackStreamQuota t) = cl_active t"
  "cl_state (addBackStreamQuota t) = cl_state t" "cl_log (addBackStreamQuota t) = cl_log t" "cl_ctl (addBackStreamQuota t) = cl_ctl t"
  by (simp_all add: addBackStreamQuota_def offer_quota_def cl_accepts_def)

lemma upd_upd: "upd a f (upd a g t) = upd a (\<lambda>s. f (g s)) t"
  by (simp add: upd_def)

lemma doCloseStream_eq:
  assumes "\<not> x_done (cl_obj t a)"
  shows "doCloseStream a err rst code st reuse mdata (upd a (\<lambda>s. s\<lparr>x_state := streamDone\<rparr>) t) = (Ok (), closed a err rst code st reuse mdata t)"
proof -
  have "cl_accepts (upd a f t) = cl_accepts t" for f by simp
  then show ?thesis using assms
    by (simp add: doCloseStream_def closed_def cl_executeAndPut_cases close_done_def Let_def upd_put addBack_upd upd_upd)
qed

lemma cl_closeStream_eq:
  assumes "cl_wf t"
  shows "cl_closeStream a err rst code st mdata t =
    (Ok (), if x_state (cl_obj t a) = streamDone then t else closed a err rst code st False mdata t)"
proof -
  have "x_done (cl_obj t a) \<longleftrightarrow> x_state (cl_obj t a) = streamDone" using assms by (simp add: cl_wf_def)
  then show ?thesis using doCloseStream_eq[of t a] by (simp add: cl_closeStream_def)
qed

lemma closed_ok:
  assumes ok: "cl_ok t" and a: "cl_accepts t \<Longrightarrow> a \<in> set (cl_opened t)" and s: "x_state (cl_obj t a) \<noteq> streamDone"
  shows "cl_ok (closed a err rst code st reuse mdata t)"
proof -
  let ?f = "\<lambda>s. (finish_stream err st reuse mdata (s\<lparr>x_state := streamDone\<rparr>))\<lparr>x_done := True\<rparr>"
  show ?thesis
  proof (cases "cl_accepts t")
    case True
    have "cl_ok ((upd a ?f t)\<lparr>cl_streamQuota := cl_streamQuota t + 1\<rparr>)" by (rule ok_end[OF ok ends_finish]) (use a s in auto)
    moreover have "calm ((upd a ?f t)\<lparr>cl_streamQuota := cl_streamQuota t + 1\<rparr>) (closed a err rst code st reuse mdata t)"
      using True unfolding closed_def Let_def addBackStreamQuota_def by (auto intro!: calms)
    ultimately show ?thesis using calm_ok by blast
  next
    case False
    have "cl_ok ((upd a ?f t)\<lparr>cl_streamQuota := cl_streamQuota t\<rparr>)" by (rule ok_end[OF ok ends_finish]) (use False in auto)
    then show ?thesis using False by (simp add: closed_def upd_def)
  qed
qed

text \<open>Every caller of \<^verbatim>\<open>closeStream\<close> keeps the invariant, and closing never panics.\<close>

lemma closeStream_ok:
  assumes "cl_ok t" "cl_accepts t \<Longrightarrow> a \<in> set (cl_opened t)" "cl_closeStream a err rst code st mdata t = (r, u)"
  shows "r = Ok () \<and> cl_ok u \<and> cl_opened u = cl_opened t \<and> (cl_accepts u \<longleftrightarrow> cl_accepts t) \<and> cl_state u = cl_state t"
proof -
  have "cl_wf t" using assms(1) by (simp add: cl_ok_def)
  from cl_closeStream_eq[OF this, of a err rst code st mdata] assms(3)
  have r: "r = Ok ()" and u: "u = (if x_state (cl_obj t a) = streamDone then t else closed a err rst code st False mdata t)" by auto
  have "cl_opened (closed a err rst code st False mdata t) = cl_opened t"
    "cl_accepts (closed a err rst code st False mdata t) = cl_accepts t"
    "cl_state (closed a err rst code st False mdata t) = cl_state t" by (simp_all add: closed_def Let_def)
  then show ?thesis using closed_ok[OF assms(1,2)] assms(1) by (auto simp: r u)
qed

lemma cleanup_ok:
  assumes "cl_ok t" "\<not> cl_accepts t \<or> cl_state t \<noteq> reachable \<and> a \<in> set (cl_opened t)" "cl_cleanup a e t = (r, u)"
  shows "r = Ok () \<and> cl_ok u \<and> cl_opened u = cl_opened t \<and> (cl_accepts u \<longleftrightarrow> cl_accepts t) \<and> cl_state u = cl_state t"
proof (cases "x_state (cl_obj t a) = streamDone")
  case True then show ?thesis using assms by (simp add: cl_cleanup_def)
next
  case False
  let ?f = "\<lambda>s. s\<lparr>x_state := streamDone, x_unprocessed := True, x_buf := rb_put (RFail e) (x_buf s), x_done := True, x_headerChanClosed := True\<rparr>"
  have "\<not> x_done (cl_obj t a)" using False assms(1) by (simp add: cl_ok_def cl_wf_def)
  then have "r = Ok () \<and> u = upd a ?f t" using False assms(3) by (simp add: cl_cleanup_def bindP_def close_done_def upd_def)
  moreover have "cl_ok ((upd a ?f t)\<lparr>cl_streamQuota := cl_streamQuota t\<rparr>)"
    by (rule ok_end[OF assms(1)]) (use assms(2) in \<open>auto simp: ends_def\<close>)
  then have "cl_ok (upd a ?f t)" by (simp add: upd_def)
  ultimately show ?thesis by simp
qed

text \<open>A rule of the form of \<open>closeStream_ok\<close> for a list of streams.\<close>

definition keeps :: "('f, 'd) http2Client \<Rightarrow> ('f, 'd) http2Client \<Rightarrow> bool" where
  "keeps t u \<longleftrightarrow> cl_ok u \<and> cl_opened u = cl_opened t \<and> (cl_accepts u \<longleftrightarrow> cl_accepts t) \<and> cl_state u = cl_state t"

lemma keeps_trans: "keeps t u \<Longrightarrow> keeps u v \<Longrightarrow> keeps t v"
  by (auto simp: keeps_def)

lemma closeStream_keeps:
  "cl_ok t \<Longrightarrow> (cl_accepts t \<Longrightarrow> a \<in> set (cl_opened t)) \<Longrightarrow> \<exists>u. cl_closeStream a err rst code st mdata t = (Ok (), u) \<and> keeps t u"
proof -
  assume a: "cl_ok t" "cl_accepts t \<Longrightarrow> a \<in> set (cl_opened t)"
  obtain r u where c: "cl_closeStream a err rst code st mdata t = (r, u)" by (cases "cl_closeStream a err rst code st mdata t")
  show ?thesis using closeStream_ok[OF a c] c by (simp add: keeps_def)
qed

lemma cl_cleanup_keeps:
  "cl_ok t \<Longrightarrow> \<not> cl_accepts t \<or> cl_state t \<noteq> reachable \<and> a \<in> set (cl_opened t) \<Longrightarrow> \<exists>u. cl_cleanup a e t = (Ok (), u) \<and> keeps t u"
proof -
  assume a: "cl_ok t" "\<not> cl_accepts t \<or> cl_state t \<noteq> reachable \<and> a \<in> set (cl_opened t)"
  obtain r u where c: "cl_cleanup a e t = (r, u)" by (cases "cl_cleanup a e t")
  show ?thesis using cleanup_ok[OF a c] c by (simp add: keeps_def)
qed

lemma close_all_keeps:
  "cl_ok t \<Longrightarrow> \<not> cl_accepts t \<Longrightarrow> \<exists>u. close_all e as t = (Ok (), u) \<and> keeps t u"
proof (induction as arbitrary: t)
  case (Cons a as)
  obtain u where u: "cl_closeStream a (Some e) False 0 (Some (new_status code_Unavailable (MsgText ''transport is closing''))) Map.empty t = (Ok (), u)"
      "keeps t u" using closeStream_keeps[OF Cons.prems(1), of a] Cons.prems(2) by blast
  have "cl_ok u" "\<not> cl_accepts u" using u(2) Cons.prems(2) by (simp_all add: keeps_def)
  from Cons.IH[OF this] obtain v where "close_all e as u = (Ok (), v)" "keeps u v" by blast
  then show ?case using u(1) keeps_trans[OF u(2)] by (simp add: bindP_def)
qed (simp add: keeps_def)

lemma cleanup_all_keeps:
  "cl_ok t \<Longrightarrow> \<not> cl_accepts t \<Longrightarrow> \<exists>u. cleanup_all e hs t = (Ok (), u) \<and> keeps t u"
proof (induction hs arbitrary: t)
  case (Cons h hs)
  show ?case
  proof (cases "map_of (cl_ids t) (hf_streamID h)")
    case None then show ?thesis using Cons by simp
  next
    case (Some a)
    obtain u where u: "cl_cleanup a e t = (Ok (), u)" "keeps t u" using cl_cleanup_keeps[OF Cons.prems(1)] Cons.prems(2) by blast
    have "cl_ok u" "\<not> cl_accepts u" using u(2) Cons.prems(2) by (simp_all add: keeps_def)
    from Cons.IH[OF this] obtain v where "cleanup_all e hs u = (Ok (), v)" "keeps u v" by blast
    then show ?thesis using u(1) keeps_trans[OF u(2)] Some by (simp add: bindP_def)
  qed
qed (simp add: keeps_def)

lemma drain_all_keeps:
  "cl_ok t \<Longrightarrow> set as \<subseteq> set (cl_opened t) \<Longrightarrow> \<exists>u. drain_all as t = (Ok (), u) \<and> keeps t u"
proof (induction as arbitrary: t)
  case (Cons a as)
  have "a \<in> set (cl_opened t)" using Cons.prems(2) by simp
  then obtain u where u: "cl_closeStream a (Some errStreamDrain) False 0 (Some statusGoAway) Map.empty t = (Ok (), u)" "keeps t u"
    using closeStream_keeps[OF Cons.prems(1), of a] by blast
  have "cl_ok u" "set as \<subseteq> set (cl_opened u)" using u(2) Cons.prems(2) by (simp_all add: keeps_def)
  from Cons.IH[OF this] obtain v where "drain_all as u = (Ok (), v)" "keeps u v" by blast
  then show ?case using u(1) keeps_trans[OF u(2)] by (simp add: bindP_def)
qed (simp add: keeps_def)

lemma tick_all_keeps:
  "cl_ok t \<Longrightarrow> set as \<subseteq> set (cl_opened t) \<Longrightarrow> \<exists>u. tick_all ctx as t = (Ok (), u) \<and> keeps t u"
proof (induction as arbitrary: t)
  case (Cons a as)
  show ?case
  proof (cases "ctx a = None \<or> x_state (cl_obj t a) = streamDone")
    case True then show ?thesis using Cons by (auto split: option.splits)
  next
    case False
    then obtain e where e: "ctx a = Some e" "x_state (cl_obj t a) \<noteq> streamDone" by (cases "ctx a") auto
    obtain st reuse err where c: "contextStatusAndErr (tryMarkAsCascadeCancel e) = (st, reuse, err)"
      by (cases "contextStatusAndErr (tryMarkAsCascadeCancel e)")
    let ?u = "closed a (Some err) True ErrCodeCancel (Some st) reuse Map.empty t"
    have "\<not> x_done (cl_obj t a)" using e(2) Cons.prems(1) by (simp add: cl_ok_def cl_wf_def)
    note d = doCloseStream_eq[OF this, of "Some err" True ErrCodeCancel "Some st" reuse Map.empty]
    have k: "keeps t ?u" unfolding keeps_def using closed_ok[OF Cons.prems(1) _ e(2)] Cons.prems(2) by (simp add: closed_def Let_def)
    then have "cl_ok ?u" "set as \<subseteq> set (cl_opened ?u)" using Cons.prems(2) by (simp_all add: keeps_def)
    from Cons.IH[OF this] obtain v where "tick_all ctx as ?u = (Ok (), v)" "keeps ?u v" by blast
    then show ?thesis using e c d keeps_trans[OF k] by (simp add: bindP_def)
  qed
qed (simp add: keeps_def)

section \<open>Closing the transport\<close>

definition fine :: "('e, 'a) res \<times> ('f, 'd) http2Client \<Rightarrow> bool" where
  "fine p \<longleftrightarrow> cl_ok (snd p) \<and> fst p \<noteq> Panic \<and> fst p \<noteq> Diverge"

lemma fine_Ok [simp]: "fine (Ok x, t) \<longleftrightarrow> cl_ok t" "fine (Err e, t) \<longleftrightarrow> cl_ok t"
  by (simp_all add: fine_def)

lemma keeps_fine: "\<exists>u. p = (Ok (), u) \<and> keeps t u \<Longrightarrow> fine p"
  by (auto simp: keeps_def)

lemma shut_ok: "cl_ok t \<Longrightarrow> cl_ok (t\<lparr>cl_state := closing, cl_active := None\<rparr>)"
  unfolding cl_ok_def cl_wf_def quota_inv_def ids_inv_def req_inv_def req_at_def few_ids_def cl_accepts_def actives_def by simp

lemma draining_ok: "cl_ok t \<Longrightarrow> cl_state t \<noteq> closing \<Longrightarrow> cl_ok (t\<lparr>cl_state := draining\<rparr>)"
  unfolding cl_ok_def cl_wf_def quota_inv_def ids_inv_def req_inv_def req_at_def few_ids_def cl_accepts_def actives_def by simp

lemma calm_goAway [calms]: "calm t u \<Longrightarrow> calm t (u\<lparr>cl_goAwayReason := r, cl_goAway := b\<rparr>)"
  by (auto simp: calm_def cl_accepts_def)

lemma finish_calm:
  assumes "cb_finish e (cl_ctl t) = (x, hs, c)"
  shows "calm t (t\<lparr>cl_ctl := c\<rparr>)" "\<not> cl_accepts (t\<lparr>cl_ctl := c\<rparr>)"
proof -
  have "cb_err c \<noteq> None" using assms by (auto simp: cb_finish_def split: option.splits prod.splits)
  then show "calm t (t\<lparr>cl_ctl := c\<rparr>)" "\<not> cl_accepts (t\<lparr>cl_ctl := c\<rparr>)" by (auto simp: calm_def cl_accepts_def cb_ok_def)
qed

lemma Close_ok:
  assumes "cl_ok t"
  shows "\<exists>u. cl_Close e t = (Ok (), u) \<and> cl_ok u \<and> cl_opened u = cl_opened t \<and> cl_state u = closing"
proof (cases "cl_state t = closing")
  case True then show ?thesis using assms by (simp add: cl_Close_def)
next
  case False
  define t1 where "t1 = t\<lparr>cl_state := closing, cl_active := None\<rparr>"
  have 1: "cl_ok t1" unfolding t1_def by (rule shut_ok[OF assms])
  then obtain t2 where 2: "kp_signal t1 = (Ok (), t2)" "calm t1 t2" using calm_kp_signal[of t1] by (auto simp: cl_ok_def)
  let ?t3 = "t2\<lparr>cl_callbacks := cl_callbacks t2 @ [OnClose e]\<rparr>"
  obtain x hs c where c: "cb_finish (CbErr (conn_text e)) (cl_ctl ?t3) = (x, hs, c)" by (metis prod_cases3)
  have 3: "calm t1 ?t3" by (intro calms 2(2))
  have 4: "calm t1 (?t3\<lparr>cl_ctl := c\<rparr>)" by (rule calm_trans[OF 3 finish_calm(1)[OF c]])
  note n = finish_calm(2)[OF c]
  obtain t5 where 5: "cleanup_all e hs (?t3\<lparr>cl_ctl := c\<rparr>) = (Ok (), t5)" "keeps (?t3\<lparr>cl_ctl := c\<rparr>) t5"
    using cleanup_all_keeps[OF calm_ok[OF 4 1] n] by blast
  let ?t6 = "t5\<lparr>cl_cancelled := True, cl_connClosed := True\<rparr>"
  have "calm t5 ?t6" by (intro calms) simp
  then have 6: "cl_ok ?t6" "\<not> cl_accepts ?t6" using 5(2) n calm_ok[of t5] by (auto simp: keeps_def cl_accepts_def)
  obtain t7 where 7: "close_all e (map snd (actives t)) ?t6 = (Ok (), t7)" "keeps ?t6 t7" using close_all_keeps[OF 6] by blast
  have "cl_Close e t = (Ok (), t7)" using False 2(1) 5(1) 7(1) c by (simp add: cl_Close_def Let_def bindP_def t1_def)
  moreover have "cl_opened t7 = cl_opened t" "cl_state t7 = closing"
    using 4 5(2) 7(2) by (simp_all add: keeps_def calm_def t1_def)
  ultimately show ?thesis using 7(2) by (simp add: keeps_def)
qed

lemma Close_fine: "cl_ok t \<Longrightarrow> fine (cl_Close e t)"
  using Close_ok[of t e] by auto

lemma GracefulClose_fine:
  assumes "cl_ok t"
  shows "fine (GracefulClose t)"
proof (cases "cl_state t = reachable")
  case True
  let ?u = "t\<lparr>cl_state := draining\<rparr>"
  have u: "cl_ok ?u" by (rule draining_ok[OF assms]) (simp add: True)
  have "calm ?u (cl_put CbIncomingGoAway ?u)" by (intro calms) simp_all
  from calm_ok[OF this u] show ?thesis using Close_fine[OF u] True by (simp add: GracefulClose_def Let_def)
next
  case False
  then have "cl_state t = draining \<or> cl_state t = closing" by (cases "cl_state t") simp_all
  then show ?thesis using assms by (simp add: GracefulClose_def)
qed

lemma active_opened: "cl_wf t \<Longrightarrow> (k, a) \<in> set (actives t) \<Longrightarrow> a \<in> set (cl_opened t) \<and> x_id (cl_obj t a) = k"
  unfolding cl_wf_def by auto

lemma getStream_opened: "cl_wf t \<Longrightarrow> cl_getStream sid t = Some a \<Longrightarrow> a \<in> set (cl_opened t)"
  using active_opened[of t sid a] map_of_SomeD[of "actives t" sid a] by (auto simp: cl_getStream_def)

lemma goAway_fine:
  assumes "cl_ok t"
  shows "fine (goAway_streams i b t)"
proof -
  let ?as = "\<lambda>up. map snd (filter (\<lambda>(k, a). k > i \<and> k \<le> up) (actives t))"
  let ?t1 = "t\<lparr>cl_prevGoAwayID := i\<rparr>"
  let ?n = "\<lambda>t. if b then t\<lparr>cl_callbacks := cl_callbacks t @ [OnGoAway (cl_goAwayReason t)]\<rparr> else t"
  have "calm t (?n ?t1)" by (intro calms) simp_all
  then have 1: "cl_ok (?n ?t1)" using calm_ok assms by blast
  have c: "calm t (?n (fold (\<lambda>a. upd a (\<lambda>s. s\<lparr>x_unprocessed := True\<rparr>)) as ?t1))" (is "calm t (?v as)") for as
    by (intro calms) simp_all
  then have 2: "cl_ok (?v as)" for as using calm_ok assms by blast
  have 3: "set (?as up) \<subseteq> set (cl_opened (?v as))" for up as
    using active_opened[of t] c[of as] assms by (auto simp: cl_ok_def calm_def)
  have "fine (drain_all (?as up) (?v as))" for up as by (rule keeps_fine[OF drain_all_keeps[OF 2 3]])
  then show ?thesis using Close_fine[OF 1] unfolding goAway_streams_def Let_def by (simp add: actives_def)
qed

lemma handleGoAway_fine:
  assumes "cl_ok t"
  shows "fine (handleGoAway lastID code debug t)"
proof -
  let ?u = "t\<lparr>cl_goAwayReason := setGoAwayReason code debug, cl_goAway := True\<rparr>"
  have "calm t ?u" by (intro calms) simp
  then have u: "cl_ok ?u" using calm_ok assms by blast
  have g: "fine (bindP (goAway_streams lastID b) (\<lambda>_ t. (Ok (), cl_put CbIncomingGoAway t)) (?u\<lparr>cl_state := draining\<rparr>))"
    if "cl_state t \<noteq> closing" for b
  proof -
    have "cl_ok (?u\<lparr>cl_state := draining\<rparr>)" by (rule draining_ok[OF u]) (use that in simp)
    from goAway_fine[OF this, of lastID b] show ?thesis
      by (auto simp: bindP_def fine_def split: prod.splits res.splits intro!: calm_ok[OF calm_put[OF calm_refl]])
  qed
  show ?thesis using g Close_fine[OF assms] goAway_fine[OF assms] assms unfolding handleGoAway_def Let_def by auto
qed

section \<open>Steps on one stream\<close>

text \<open>Steps that touch one open stream and the items of its id.\<close>

definition on_stream :: "nat \<Rightarrow> ('f, 'd) http2Client \<Rightarrow> ('f, 'd) http2Client \<Rightarrow> bool" where
  "on_stream a t u \<longleftrightarrow>
     cl_active u = cl_active t \<and> cl_state u = cl_state t \<and> cl_opened u = cl_opened t \<and> cl_calls u = cl_calls t
     \<and> cl_fresh u = cl_fresh t \<and> cl_ids u = cl_ids t \<and> cl_nextID u = cl_nextID t \<and> cl_streamQuota u = cl_streamQuota t
     \<and> cl_maxConcurrentStreams u = cl_maxConcurrentStreams t \<and> cl_keepaliveEnabled u = cl_keepaliveEnabled t
     \<and> cl_kpDormant u = cl_kpDormant t \<and> cl_accepts u = cl_accepts t \<and> (cb_ok (cl_ctl t) \<longrightarrow> cb_ok (cl_ctl u))
     \<and> (few_ids t \<longrightarrow> (\<forall>sid. sid \<noteq> x_id (cl_obj t a) \<longrightarrow> rtags sid (cl_log u) = rtags sid (cl_log t)))
     \<and> (\<forall>b. b \<noteq> a \<longrightarrow> cl_obj u b = cl_obj t b) \<and> x_id (cl_obj u a) = x_id (cl_obj t a)
     \<and> x_done (cl_obj u a) = x_done (cl_obj t a)
     \<and> (x_state (cl_obj u a) = streamDone \<longleftrightarrow> x_state (cl_obj t a) = streamDone)"

lemma on_stream_id: "on_stream a t u \<Longrightarrow> x_id (cl_obj u b) = x_id (cl_obj t b)"
  by (cases "b = a") (auto simp: on_stream_def)

lemma on_stream_done: "on_stream a t u \<Longrightarrow>
  x_done (cl_obj u b) = x_done (cl_obj t b) \<and> (x_state (cl_obj u b) = streamDone \<longleftrightarrow> x_state (cl_obj t b) = streamDone)"
  by (cases "b = a") (auto simp: on_stream_def)

lemma ids_distinct:
  assumes "ids_inv t" "a \<in> set (cl_opened t)" "b \<in> set (cl_opened t)" "a \<noteq> b"
  shows "x_id (cl_obj t a) \<noteq> x_id (cl_obj t b)"
proof -
  obtain i j where ij: "i < length (cl_opened t)" "j < length (cl_opened t)" "a = cl_opened t ! i" "b = cl_opened t ! j"
    using assms(2,3) by (metis in_set_conv_nth)
  have s: "sorted_wrt (\<lambda>a b. x_id (cl_obj t a) < x_id (cl_obj t b)) (cl_opened t)" using assms(1) by (simp add: ids_inv_def)
  have "i < j \<or> j < i" using ij assms(4) by (metis nat_neq_iff)
  then show ?thesis using ij sorted_wrt_nth_less[OF s] by fastforce
qed

lemma on_stream_wf: "on_stream a t u \<Longrightarrow> cl_wf t \<Longrightarrow> cl_wf u"
proof -
  assume o: "on_stream a t u" and wf: "cl_wf t"
  have "actives u = actives t" using o by (simp add: on_stream_def actives_def)
  then show ?thesis using wf o on_stream_id[OF o] on_stream_done[OF o] unfolding cl_wf_def by (simp add: on_stream_def)
qed

lemma on_stream_ok:
  assumes o: "on_stream a t u" and ok: "cl_ok t" and a: "a \<in> set (cl_opened t)"
    and r: "few_ids t \<Longrightarrow> req_at t a \<Longrightarrow> req_at u a"
  shows "cl_ok u"
proof -
  have "n_stream c \<noteq> a" if "c \<in> set (cl_calls t)" for c using ok a that by (auto simp: cl_ok_def cl_wf_def)
  then have n: "cl_obj u (n_stream c) = cl_obj t (n_stream c)" if "c \<in> set (cl_calls t)" for c using o that by (simp add: on_stream_def)
  have "open_streams u = open_streams t" using o on_stream_done[OF o] by (simp add: open_streams_def on_stream_def)
  then have q: "quota_inv u" using ok o n by (simp add: cl_ok_def quota_inv_def on_stream_def)
  have f: "few_ids u = few_ids t" using o by (simp add: few_ids_def on_stream_def)
  have i: "ids_inv u" if "ids_inv t" using that o on_stream_id[OF o] by (simp add: ids_inv_def on_stream_def)
  have "req_inv u" if i: "ids_inv t" and q: "req_inv t" and f: "few_ids t"
  proof -
    have "req_at u b" if b: "b \<in> set (cl_opened t)" for b
    proof (cases "b = a")
      case True then show ?thesis using r[OF f] q a by (simp add: req_inv_def)
    next
      case False
      then have "x_id (cl_obj t b) \<noteq> x_id (cl_obj t a)" using ids_distinct[OF i a b] by simp
      then have "rtags (x_id (cl_obj t b)) (cl_log u) = rtags (x_id (cl_obj t b)) (cl_log t)" "cl_obj u b = cl_obj t b"
        using o False f by (simp_all add: on_stream_def)
      then show ?thesis using q b by (simp add: req_inv_def req_at_def)
    qed
    moreover have "rtags sid (cl_log u) = []" if "sid \<notin> (\<lambda>a. x_id (cl_obj t a)) ` set (cl_opened t)" for sid
    proof -
      have "sid \<noteq> x_id (cl_obj t a)" using that a by auto
      then show ?thesis using o q that f by (simp add: on_stream_def req_inv_def)
    qed
    ultimately show ?thesis using o on_stream_id[OF o] by (auto simp: req_inv_def on_stream_def)
  qed
  then show ?thesis using on_stream_wf[OF o] ok q f i by (simp add: cl_ok_def)
qed

section \<open>Writing\<close>

definition writing_at :: "nat \<Rightarrow> dataFrame option \<Rightarrow> ('f, 'd) http2Client \<Rightarrow> ('f, 'd) http2Client" where
  "writing_at a w = upd a (\<lambda>s. s\<lparr>x_writing := w\<rparr>)"

lemma on_stream_upd:
  assumes "\<And>s. x_id (f s) = x_id s \<and> x_done (f s) = x_done s" "x_state (f (cl_obj t a)) = streamDone \<longleftrightarrow> x_state (cl_obj t a) = streamDone"
  shows "on_stream a t (upd a f t)"
  using assms by (simp add: on_stream_def)

text \<open>A write that was begun may be given up or sent.\<close>

lemma write_dropped:
  assumes "cl_ok (writing_at a (Some df) t)" "a \<in> set (cl_opened t)"
  shows "cl_ok (writing_at a None t)"
proof -
  have e: "writing_at a None t = upd a (\<lambda>s. s\<lparr>x_writing := None\<rparr>) (writing_at a (Some df) t)" by (simp add: writing_at_def upd_upd)
  have "on_stream a (writing_at a (Some df) t) (writing_at a None t)" unfolding e by (rule on_stream_upd) simp_all
  then show ?thesis by (rule on_stream_ok[OF _ assms(1)]) (use assms(2) in \<open>auto simp: writing_at_def req_at_def Let_def\<close>)
qed

lemma write_sent:
  assumes ok: "cl_ok (writing_at a (Some df) t)" and a: "a \<in> set (cl_opened t)" and id: "few_ids t \<Longrightarrow> df_streamID df = x_id (cl_obj t a)"
  shows "cl_ok (cl_put (CbData df) (writing_at a None t))"
proof -
  let ?t = "writing_at a (Some df) t"
  have "on_stream a ?t (cl_put (CbData df) (writing_at a None t))"
    using id by (auto simp: on_stream_def writing_at_def cl_put_eq cb_ok_put cl_accepts_def cb_put_cases(2) few_ids_def)
  moreover have "req_at (cl_put (CbData df) (writing_at a None t)) a" if f: "few_ids ?t" and r: "req_at ?t a"
  proof -
    obtain n where n: "rtags (x_id (cl_obj t a)) (cl_log t) = ReqHeader # replicate n ReqData"
        "df_endStream df \<longrightarrow> write_over (cl_obj t a)"
      using r by (auto simp: req_at_def writing_at_def Let_def write_over_def)
    have "replicate n ReqData @ [ReqData] = replicate (Suc n) ReqData" by (simp add: replicate_append_same)
    moreover have "df_streamID df = x_id (cl_obj t a)" using id f by (simp add: few_ids_def writing_at_def)
    ultimately show ?thesis using n
      by (cases "df_endStream df") (auto simp: req_at_def writing_at_def Let_def write_over_def intro: exI[of _ "Suc n"])
  qed
  ultimately show ?thesis using on_stream_ok[OF _ ok] a by (simp add: writing_at_def)
qed

lemma swap_wq: "s\<lparr>x_wq := w, x_writing := v\<rparr> = s\<lparr>x_writing := v, x_wq := w\<rparr>"
  by (cases s) simp

lemma calm_wq: "calm t (upd a (\<lambda>s. s\<lparr>x_wq := w\<rparr>) t)"
  by (simp add: calm_def)

lemma Write_rest_fine:
  assumes ok: "cl_ok (writing_at a (Some df) t)" and a: "a \<in> set (cl_opened t)" and id: "few_ids t \<Longrightarrow> df_streamID df = x_id (cl_obj t a)"
  shows "fine (Write_rest a df nodata t)"
proof -
  have b: "fine (buffer_res (CbData df) (writing_at a None u))"
    if "cl_ok (writing_at a (Some df) u)" "a \<in> set (cl_opened u)" "few_ids u \<Longrightarrow> df_streamID df = x_id (cl_obj u a)" for u
    using write_sent[OF that] write_dropped[OF that(1,2)] by (auto simp: buffer_res_def split: option.splits)
  let ?u = "\<lambda>w. upd a (\<lambda>s. s\<lparr>x_wq := w\<rparr>) t"
  have "writing_at a (Some df) (?u w) = upd a (\<lambda>s. s\<lparr>x_wq := w\<rparr>) (writing_at a (Some df) t)" for w
    by (simp add: writing_at_def upd_def swap_wq)
  then have "cl_ok (writing_at a (Some df) (?u w))" for w using calm_ok[OF calm_wq ok] by simp
  moreover have "upd a (\<lambda>s. s\<lparr>x_wq := f (x_wq s), x_writing := None\<rparr>) t = writing_at a None (?u (f (x_wq (cl_obj t a))))" for f
    by (simp add: writing_at_def upd_def)
  ultimately have "fine (buffer_res (CbData df) (upd a (\<lambda>s. s\<lparr>x_wq := f (x_wq s), x_writing := None\<rparr>) t))" for f
    using b[of "?u (f (x_wq (cl_obj t a)))"] a id by (simp add: few_ids_def)
  then show ?thesis using b[OF assms] write_dropped[OF ok a] ok unfolding Write_rest_def Let_def by (simp add: writing_at_def)
qed

lemma Write_fine:
  assumes ok: "cl_ok t" and a: "a \<in> set (cl_opened t)" and w: "x_writing (cl_obj t a) = None"
  shows "fine (cl_Write a hdr data isLast t)"
proof (cases "x_state (cl_obj t a) = streamActive")
  case True
  define df where "df = \<lparr>df_streamID = x_id (cl_obj t a), df_endStream = isLast, df_h = (case hdr of Some h \<Rightarrow> h | None \<Rightarrow> []),
    df_d = (case data of Some d \<Rightarrow> d | None \<Rightarrow> [])\<rparr>"
  define u where "u = (if isLast then upd a (\<lambda>s. s\<lparr>x_state := streamWriteDone\<rparr>) t else t)"
  have "on_stream a t (writing_at a (Some df) u)"
    using True by (simp add: on_stream_def writing_at_def u_def)
  moreover have "req_at (writing_at a (Some df) u) a" if r: "req_at t a"
    using r True w by (auto simp: req_at_def writing_at_def u_def df_def Let_def write_over_def)
  ultimately have "cl_ok (writing_at a (Some df) u)" using on_stream_ok[OF _ ok a] by blast
  then have "fine (Write_rest a df b u)" for b by (rule Write_rest_fine) (use a in \<open>simp_all add: u_def df_def\<close>)
  then show ?thesis using True by (simp add: cl_Write_def Let_def u_def df_def)
qed (simp add: cl_Write_def Let_def ok)

lemma Write_resume_fine:
  assumes ok: "cl_ok t" and a: "a \<in> set (cl_opened t)"
  shows "fine (Write_resume a t)"
proof (cases "x_writing (cl_obj t a)")
  case (Some df)
  then have e: "(cl_obj t a)\<lparr>x_writing := Some df\<rparr> = cl_obj t a" by (cases "cl_obj t a") simp
  have "writing_at a (Some df) t = t" by (simp add: writing_at_def upd_def e)
  moreover have "df_streamID df = x_id (cl_obj t a)" if f: "few_ids t"
    using f ok a Some by (auto simp: cl_ok_def req_inv_def req_at_def Let_def)
  ultimately show ?thesis using Write_rest_fine[of a df t] ok a Some by (simp add: Write_resume_def)
qed (simp add: Write_resume_def ok)

section \<open>Opening a stream\<close>

lemma ids_inv_cong:
  assumes "ids_inv t" "cl_opened u = cl_opened t" "cl_nextID u = cl_nextID t" "cl_ids u = cl_ids t"
    "\<And>a. a \<in> set (cl_opened t) \<Longrightarrow> x_id (cl_obj u a) = x_id (cl_obj t a)"
  shows "ids_inv u"
  using assms(1) sorted_wrt_mono_rel[of "cl_opened t" "\<lambda>a b. x_id (cl_obj t a) < x_id (cl_obj t b)"
    "\<lambda>a b. x_id (cl_obj u a) < x_id (cl_obj u b)"] by (simp add: ids_inv_def assms(2-))

lemma NewStream_start_ok:
  assumes "cl_ok t"
  shows "cl_ok (NewStream_start ch fs t)" (is "cl_ok ?u")
proof -
  have wf: "cl_wf t" using assms by (simp add: cl_ok_def)
  then have f: "b \<noteq> cl_fresh t" if "b \<in> set (cl_opened t)" for b using that by (auto simp: cl_wf_def)
  have g: "n_stream c \<noteq> cl_fresh t" if "c \<in> set (cl_calls t)" for c using wf that by (auto simp: cl_wf_def)
  have obj: "cl_obj ?u b = (if b = cl_fresh t then new_clStream ch else cl_obj t b)" for b by (simp add: NewStream_start_def Let_def)
  have same: "cl_opened ?u = cl_opened t" "cl_active ?u = cl_active t" "cl_state ?u = cl_state t" "cl_log ?u = cl_log t" "cl_ids ?u = cl_ids t"
    "cl_nextID ?u = cl_nextID t" "cl_streamQuota ?u = cl_streamQuota t" "cl_maxConcurrentStreams ?u = cl_maxConcurrentStreams t"
    "cl_accepts ?u = cl_accepts t" by (simp_all add: NewStream_start_def Let_def cl_accepts_def)
  have more: "actives ?u = actives t" "cl_fresh ?u = cl_fresh t + 1" "map n_stream (cl_calls ?u) = cl_fresh t # map n_stream (cl_calls t)"
    "set (cl_calls ?u) = insert \<lparr>n_stream = cl_fresh t, n_fields = fs, n_first = True, n_ch = None, n_awake = True\<rparr> (set (cl_calls t))"
    "cl_kpDormant ?u = cl_kpDormant t" "cl_keepaliveEnabled ?u = cl_keepaliveEnabled t" "cl_ctl ?u = cl_ctl t"
    by (simp_all add: NewStream_start_def Let_def actives_def)
  have "x_id (cl_obj ?u a) = k \<and> a \<in> set (cl_opened t)" if "(k, a) \<in> set (actives t)" for k a
    using active_opened[OF wf that] f[of a] by (auto simp: obj)
  moreover have "x_done (cl_obj ?u a) \<longleftrightarrow> x_state (cl_obj ?u a) = streamDone" for a
    using wf by (simp add: obj new_clStream_def cl_wf_def)
  ultimately have "cl_wf ?u" using wf f g unfolding cl_wf_def same more by fastforce
  moreover have "open_streams ?u = open_streams t" using f by (auto simp: open_streams_def same obj intro: filter_cong)
  then have "quota_inv ?u" using assms g unfolding cl_ok_def quota_inv_def same obj
    by (auto simp: NewStream_start_def Let_def new_clStream_def)
  moreover have "few_ids ?u = few_ids t" by (simp add: few_ids_def same)
  moreover have "ids_inv ?u" if "ids_inv t"
    by (rule ids_inv_cong[OF that]) (use f in \<open>auto simp: same obj\<close>)
  moreover have "req_inv ?u" if "req_inv t"
  proof -
    have "(\<lambda>a. x_id (cl_obj ?u a)) ` set (cl_opened t) = (\<lambda>a. x_id (cl_obj t a)) ` set (cl_opened t)"
      using f by (intro image_cong) (simp_all add: obj)
    moreover have "req_at ?u b = req_at t b" if "b \<in> set (cl_opened t)" for b using f[OF that] by (simp add: req_at_def obj same)
    ultimately show ?thesis using that by (simp add: req_inv_def same)
  qed
  ultimately show ?thesis using assms by (simp add: cl_ok_def)
qed

text \<open>Steps that only change the calls that wait, and leave no new ones.\<close>

definition recall :: "(ncall list \<Rightarrow> ncall list) \<Rightarrow> ('f, 'd) http2Client \<Rightarrow> ('f, 'd) http2Client" where
  "recall f t = t\<lparr>cl_calls := f (cl_calls t)\<rparr>"

lemma recall_ok:
  assumes "cl_ok t" "n_stream ` set (f (cl_calls t)) \<subseteq> n_stream ` set (cl_calls t)" "distinct (map n_stream (f (cl_calls t)))"
  shows "cl_ok (recall f t)" (is "cl_ok ?u")
proof -
  have m: "\<exists>c'\<in>set (cl_calls t). n_stream c = n_stream c'" if "c \<in> set (f (cl_calls t))" for c using assms(2) that by blast
  have "n_stream c < cl_fresh t \<and> n_stream c \<notin> set (cl_opened t)" if "c \<in> set (f (cl_calls t))" for c
    using m[OF that] assms(1) by (auto simp: cl_ok_def cl_wf_def)
  then have "cl_wf ?u" using assms unfolding cl_ok_def cl_wf_def recall_def actives_def by simp
  moreover have "open_streams ?u = open_streams t" by (simp add: open_streams_def recall_def)
  moreover have "x_state (cl_obj t (n_stream c)) = streamActive \<and> x_writing (cl_obj t (n_stream c)) = None"
    if "c \<in> set (f (cl_calls t))" "cl_accepts t" for c using m[OF that(1)] that(2) assms(1) by (auto simp: cl_ok_def quota_inv_def)
  ultimately have "quota_inv ?u" using assms(1) by (simp add: cl_ok_def quota_inv_def recall_def cl_accepts_def)
  then show ?thesis using \<open>cl_wf ?u\<close> assms(1) by (simp add: cl_ok_def recall_def few_ids_def ids_inv_def req_inv_def req_at_def)
qed

lemma drop_call_ok: "cl_ok t \<Longrightarrow> cl_ok (drop_call a t)"
  using recall_ok[of t "filter (\<lambda>c. n_stream c \<noteq> a)"]
  by (auto simp: drop_call_def recall_def cl_ok_def cl_wf_def distinct_map_filter)

lemma map_calls:
  assumes "\<And>c. n_stream (g c) = n_stream c" "cl_ok t"
  shows "cl_ok (t\<lparr>cl_calls := map g (cl_calls t)\<rparr>)"
proof -
  have "map n_stream (map g cs) = map n_stream cs" for cs using assms(1) by simp
  moreover have "n_stream ` set (map g cs) = n_stream ` set cs" for cs
    using assms(1) by (simp add: image_image)
  ultimately show ?thesis using recall_ok[of t "map g"] assms(2) by (simp add: recall_def cl_ok_def cl_wf_def del: map_map)
qed

text \<open>What a successful pass changes: the stream has the next id, is in the table, and its header block is queued.\<close>

definition opens :: "nat \<Rightarrow> ('f, 'd) http2Client \<Rightarrow> ('f, 'd) http2Client \<Rightarrow> bool" where
  "opens a t u \<longleftrightarrow>
     cl_state u = cl_state t \<and> cl_active u = Some ((cl_nextID t, a) # filter (\<lambda>p. fst p \<noteq> cl_nextID t) (actives t))
     \<and> cl_opened u = cl_opened t @ [a] \<and> cl_calls u = filter (\<lambda>c. n_stream c \<noteq> a) (cl_calls t)
     \<and> cl_fresh u = cl_fresh t \<and> cl_ids u = (cl_nextID t, a) # cl_ids t \<and> cl_nextID u = cl_nextID t + 2
     \<and> cl_streamQuota u = cl_streamQuota t - 1 \<and> cl_maxConcurrentStreams u = cl_maxConcurrentStreams t
     \<and> cl_keepaliveEnabled u = cl_keepaliveEnabled t \<and> cl_kpDormant u = cl_kpDormant t
     \<and> cl_accepts u = cl_accepts t \<and> (cb_ok (cl_ctl t) \<longrightarrow> cb_ok (cl_ctl u))
     \<and> (\<forall>sid. rtags sid (cl_log u) = rtags sid (cl_log t) @ (if sid = cl_nextID t then [ReqHeader] else []))
     \<and> (\<forall>b. b \<noteq> a \<longrightarrow> cl_obj u b = cl_obj t b) \<and> x_id (cl_obj u a) = cl_nextID t
     \<and> x_state (cl_obj u a) = x_state (cl_obj t a) \<and> x_done (cl_obj u a) = x_done (cl_obj t a)
     \<and> x_writing (cl_obj u a) = x_writing (cl_obj t a)"

lemma opens_wf:
  assumes o: "opens a t u" and wf: "cl_wf t" and c: "c \<in> set (cl_calls t)" "n_stream c = a" and s: "cl_state t = reachable"
  shows "cl_wf u"
proof -
  have a: "a < cl_fresh t" "a \<notin> set (cl_opened t)" using wf c by (auto simp: cl_wf_def)
  have act: "actives u = (cl_nextID t, a) # filter (\<lambda>p. fst p \<noteq> cl_nextID t) (actives t)" using o by (simp add: opens_def actives_def)
  have "distinct (map fst (actives t))" using wf by (simp add: cl_wf_def)
  then have "distinct (map fst (actives u))" unfolding act by (auto simp: distinct_map_filter)
  moreover have "x_id (cl_obj u b) = k \<and> b \<in> set (cl_opened u)" if "(k, b) \<in> set (actives u)" for k b
    using that o a active_opened[OF wf, of k b] by (cases "b = a") (auto simp: act opens_def)
  moreover have "x_done (cl_obj u b) \<longleftrightarrow> x_state (cl_obj u b) = streamDone" for b
    using o wf by (cases "b = a") (auto simp: opens_def cl_wf_def)
  moreover have "distinct (map n_stream (cl_calls u))" using o wf by (simp add: opens_def cl_wf_def distinct_map_filter)
  moreover have "n_stream c < cl_fresh u \<and> n_stream c \<notin> set (cl_opened u)" if "c \<in> set (cl_calls u)" for c
    using that o wf by (auto simp: opens_def cl_wf_def)
  moreover have "cl_active u \<noteq> None" "cl_state u = reachable" "distinct (cl_opened u)" "b \<in> set (cl_opened u) \<Longrightarrow> b < cl_fresh u"
      "cl_kpDormant u \<longrightarrow> cl_keepaliveEnabled u" "cb_ok (cl_ctl u)" for b
    using o wf a s by (auto simp: opens_def cl_wf_def)
  ultimately show ?thesis unfolding cl_wf_def by auto
qed

lemma opens_quota:
  assumes o: "opens a t u" and wf: "cl_wf t" and q: "quota_inv t" and c: "c \<in> set (cl_calls t)" "n_stream c = a" and acc: "cl_accepts t"
  shows "quota_inv u"
proof -
  have a: "a \<notin> set (cl_opened t)" using wf c by (auto simp: cl_wf_def)
  have "cl_obj u b = cl_obj t b" if "b \<in> set (cl_opened t)" for b
  proof -
    have "b \<noteq> a" using that a by blast
    then show ?thesis using o by (simp add: opens_def)
  qed
  then have "filter (\<lambda>b. x_state (cl_obj u b) \<noteq> streamDone) (cl_opened t) = open_streams t"
    unfolding open_streams_def by (intro filter_cong) simp_all
  moreover have "x_state (cl_obj t (n_stream c)) = streamActive" using q acc c(1) by (simp add: quota_inv_def)
  then have "x_state (cl_obj u a) = streamActive" using o by (simp add: opens_def c(2))
  ultimately have "open_streams u = open_streams t @ [a]" using o by (simp add: open_streams_def opens_def)
  moreover have "x_state (cl_obj u (n_stream c)) = streamActive \<and> x_writing (cl_obj u (n_stream c)) = None" if c: "c \<in> set (cl_calls u)" for c
  proof -
    have "c \<in> set (cl_calls t)" "n_stream c \<noteq> a" using c o by (simp_all add: opens_def)
    then show ?thesis using o q acc by (simp add: quota_inv_def opens_def)
  qed
  ultimately show ?thesis using o q acc by (simp add: quota_inv_def opens_def)
qed

lemma opens_ids:
  assumes o: "opens a t u" and i: "ids_inv t" and few: "few_ids u" and a: "a \<notin> set (cl_opened t)"
  shows "ids_inv u" "cl_nextID t \<notin> (\<lambda>a. x_id (cl_obj t a)) ` set (cl_opened t)"
proof -
  let ?n = "cl_nextID t"
  have n: "unat ?n = 2 * length (cl_ids t) + 1" using i by (simp add: ids_inv_def)
  have "length (cl_ids t) + 1 < 2 ^ 31" using few o by (simp add: few_ids_def opens_def)
  then have "unat ?n + unat (2 :: u32) < 2 ^ LENGTH(32)" using n by simp
  then have n2: "unat (?n + 2) = unat ?n + 2" using unat_add_lem[of ?n "2 :: u32"] by simp
  then have lt: "?n < ?n + 2" by (simp add: word_less_nat_alt)
  have odd: "?n mod 2 = 1"
  proof -
    have "unat (?n mod 2) = unat (1 :: u32)" using n by (simp add: unat_mod)
    then show ?thesis by (simp only: word_unat_eq_iff)
  qed
  have old: "x_id (cl_obj u b) = x_id (cl_obj t b) \<and> x_id (cl_obj t b) < ?n \<and> x_id (cl_obj t b) mod 2 = 1" if "b \<in> set (cl_opened t)" for b
  proof -
    have "b \<noteq> a" using that a by blast
    then show ?thesis using that i o by (simp add: ids_inv_def opens_def)
  qed
  then show "?n \<notin> (\<lambda>a. x_id (cl_obj t a)) ` set (cl_opened t)" by fastforce
  have "sorted_wrt (\<lambda>a b. x_id (cl_obj u a) < x_id (cl_obj u b)) (cl_opened t)"
    using i old sorted_wrt_mono_rel[of "cl_opened t" "\<lambda>a b. x_id (cl_obj t a) < x_id (cl_obj t b)"
      "\<lambda>a b. x_id (cl_obj u a) < x_id (cl_obj u b)"] by (simp add: ids_inv_def)
  then have "sorted_wrt (\<lambda>a b. x_id (cl_obj u a) < x_id (cl_obj u b)) (cl_opened u)"
    using old o by (simp add: opens_def sorted_wrt_append)
  moreover have "x_id (cl_obj u b) < ?n + 2 \<and> x_id (cl_obj u b) mod 2 = 1" if "b \<in> set (cl_opened u)" for b
  proof (cases "b = a")
    case True then show ?thesis using lt odd o by (simp add: opens_def)
  next
    case False
    then have "b \<in> set (cl_opened t)" using that o by (simp add: opens_def)
    then show ?thesis using old[of b] less_trans[OF _ lt] by simp
  qed
  moreover have "unat (cl_nextID u) = 2 * length (cl_ids u) + 1" "cl_nextID u = ?n + 2" using n n2 o by (simp_all add: opens_def)
  ultimately show "ids_inv u" by (simp add: ids_inv_def)
qed

lemma opens_req:
  assumes o: "opens a t u" and r: "req_inv t" and a: "a \<notin> set (cl_opened t)" and w: "x_writing (cl_obj t a) = None"
    and new: "cl_nextID t \<notin> (\<lambda>a. x_id (cl_obj t a)) ` set (cl_opened t)"
  shows "req_inv u"
proof -
  have none: "rtags (cl_nextID t) (cl_log t) = []" using r new by (simp add: req_inv_def)
  have "req_at u b" if b: "b \<in> set (cl_opened u)" for b
  proof (cases "b = a")
    case True
    have "rtags (x_id (cl_obj u a)) (cl_log u) = ReqHeader # replicate 0 ReqData" using o none by (simp add: opens_def)
    then show ?thesis using True o w unfolding req_at_def Let_def by (auto simp: opens_def)
  next
    case False
    then have "b \<in> set (cl_opened t)" "cl_obj u b = cl_obj t b" using b o by (auto simp: opens_def)
    moreover from this have "x_id (cl_obj t b) \<noteq> cl_nextID t" using new by (auto simp: image_iff)
    ultimately show ?thesis using r o by (simp add: req_inv_def req_at_def opens_def)
  qed
  moreover have "rtags sid (cl_log u) = []" if s: "sid \<notin> (\<lambda>a. x_id (cl_obj u a)) ` set (cl_opened u)" for sid
  proof -
    have "sid \<noteq> cl_nextID t" using s o by (auto simp: opens_def)
    moreover have "sid \<notin> (\<lambda>a. x_id (cl_obj t a)) ` set (cl_opened t)"
    proof
      assume "sid \<in> (\<lambda>a. x_id (cl_obj t a)) ` set (cl_opened t)"
      then obtain b where "b \<in> set (cl_opened t)" "sid = x_id (cl_obj t b)" by blast
      moreover from this have "b \<noteq> a" using a by auto
      moreover from this have "cl_obj u b = cl_obj t b" "b \<in> set (cl_opened u)" using o \<open>b \<in> set (cl_opened t)\<close> by (simp_all add: opens_def)
      ultimately show False using s imageI[of b "set (cl_opened u)" "\<lambda>a. x_id (cl_obj u a)"] by simp
    qed
    ultimately show ?thesis using o r by (simp add: opens_def req_inv_def)
  qed
  ultimately show ?thesis by (simp add: req_inv_def)
qed

lemma opens_ok:
  assumes o: "opens a t u" and ok: "cl_ok t" and c: "c \<in> set (cl_calls t)" "n_stream c = a" and acc: "cl_accepts t" and s: "cl_state t = reachable"
  shows "cl_ok u"
proof -
  have wf: "cl_wf t" and q: "quota_inv t" using ok by (simp_all add: cl_ok_def)
  have a: "a \<notin> set (cl_opened t)" using wf c by (auto simp: cl_wf_def)
  have w: "x_writing (cl_obj t a) = None" using q c acc by (auto simp: quota_inv_def)
  have "few_ids t" if "few_ids u" using that o by (simp add: few_ids_def opens_def)
  then have "ids_inv u \<and> req_inv u" if "few_ids u"
    using that ok opens_ids[OF o _ that a] opens_req[OF o _ a w] by (simp add: cl_ok_def)
  then show ?thesis using opens_wf[OF o wf c s] opens_quota[OF o wf q c acc] by (simp add: cl_ok_def)
qed

text \<open>A pass that took quota and an id while the transport is draining; the stream is not opened.\<close>

lemma spoiled_ok:
  assumes ok: "cl_ok t" and s: "cl_state t \<noteq> reachable" and c: "c \<in> set (cl_calls t)"
    and f: "\<And>s. x_state (f s) = x_state s \<and> x_done (f s) = x_done s \<and> x_writing (f s) = x_writing s"
  shows "cl_ok (upd (n_stream c) f (t\<lparr>cl_streamQuota := q, cl_nextID := cl_nextID t + 2, cl_ids := (cl_nextID t, n_stream c) # cl_ids t\<rparr>))"
    (is "cl_ok ?u")
proof -
  let ?a = "n_stream c"
  have wf: "cl_wf t" using ok by (simp add: cl_ok_def)
  have a: "?a \<notin> set (cl_opened t)" using wf c by (auto simp: cl_wf_def)
  have obj: "cl_obj ?u b = cl_obj t b" if "b \<in> set (cl_opened t)" for b using that a by auto
  have st: "x_state (cl_obj ?u b) = x_state (cl_obj t b)" "x_done (cl_obj ?u b) = x_done (cl_obj t b)"
      "x_writing (cl_obj ?u b) = x_writing (cl_obj t b)" for b using f by simp_all
  have act: "actives ?u = actives t" by (simp add: actives_def)
  have "x_id (cl_obj ?u b) = k \<and> b \<in> set (cl_opened t)" if "(k, b) \<in> set (actives t)" for k b
    using active_opened[OF wf that] obj[of b] by simp
  then have "\<forall>(k, b)\<in>set (actives t). x_id (cl_obj ?u b) = k \<and> b \<in> set (cl_opened t)" by blast
  then have "cl_wf ?u" using wf unfolding cl_wf_def st act by simp
  moreover have acc: "cl_accepts ?u = cl_accepts t" by (simp add: cl_accepts_def)
  have "quota_inv ?u" using ok s unfolding quota_inv_def st acc cl_ok_def by simp
  moreover have "ids_inv ?u \<and> req_inv ?u" if few: "few_ids ?u"
  proof -
    have old: "ids_inv t" "req_inv t" using few ok by (simp_all add: few_ids_def cl_ok_def)
    have n: "unat (cl_nextID t) = 2 * length (cl_ids t) + 1" using old by (simp add: ids_inv_def)
    have "unat (cl_nextID t) + unat (2 :: u32) < 2 ^ LENGTH(32)" using few n by (simp add: few_ids_def)
    then have n2: "unat (cl_nextID t + 2) = unat (cl_nextID t) + 2" using unat_add_lem[of "cl_nextID t" "2 :: u32"] by simp
    then have lt: "cl_nextID t < cl_nextID t + 2" by (simp add: word_less_nat_alt)
    have "x_id (cl_obj t b) < cl_nextID t + 2 \<and> x_id (cl_obj t b) mod 2 = 1" if "b \<in> set (cl_opened t)" for b
      using old(1) that less_trans[OF _ lt] by (simp add: ids_inv_def)
    moreover have "sorted_wrt (\<lambda>a b. x_id (cl_obj ?u a) < x_id (cl_obj ?u b)) (cl_opened t)"
      using old(1) obj sorted_wrt_mono_rel[of "cl_opened t" "\<lambda>a b. x_id (cl_obj t a) < x_id (cl_obj t b)"
        "\<lambda>a b. x_id (cl_obj ?u a) < x_id (cl_obj ?u b)"] by (simp add: ids_inv_def)
    ultimately have "ids_inv ?u" using obj n n2 unfolding ids_inv_def by simp
    moreover have "(\<lambda>a. x_id (cl_obj ?u a)) ` set (cl_opened t) = (\<lambda>a. x_id (cl_obj t a)) ` set (cl_opened t)"
      by (intro image_cong) (simp_all only: obj)
    then have "req_inv ?u" using old(2) obj unfolding req_inv_def req_at_def by simp
    ultimately show ?thesis ..
  qed
  ultimately show ?thesis by (simp add: cl_ok_def)
qed

text \<open>The pass that has quota: the transport after it took a unit and an id.\<close>

definition taken :: "ncall \<Rightarrow> ('f, 'd) http2Client \<Rightarrow> ('f, 'd) http2Client" where
  "taken c t =
     (let t1 = (if \<not> n_first c then t\<lparr>cl_waitingStreams := cl_waitingStreams t - 1\<rparr> else t) in
      upd (n_stream c) (\<lambda>s. s\<lparr>x_id := cl_nextID t1,
          x_fc := \<lparr>fl_limit = cl_initialWindowSize t1, pendingData = 0, pendingUpdate = 0, fl_delta = 0\<rparr>\<rparr>)
        (t1\<lparr>cl_streamQuota := cl_streamQuota t1 - 1, cl_nextID := cl_nextID t1 + 2, cl_ids := (cl_nextID t1, n_stream c) # cl_ids t1\<rparr>))"

lemma taken_sel:
  "cl_state (taken c t) = cl_state t" "cl_active (taken c t) = cl_active t" "cl_opened (taken c t) = cl_opened t"
  "cl_calls (taken c t) = cl_calls t" "cl_fresh (taken c t) = cl_fresh t" "cl_ids (taken c t) = (cl_nextID t, n_stream c) # cl_ids t"
  "cl_nextID (taken c t) = cl_nextID t + 2" "cl_streamQuota (taken c t) = cl_streamQuota t - 1"
  "cl_maxConcurrentStreams (taken c t) = cl_maxConcurrentStreams t" "cl_keepaliveEnabled (taken c t) = cl_keepaliveEnabled t"
  "cl_kpDormant (taken c t) = cl_kpDormant t" "cl_ctl (taken c t) = cl_ctl t" "cl_log (taken c t) = cl_log t"
  "cl_obj (taken c t) = (cl_obj t)(n_stream c := (cl_obj t (n_stream c))\<lparr>x_id := cl_nextID t,
      x_fc := \<lparr>fl_limit = cl_initialWindowSize t, pendingData = 0, pendingUpdate = 0, fl_delta = 0\<rparr>\<rparr>)"
  by (simp_all add: taken_def Let_def)

lemma check_draining:
  assumes "0 < cl_streamQuota t" "cl_state t = draining \<or> cl_active t = None"
  shows "checkForStreamQuota c t = (None, n_ch c, taken c t)"
  using assms by (cases "n_first c"; cases "cl_state t = draining"; cases "cl_active t")
    (simp_all add: checkForStreamQuota_def taken_def Let_def)

lemma check_opens:
  assumes "0 < cl_streamQuota t" "cl_state t \<noteq> draining" "cl_active t = Some m"
  shows "\<exists>h. hf_streamID h = cl_nextID t \<and> checkForStreamQuota c t =
    (Some (CbHeader h), n_ch c, offer_quota ((taken c t)\<lparr>cl_active := Some ((cl_nextID t, n_stream c) # filter (\<lambda>p. fst p \<noteq> cl_nextID t) m)\<rparr>))"
  using assms by (cases "n_first c") (auto simp: checkForStreamQuota_def taken_def Let_def)

lemma offer_put_opens:
  assumes "hf_streamID h = cl_nextID t" "cl_active t = Some m" "cl_accepts t"
  shows "opens (n_stream c) t (drop_call (n_stream c) (cl_put (CbHeader h) ((offer_quota ((taken c t)\<lparr>cl_active :=
    Some ((cl_nextID t, n_stream c) # filter (\<lambda>p. fst p \<noteq> cl_nextID t) m)\<rparr>))\<lparr>cl_opened := cl_opened t @ [n_stream c]\<rparr>)))"
  using assms by (simp add: opens_def drop_call_def offer_quota_def taken_sel actives_def cl_accepts_def cl_put_eq cb_ok_put cb_put_cases(2))

lemma NewStream_try_cases:
  assumes "cl_ok t"
  shows "NewStream_try c t = (Err (BufferE (the (cb_err (cl_ctl t)))), drop_call (n_stream c) t) \<and> \<not> cl_accepts t
    \<or> NewStream_try c t = (Err hdrListSizeErr, drop_call (n_stream c) t) \<and> cl_accepts t \<and> \<not> header_ok (n_fields c) t
    \<or> (\<exists>u. NewStream_try c t = (Ok (), u) \<and> opens (n_stream c) t u \<and> cl_accepts t \<and> cl_state t = reachable \<and> 0 < cl_streamQuota t)
    \<or> (\<exists>ch u. NewStream_try c t = (Ok (), u\<lparr>cl_calls := map (\<lambda>c'. if n_stream c' = n_stream c then
            c\<lparr>n_first := False, n_ch := ch, n_awake := False\<rparr> else c') (cl_calls u)\<rparr>) \<and> cl_accepts t
          \<and> (calm t u \<and> cl_streamQuota t \<le> 0 \<or> u = taken c t \<and> cl_state t \<noteq> reachable \<and> 0 < cl_streamQuota t))"
    (is "?A \<or> ?B \<or> ?C \<or> ?D")
proof (cases "cl_accepts t \<and> header_ok (n_fields c) t")
  case False
  then show ?thesis by (cases "cb_err (cl_ctl t)") (auto simp: NewStream_try_def Let_def cl_accepts_def)
next
  case True
  then have err: "cb_err (cl_ctl t) = None" by (simp add: cl_accepts_def)
  have wait: "NewStream_try c t = (Ok (), u\<lparr>cl_calls := map (\<lambda>c'. if n_stream c' = n_stream c then
      c\<lparr>n_first := False, n_ch := ch, n_awake := False\<rparr> else c') (cl_calls u)\<rparr>)"
    if "checkForStreamQuota c t = (None, ch, u)" for ch u using that True err by (simp add: NewStream_try_def Let_def)
  show ?thesis
  proof (cases "cl_streamQuota t \<le> 0")
    case q: True
    have "calm t (if n_first c then t\<lparr>cl_waitingStreams := cl_waitingStreams t + 1\<rparr> else t)" by (intro calms) simp_all
    moreover have v: "checkForStreamQuota c t = (None, Some (cl_gen t), if n_first c then t\<lparr>cl_waitingStreams := cl_waitingStreams t + 1\<rparr> else t)"
      using q by (simp add: checkForStreamQuota_def)
    ultimately have ?D using wait[OF v] True q by blast
    then show ?thesis by blast
  next
    case q: False
    show ?thesis
    proof (cases "cl_state t = reachable")
      case s: True
      have "cl_active t \<noteq> None" using assms s by (simp add: cl_ok_def cl_wf_def)
      then obtain m where m: "cl_active t = Some m" by blast
      obtain h where h: "hf_streamID h = cl_nextID t" "checkForStreamQuota c t = (Some (CbHeader h), n_ch c,
          offer_quota ((taken c t)\<lparr>cl_active := Some ((cl_nextID t, n_stream c) # filter (\<lambda>p. fst p \<noteq> cl_nextID t) m)\<rparr>))"
        using check_opens[OF _ _ m, of c] q s by auto
      have "cl_opened (offer_quota v) = cl_opened v" for v :: "('a, 'b) http2Client" by (simp add: offer_quota_def)
      then have ?C using offer_put_opens[OF h(1) m, of c] True err q s h(2) by (simp add: NewStream_try_def Let_def taken_sel)
      then show ?thesis by blast
    next
      case s: False
      then have "cl_state t = draining \<or> cl_active t = None" using assms by (cases "cl_state t") (auto simp: cl_ok_def cl_wf_def)
      then have v: "checkForStreamQuota c t = (None, n_ch c, taken c t)" using q by (intro check_draining) simp_all
      have "0 < cl_streamQuota t" using q by simp
      then have ?D using wait[OF v] True s by blast
      then show ?thesis by blast
    qed
  qed
qed

lemma NewStream_try_fine:
  assumes ok: "cl_ok t" and c: "c \<in> set (cl_calls t)"
  shows "fine (NewStream_try c t)"
proof -
  have g: "cl_ok (u\<lparr>cl_calls := map (\<lambda>c'. if n_stream c' = n_stream c then c\<lparr>n_first := False, n_ch := ch, n_awake := False\<rparr> else c') (cl_calls u)\<rparr>)"
    if "cl_ok u" for u ch by (rule map_calls[OF _ that]) simp
  let ?t1 = "if \<not> n_first c then t\<lparr>cl_waitingStreams := cl_waitingStreams t - 1\<rparr> else t"
  have t1: "cl_ok ?t1" by (rule calm_ok[OF _ ok]) (intro calms; simp)
  have "cl_ok (taken c t)" if "cl_state t \<noteq> reachable"
    unfolding taken_def Let_def by (rule spoiled_ok[OF t1]) (use that c in auto)
  moreover have "cl_ok u" if "opens (n_stream c) t u" "cl_accepts t" "cl_state t = reachable" for u
    by (rule opens_ok[OF that(1) ok c refl that(2,3)])
  ultimately show ?thesis using NewStream_try_cases[OF ok, of c] drop_call_ok[OF ok] g calm_ok[OF _ ok] by fastforce
qed

lemma NewStream_wake_ok: "cl_ok t \<Longrightarrow> cl_ok (NewStream_wake c t)"
  unfolding NewStream_wake_def Let_def by (rule map_calls) (auto intro!: calms intro: calm_ok[rotated])

lemma NewStream_end_fine: "cl_ok t \<Longrightarrow> fine (NewStream_end ctx c t)"
  using drop_call_ok[of t "n_stream c"] by (cases ctx) (auto simp: NewStream_end_def)

section \<open>Frames, timers and the writer\<close>

lemma quota_ok:
  assumes "cl_ok t"
  shows "cl_ok (updateStreamQuota n t)"
proof -
  let ?u = "t\<lparr>cl_maxConcurrentStreams := n, cl_streamQuota := cl_streamQuota t + (uint n - uint (cl_maxConcurrentStreams t))\<rparr>"
  have "cl_ok ?u" using assms
    by (simp add: cl_ok_def cl_wf_def quota_inv_def ids_inv_def req_inv_def req_at_def few_ids_def cl_accepts_def actives_def open_streams_def)
  moreover have "calm ?u (updateStreamQuota n t)" unfolding updateStreamQuota_def Let_def by (intro calms) simp_all
  ultimately show ?thesis using calm_ok by blast
qed

lemma ForeachSetting_cl:
  "6 * (i + k) \<le> length p \<Longrightarrow> \<exists>st'. ForeachSetting k p i cl_collect_setting st = (Ok (), st')"
proof (induction k arbitrary: i st)
  case (Suc k)
  obtain x where x: "Setting p i = Ok x" using Setting_ok[of i p] Suc.prems by auto
  have "\<exists>st'. cl_collect_setting x st = (Ok (), st')" by (simp add: cl_collect_setting_def split: prod.split)
  then obtain st' where "cl_collect_setting x st = (Ok (), st')" by blast
  then show ?case using Suc.IH[of "Suc i" st'] Suc.prems x by (simp add: bindP_def)
qed (simp, metis prod_cases3)

lemma handleSettings_fine:
  assumes "cl_ok t"
  shows "fine (cl_handleSettings fh p isFirst t)"
proof -
  obtain ms mx ss where f: "ForeachSetting (NumSettings p) p 0 cl_collect_setting (None, None, []) = (Ok (), (ms, mx, ss))"
    using ForeachSetting_cl[of 0 "NumSettings p" p] by (metis NumSettings_def add_0 mult_div_mod_eq le_add1 prod_cases3)
  have h: "cl_ok (if mx \<noteq> None then t\<lparr>cl_maxSendHeaderListSize := mx\<rparr> else t)" by (rule calm_ok[OF _ assms]) (intro calms; simp)
  then have u: "cl_ok (case n of Some n \<Rightarrow> updateStreamQuota n (if mx \<noteq> None then t\<lparr>cl_maxSendHeaderListSize := mx\<rparr> else t)
      | None \<Rightarrow> (if mx \<noteq> None then t\<lparr>cl_maxSendHeaderListSize := mx\<rparr> else t))" (is "cl_ok (?u n)") for n
    using quota_ok[OF h] by (cases n) simp_all
  have v: "cl_ok (cl_put (CbIncomingSettings ss) (?u n))" for n by (rule calm_ok[OF calm_put[OF calm_refl] u]) simp
  have e: "cl_handleSettings fh p isFirst t = (Ok (), if Has (fh_Flags fh) FlagAck \<or> \<not> cl_accepts t then t
      else cl_put (CbIncomingSettings ss) (?u (if isFirst \<and> ms = None then Some 0xFFFFFFFF else ms)))"
    using f by (simp add: cl_handleSettings_def cl_executeAndPut_cases Let_def)
  show ?thesis using assms v by (cases "Has (fh_Flags fh) FlagAck \<or> \<not> cl_accepts t") (simp_all only: e if_True if_False fine_Ok)
qed

lemma closeStream_fine: "cl_ok t \<Longrightarrow> a \<in> set (cl_opened t) \<Longrightarrow> fine (cl_closeStream a err rst code st mdata t)"
  by (rule keeps_fine[OF closeStream_keeps]) simp_all

lemma calm_opened: "calm t u \<Longrightarrow> cl_opened u = cl_opened t"
  by (simp add: calm_def)

lemma closeStream_calm: "cl_ok t \<Longrightarrow> calm t u \<Longrightarrow> a \<in> set (cl_opened t) \<Longrightarrow> fine (cl_closeStream a err rst code st mdata u)"
  using closeStream_fine[of u a err rst code st mdata] calm_ok[of t u] by (simp add: calm_opened)

lemma stream_data_fine:
  assumes "cl_ok t" "a \<in> set (cl_opened t)"
  shows "fine (cl_stream_data a fh data t)"
proof -
  obtain r fc where r: "fl_onData (fh_Length fh) (x_fc (cl_obj t a)) = (r, fc)" by (cases "fl_onData (fh_Length fh) (x_fc (cl_obj t a))")
  let ?t1 = "upd a (\<lambda>s. s\<lparr>x_fc := fc\<rparr>) t"
  let ?t2 = "if Has (fh_Flags fh) FlagPadded then cl_updateWindow a (fh_Length fh - of_nat (length data)) ?t1 else ?t1"
  let ?t3 = "if data \<noteq> [] then x_write a (RData data) ?t2 else ?t2"
  have 1: "calm t ?t1" by (intro calms) simp_all
  have 3: "calm t ?t3" by (intro calms) simp_all
  note c = closeStream_calm[OF assms(1) _ assms(2)]
  show ?thesis unfolding cl_stream_data_def Let_def r prod.case
    using c[OF 1] c[OF 3] c[OF calm_refl] calm_ok[OF 3 assms(1)] assms(1) by (cases r) (auto simp del: upd_sel)
qed

lemma handleData_fine:
  assumes "cl_ok t"
  shows "fine (cl_handleData now fh data t)"
proof -
  obtain b u where b: "cl_bdp_on_data now (fh_Length fh) t = (b, u)" by (cases "cl_bdp_on_data now (fh_Length fh) t")
  have "calm t u" using calm_bdp_on_data[OF calm_refl, of t now "fh_Length fh"] by (simp add: b)
  then have "calm t (cl_conn_window b (fh_Length fh) u)" (is "calm t ?v") by (intro calms)
  then have v: "cl_ok ?v" using calm_ok assms by blast
  then have "cl_wf ?v" by (simp add: cl_ok_def)
  then show ?thesis using v stream_data_fine[OF v] getStream_opened[of ?v "fh_StreamID fh"]
    by (cases "cl_getStream (fh_StreamID fh) ?v") (simp_all add: cl_handleData_def b Let_def)
qed

lemma handleRST_fine:
  assumes "cl_ok t"
  shows "fine (cl_handleRSTStream x sid code t)"
proof (cases "cl_getStream sid t")
  case (Some a)
  have "a \<in> set (cl_opened t)" using getStream_opened[OF _ Some] assms by (simp add: cl_ok_def)
  note c = closeStream_calm[OF assms _ this]
  have "calm t (if code = ErrCodeRefusedStream then upd a (\<lambda>s. s\<lparr>x_unprocessed := True\<rparr>) t else t)" by (intro calms) simp_all
  from c[OF this] show ?thesis unfolding cl_handleRSTStream_def Some Let_def by simp
qed (simp add: cl_handleRSTStream_def assms)

definition out_of_int32 :: "int \<Rightarrow> bool" where
  "out_of_int32 n \<longleftrightarrow> n > 2 ^ 31 - 1 \<or> n < - (2 ^ 31)"

text \<open>The trailers that make \<^verbatim>\<open>safeCastInt32\<close> panic.\<close>

definition bad_trailer :: "'d decodeState \<Rightarrow> bool" where
  "bad_trailer d \<longleftrightarrow>
     (\<exists>n. p_bizStatusErr d = None \<and> p_bizStatusCode d = Some n \<and> out_of_int32 n)
     \<or> p_statusGen d = None \<and> (case p_rawStatusCode d of None \<Rightarrow> True | Some n \<Rightarrow> out_of_int32 n)"

lemma end_of_stream_cases:
  assumes "cl_ok t" "calm t u" "a \<in> set (cl_opened t)"
  shows "if bad_trailer d then fst (end_of_stream a d u) = Panic else fine (end_of_stream a d u)"
proof -
  have "calm t (upd a (\<lambda>s. s\<lparr>x_biz := biz\<rparr>) u)" for biz using assms(2) by (intro calms) simp_all
  from closeStream_calm[OF assms(1) this assms(3)]
  have c: "fine (cl_closeStream a err rst code st md (upd a (\<lambda>s. s\<lparr>x_biz := biz\<rparr>) u))" for err rst code st md biz .
  show ?thesis
    by (cases "p_statusGen d"; cases "p_rawStatusCode d"; cases "p_bizStatusErr d"; cases "p_bizStatusCode d")
      (auto simp: bad_trailer_def end_of_stream_def bizStatusErr_def status_of_def safeCastInt32_def out_of_int32_def bindP_def Let_def c
        simp del: upd_sel)
qed

text \<open>The frames on which \<^verbatim>\<open>operateHeaders\<close> panics: the end of an open stream with such a trailer.\<close>

definition bad_headers :: "('f, 'd) senv \<Rightarrow> u32 \<Rightarrow> bool \<Rightarrow> (gostring \<times> gostring) list \<Rightarrow> bool \<Rightarrow> ('f, 'd) http2Client \<Rightarrow> bool" where
  "bad_headers env sid endStream fs truncated t \<longleftrightarrow>
     endStream \<and> (\<exists>a d. cl_getStream sid t = Some a \<and> bad_trailer d
       \<and> decodeHeader (v_henv env) truncated fs (newDecodeState False (x_headerChanClosed (cl_obj t a))) = (Ok (), d))"

lemma operateHeaders_cases:
  assumes ok: "cl_ok t"
  shows "if bad_headers env sid es fs tr t then fst (cl_operateHeaders env sid es fs tr t) = Panic
    else fine (cl_operateHeaders env sid es fs tr t)"
proof (cases "cl_getStream sid t")
  case (Some a)
  have a: "a \<in> set (cl_opened t)" using getStream_opened[OF _ Some] ok by (simp add: cl_ok_def)
  let ?t1 = "upd a (\<lambda>s. s\<lparr>x_bytesReceived := True\<rparr>) t"
  have 1: "calm t ?t1" by (intro calms) simp_all
  note c = closeStream_calm[OF ok 1 a]
  let ?hc = "x_headerChanClosed (cl_obj t a)"
  obtain r d where d: "decodeHeader (v_henv env) tr fs (newDecodeState False ?hc) = (r, d)"
    by (cases "decodeHeader (v_henv env) tr fs (newDecodeState False ?hc) :: (statusErr, unit) res \<times> 'b decodeState")
  have r: "r \<noteq> Panic" "r \<noteq> Diverge" using d by (auto simp: decodeHeader_def Let_def split: if_splits option.splits)
  have 2: "calm t (upd a (first_header es d) ?t1)" using 1 by (intro calms) simp_all
  have b: "bad_headers env sid es fs tr t \<longleftrightarrow> es \<and> r = Ok () \<and> bad_trailer d" using Some d by (auto simp: bad_headers_def)
  have hc: "x_headerChanClosed (cl_obj ?t1 a) = ?hc" by simp
  show ?thesis unfolding b cl_operateHeaders_def Some Let_def option.case hc not_not d prod.case
    using c end_of_stream_cases[OF ok 2 a, of d] calm_ok[OF 2 ok] r by (cases r) (auto simp del: upd_sel)
qed (simp add: cl_operateHeaders_def bad_headers_def ok)

fun bad_frame :: "('f, 'd) senv \<Rightarrow> frame + (h2err \<times> string option) \<Rightarrow> ('f, 'd) http2Client \<Rightarrow> bool" where
  "bad_frame env (Inl (MetaHeadersFrame fh _ fs truncated)) t = bad_headers env (fh_StreamID fh) (Has (fh_Flags fh) FlagEndStream) fs truncated t"
| "bad_frame env _ t = False"

lemma handleFrame_cases:
  assumes "cl_ok t"
  shows "if bad_frame env (Inl f) t then fst (cl_handleFrame env now x f t) = Panic else fine (cl_handleFrame env now x f t)"
proof -
  have "cl_ok (cl_handlePing env now ack data t)" for ack data by (rule calm_ok[OF calm_handlePing[OF calm_refl] assms])
  moreover have "cl_ok (cl_handleWindowUpdate sid inc t)" for sid inc
    unfolding cl_handleWindowUpdate_def by (rule calm_ok[OF calm_put[OF calm_refl] assms]) simp
  ultimately show ?thesis using assms operateHeaders_cases[OF assms]
    by (cases f) (simp_all add: cl_handleFrame_def handleData_fine handleRST_fine handleSettings_fine handleGoAway_fine)
qed

lemma fine_bind: "fine (m t) \<Longrightarrow> (\<And>x u. m t = (Ok x, u) \<Longrightarrow> cl_ok u \<Longrightarrow> fine (g x u)) \<Longrightarrow> fine (bindP m g t)"
  by (cases "m t"; cases "fst (m t)") (auto simp: bindP_def fine_def)

lemma handleReadErr_fine:
  assumes "cl_ok t"
  shows "fine (cl_handleReadErr e detail t)"
proof -
  have c: "fine (bindP (cl_Close x) (\<lambda>_ t. (Ok False, t)) t)" for x by (rule fine_bind, rule Close_fine[OF assms]) simp
  have s: "fine (bindP (cl_closeStream a err rst code st md) (\<lambda>_ t. (Ok True, t)) t)" if "cl_getStream sid t = Some a" for a sid err rst code st md
    by (rule fine_bind, rule closeStream_fine[OF assms]) (use getStream_opened[OF _ that] assms in \<open>simp_all add: cl_ok_def\<close>)
  show ?thesis
  proof (cases e)
    case (StreamError sid code)
    then show ?thesis using s assms by (cases "cl_getStream sid t") (simp_all add: cl_handleReadErr_def Let_def)
  qed (simp_all add: cl_handleReadErr_def c)
qed

lemma read_at_getStream: "cl_getStream sid (read_at now t) = cl_getStream sid t" "cl_obj (read_at now t) = cl_obj t"
  by (simp_all add: read_at_def cl_getStream_def actives_def)

lemma bad_frame_read_at: "bad_frame env r (read_at now t) = bad_frame env r t"
  by (cases "(env, r, t)" rule: bad_frame.cases) (simp_all add: bad_headers_def read_at_getStream)

lemma reader_turn_cases:
  assumes "cl_ok t"
  shows "if bad_frame env r t then fst (reader_turn env now x r t) = Panic else fine (reader_turn env now x r t)"
proof -
  have u: "cl_ok (read_at now t)" by (rule calm_ok[OF calm_read_at[OF calm_refl] assms])
  show ?thesis
  proof (cases r)
    case (Inl f)
    have "fine (bindP (cl_handleFrame env now x f) (\<lambda>_ t. (Ok True, t)) (read_at now t))" if "\<not> bad_frame env r t"
      by (rule fine_bind) (use handleFrame_cases[OF u, of env f now x] that in \<open>simp_all add: Inl bad_frame_read_at\<close>)
    moreover have "fst (bindP (cl_handleFrame env now x f) (\<lambda>_ t. (Ok True, t)) (read_at now t)) = Panic" if "bad_frame env r t"
      using handleFrame_cases[OF u, of env f now x] that
      by (cases "cl_handleFrame env now x f (read_at now t)") (simp add: Inl bad_frame_read_at bindP_def)
    ultimately show ?thesis by (simp add: reader_turn_def Inl)
  next
    case (Inr p) then show ?thesis using handleReadErr_fine[OF u] by (cases p) (simp add: reader_turn_def)
  qed
qed

lemma reader_start_fine:
  assumes "cl_ok t"
  shows "fine (reader_start now r t)"
proof -
  have u: "cl_ok (read_at now t)" by (rule calm_ok[OF calm_read_at[OF calm_refl] assms])
  have c: "fine (bindP (cl_Close x) (\<lambda>_ t. (Ok False, t)) v)" if "cl_ok v" for x v by (rule fine_bind, rule Close_fine[OF that]) simp
  have s: "fine (bindP (cl_handleSettings fh p True) (\<lambda>_ t. (Ok True, t)) (read_at now t))" for fh p
    by (rule fine_bind, rule handleSettings_fine[OF u]) simp
  show ?thesis
  proof (cases r)
    case (Inl f) then show ?thesis using c[OF u] s by (cases f) (simp_all add: reader_start_def)
  qed (simp add: reader_start_def c[OF assms])
qed

lemma Tick_fine:
  assumes "cl_ok t"
  shows "fine (Tick ctx t)"
proof -
  have "cl_wf t" using assms by (simp add: cl_ok_def)
  then have s: "set (map snd (filter (\<lambda>p. ctx (snd p) \<noteq> None) (actives t))) \<subseteq> set (cl_opened t)" using active_opened[of t] by auto
  show ?thesis unfolding Tick_def by (rule keeps_fine[OF tick_all_keeps[OF assms s]])
qed

lemma CloseStream_fine: "cl_ok t \<Longrightarrow> a \<in> set (cl_opened t) \<Longrightarrow> fine (CloseStream a e t)"
  by (cases e) (simp_all add: CloseStream_def closeStream_fine)

lemma greeting_fine: "cl_ok t \<Longrightarrow> fine (client_greeting w b t)"
  unfolding client_greeting_def by (auto intro!: fine_bind Close_fine)

lemma initStream_fine:
  assumes "cl_ok t" "a \<in> set (cl_opened t)"
  shows "fine (initStream a t)"
proof (cases "cl_state t = reachable")
  case True
  have "cl_wf t" using assms by (simp add: cl_ok_def)
  then show ?thesis using True calm_kp_signal[of t] calm_ok[OF _ assms(1)] by (auto simp: initStream_def)
next
  case False
  have "fine (bindP (cl_cleanup a e) (\<lambda>_ t. (Err e :: ('b cerr, unit) res, t)) t)" for e
    by (rule fine_bind, rule keeps_fine[OF cl_cleanup_keeps[OF assms(1)]]) (use False assms(2) in simp_all)
  then show ?thesis using False by (simp add: initStream_def Let_def)
qed

lemma delete_ok:
  assumes "cl_ok t"
  shows "cl_ok (cl_delete a t)"
proof (cases "cl_active t")
  case (Some m)
  let ?m = "filter (\<lambda>p. fst p \<noteq> x_id (cl_obj t a)) m"
  have d: "cl_delete a t = t\<lparr>cl_active := Some ?m\<rparr>" using Some by (simp add: cl_delete_def)
  have "cl_wf t" using assms by (simp add: cl_ok_def)
  then have "cl_wf (t\<lparr>cl_active := Some ?m\<rparr>)" using Some unfolding cl_wf_def actives_def by (simp add: distinct_map_filter)
  moreover have "open_streams (t\<lparr>cl_active := Some ?m\<rparr>) = open_streams t" by (simp add: open_streams_def)
  ultimately show ?thesis using assms unfolding d
    by (simp add: cl_ok_def quota_inv_def ids_inv_def req_inv_def req_at_def few_ids_def cl_accepts_def)
qed (simp add: cl_delete_def assms)

lemma calm_ck_ping: "calm t u \<Longrightarrow> calm t (snd (ck_ping p k u))"
  unfolding ck_ping_def Let_def snd_conv by (intro calms) simp_all

lemma ck_fired_fine:
  assumes "cl_ok t" "cl_keepaliveEnabled t"
  shows "fine (ck_fired p now k t)"
proof -
  have c: "fine (bindP (cl_Close x) (\<lambda>_ t. (Ok (CkReturn, k), t)) t)" for x by (rule fine_bind, rule Close_fine[OF assms(1)]) simp
  have "calm t (t\<lparr>cl_kpDormant := True, cl_kpSignalled := False\<rparr>)" using assms(2) by (simp add: calm_def cl_accepts_def)
  then have d: "cl_ok (t\<lparr>cl_kpDormant := True, cl_kpSignalled := False\<rparr>)" using calm_ok assms(1) by blast
  have "calm t (t\<lparr>cl_kpDormant := False\<rparr>)" by (intro calms) simp
  from calm_ok[OF calm_ck_ping[OF this, of p k] assms(1)]
  have "fine (case ck_ping p k (t\<lparr>cl_kpDormant := False\<rparr>) of (r, t) \<Rightarrow> (Ok r :: ('b cerr, ckNext \<times> kpState) res, t))"
    by (cases "ck_ping p k (t\<lparr>cl_kpDormant := False\<rparr>)") simp
  then show ?thesis using c d assms(1) by (simp add: ck_fired_def)
qed

section \<open>All runs\<close>

definition cl_bad :: "('f, 'd) senv \<Rightarrow> 'd cl_event \<Rightarrow> ('f, 'd) http2Client \<Rightarrow> bool" where
  "cl_bad env ev t = (case ev of CRecv _ r \<Rightarrow> bad_frame env r t | _ \<Rightarrow> False)"

lemma done_fine: "fine p \<Longrightarrow> fine (done_with p)"
  by (cases p; cases "fst p") (auto simp: done_with_def fine_def)

lemma done_Panic: "fst p = Panic \<Longrightarrow> fst (done_with p) = Panic"
  by (cases p) (simp add: done_with_def)

text \<open>Every step that the application and the goroutines may take keeps the invariant and does not panic, one kind apart.\<close>

lemma exec_cases:
  assumes ok: "cl_ok t" and can: "cl_can ev t"
  shows "if cl_bad env ev t then fst (cl_exec env now ev t) = Panic else fine (cl_exec env now ev t)"
proof (cases ev)
  case (CRecv x r)
  then show ?thesis using reader_turn_cases[OF ok, of env r now x] done_fine done_Panic by (simp add: cl_exec_def cl_bad_def split: if_splits)
next
  case (CWriterGet b)
  obtain r c where g: "cb_get b (cl_ctl t) = (r, c)" by (cases "cb_get b (cl_ctl t)")
  have "r \<noteq> Panic" using cb_ok_get[OF _ g] ok by (simp add: cl_ok_def cl_wf_def)
  then show ?thesis using calm_ok[OF calm_writer[OF g] ok] by (cases r) (simp_all add: cl_exec_def cl_bad_def CWriterGet g)
next
  case (CWoken p k)
  have "calm t (t\<lparr>cl_kpDormant := False\<rparr>)" by (intro calms) simp
  from calm_ok[OF calm_ck_ping[OF this, of p k] ok] show ?thesis by (simp add: cl_exec_def cl_bad_def CWoken ck_woken_def)
next
  case (CRequestRead a n) then show ?thesis using calm_ok[OF calm_window(1)[OF calm_refl] ok] by (simp add: cl_exec_def cl_bad_def)
next
  case (CRead a n) then show ?thesis using calm_ok[OF calm_window(2)[OF calm_refl] ok] by (simp add: cl_exec_def cl_bad_def)
qed (use can ok in \<open>auto simp: cl_exec_def cl_bad_def context_done_def reader_start_fine NewStream_start_ok NewStream_try_fine
       NewStream_wake_ok NewStream_end_fine Write_fine Write_resume_fine CloseStream_fine Close_fine GracefulClose_fine Tick_fine
       greeting_fine initStream_fine delete_ok ck_fired_fine intro!: done_fine\<close>)

lemma start_ok: "cl_ok (newHTTP2Client opt est)"
  using cb_inv_new by (auto simp: newHTTP2Client_def Let_def cl_ok_def cl_wf_def quota_inv_def ids_inv_def req_inv_def actives_def
      open_streams_def new_clStream_def cb_ok_def)

lemma cl_reach_ok: "cl_reach env t \<Longrightarrow> cl_ok t"
proof (induction rule: cl_reach.induct)
  case (Step t ev now t')
  then show ?case using exec_cases[of t ev env now] by (auto simp: fine_def split: if_splits)
qed (rule start_ok)

end
