(* ===== verification/Http2ClientProps.thy ===== *)
theory Http2ClientProps
  imports Http2ClientInv HttpUtilProps
begin

text \<open>
  What a client transport guarantees in every interleaving: the shape of its requests, the limit on concurrent streams,
  which input makes it panic, what a GOAWAY does to the open streams, and where a call waits in vain.
\<close>

section \<open>Effects on single streams\<close>

lemma closed_obj:
  "cl_obj (closed a err rst code st reuse md t) =
     (cl_obj t)(a := (finish_stream err st reuse md ((cl_obj t a)\<lparr>x_state := streamDone\<rparr>))\<lparr>x_done := True\<rparr>)"
  by (simp add: closed_def Let_def)

lemma finish_drain: "x_closeStreamErr (finish_stream (Some errStreamDrain) st reuse md s) = Some errStreamDrain"
  "x_unprocessed (finish_stream err st reuse md s) = x_unprocessed s"
  by (simp_all add: finish_stream_def Let_def errStreamDrain_def split: option.splits)

text \<open>Draining rejects exactly the streams it is given.\<close>

definition rejected :: "'d clStream \<Rightarrow> 'd clStream \<Rightarrow> bool" where
  "rejected s s' \<longleftrightarrow>
     (if x_state s = streamDone then s' = s
      else x_state s' = streamDone \<and> x_unprocessed s' = x_unprocessed s \<and> x_closeStreamErr s' = Some errStreamDrain)"

lemma drain_all_obj:
  assumes "cl_ok t" "set as \<subseteq> set (cl_opened t)" "drain_all as t = (r, u)"
  shows "\<forall>b. if b \<in> set as then rejected (cl_obj t b) (cl_obj u b) else cl_obj u b = cl_obj t b"
  using assms
proof (induction as arbitrary: t)
  case (Cons a as)
  have a: "a \<in> set (cl_opened t)" using Cons.prems(2) by simp
  obtain v where v: "cl_closeStream a (Some errStreamDrain) False 0 (Some statusGoAway) Map.empty t = (Ok (), v)" "keeps t v"
    using closeStream_keeps[OF Cons.prems(1), of a] a by blast
  have ve: "v = (if x_state (cl_obj t a) = streamDone then t
      else closed a (Some errStreamDrain) False 0 (Some statusGoAway) False Map.empty t)"
    using cl_closeStream_eq[of t a "Some errStreamDrain" False 0 "Some statusGoAway" Map.empty] v(1) Cons.prems(1) by (simp add: cl_ok_def)
  have "drain_all as v = (r, u)" using Cons.prems(3) v(1) by (simp add: bindP_def)
  moreover have "cl_ok v" "set as \<subseteq> set (cl_opened v)" using v(2) Cons.prems(2) by (simp_all add: keeps_def)
  ultimately have IH: "\<forall>b. if b \<in> set as then rejected (cl_obj v b) (cl_obj u b) else cl_obj u b = cl_obj v b" using Cons.IH by blast
  have va: "rejected (cl_obj t a) (cl_obj v a)" by (simp add: ve rejected_def closed_obj finish_drain)
  have vb: "cl_obj v b = cl_obj t b" if "b \<noteq> a" for b using that by (simp add: ve closed_obj)
  show ?case
  proof
    fix b
    show "if b \<in> set (a # as) then rejected (cl_obj t b) (cl_obj u b) else cl_obj u b = cl_obj t b"
    proof (cases "b = a")
      case True
      have "x_state (cl_obj v a) = streamDone" using va by (simp add: rejected_def split: if_splits)
      then have "cl_obj u a = cl_obj v a" using IH[rule_format, of a] by (simp add: rejected_def split: if_splits)
      then show ?thesis using va True by simp
    next
      case False then show ?thesis using IH[rule_format, of b] vb[of b] by (auto split: if_splits)
    qed
  qed
qed simp

definition upper_limit :: "('f, 'd) http2Client \<Rightarrow> u32" where
  "upper_limit t = (if cl_prevGoAwayID t = 0 then 0xFFFFFFFF else cl_prevGoAwayID t)"

lemma unprocessed_obj:
  "cl_obj (fold (\<lambda>a. upd a (\<lambda>s. s\<lparr>x_unprocessed := True\<rparr>)) as t) b =
     (if b \<in> set as then (cl_obj t b)\<lparr>x_unprocessed := True\<rparr> else cl_obj t b)"
  by (induction as arbitrary: t) auto

lemma goAway_streams_obj:
  assumes ok: "cl_ok t" and k: "(k, a) \<in> set (actives t)"
  shows "\<exists>u. goAway_streams lastID b t = (Ok (), u) \<and> cl_state u = cl_state t
     \<and> (if lastID < k \<and> k \<le> upper_limit t then rejected ((cl_obj t a)\<lparr>x_unprocessed := True\<rparr>) (cl_obj u a) else cl_obj u a = cl_obj t a)"
proof -
  let ?as = "map snd (filter (\<lambda>(k, a). k > lastID \<and> k \<le> upper_limit t) (actives t))"
  let ?n = "\<lambda>t. if b then t\<lparr>cl_callbacks := cl_callbacks t @ [OnGoAway (cl_goAwayReason t)]\<rparr> else t"
  let ?v = "?n (fold (\<lambda>a. upd a (\<lambda>s. s\<lparr>x_unprocessed := True\<rparr>)) ?as (t\<lparr>cl_prevGoAwayID := lastID\<rparr>))"
  have wf: "cl_wf t" using ok by (simp add: cl_ok_def)
  have c: "calm t ?v" by (intro calms) simp_all
  have v: "cl_ok ?v" by (rule calm_ok[OF c ok])
  have s: "set ?as \<subseteq> set (cl_opened ?v)" using active_opened[OF wf] c by (auto simp: calm_def)
  obtain u where u: "drain_all ?as ?v = (Ok (), u)" "keeps ?v u" using drain_all_keeps[OF v s] by blast
  have ne: "actives t \<noteq> []" using k by auto
  have act: "actives (t\<lparr>cl_prevGoAwayID := i\<rparr>) = actives t" for i by (simp add: actives_def)
  have "goAway_streams lastID b t = drain_all ?as ?v" unfolding goAway_streams_def upper_limit_def Let_def act
    by (simp only: ne if_False)
  then have "goAway_streams lastID b t = (Ok (), u)" using u(1) by simp
  moreover have "cl_state u = cl_state t" using u(2) c by (simp add: keeps_def calm_def)
  moreover have mem: "a \<in> set ?as \<longleftrightarrow> lastID < k \<and> k \<le> upper_limit t"
  proof
    assume "a \<in> set ?as"
    then obtain k' where "(k', a) \<in> set (actives t)" "lastID < k' \<and> k' \<le> upper_limit t" by auto
    then show "lastID < k \<and> k \<le> upper_limit t" using active_opened[OF wf, of k' a] active_opened[OF wf k] by simp
  next
    assume "lastID < k \<and> k \<le> upper_limit t"
    then show "a \<in> set ?as" using k by (auto intro!: image_eqI[of _ _ "(k, a)"])
  qed
  have "cl_obj ?v a = (if a \<in> set ?as then (cl_obj t a)\<lparr>x_unprocessed := True\<rparr> else cl_obj t a)"
    by (simp add: unprocessed_obj)
  ultimately show ?thesis using drain_all_obj[OF v s u(1), rule_format, of a] unfolding mem by auto
qed

section \<open>Runs for the examples\<close>

fun cl_run :: "('f, 'd) senv \<Rightarrow> (int \<times> 'd cl_event) list \<Rightarrow> ('f, 'd) http2Client \<Rightarrow> ('f, 'd) http2Client option" where
  "cl_run env [] t = Some t"
| "cl_run env ((now, ev) # evs) t =
     (if cl_can ev t then (case cl_exec env now ev t of (Ok _, t') \<Rightarrow> cl_run env evs t' | _ \<Rightarrow> None) else None)"

lemma cl_run_reach: "cl_reach env t \<Longrightarrow> cl_run env evs t = Some t' \<Longrightarrow> cl_reach env t'"
proof (induction env evs t rule: cl_run.induct)
  case (2 env now ev evs t)
  then show ?case by (cases "cl_exec env now ev t") (auto split: if_splits res.splits intro: cl_reach.Step)
qed simp

definition demo_client :: "(unit, unit) http2Client" where
  "demo_client = newHTTP2Client \<lparr>o_keepalive = \<lparr>ck_Time = 0, ck_Timeout = 0, ck_PermitWithoutStream = False\<rparr>,
     o_InitialWindowSize = 0, o_InitialConnWindowSize = 0\<rparr> demo_bdp"

definition demo_hdr :: callHdr where
  "demo_hdr = \<lparr>c_Host = [], c_Method = bytes_of ''/s/m'', c_SendCompress = [], c_ContentSubtype = [], c_PreviousAttempts = 0\<rparr>"

definition demo_call :: "nat \<Rightarrow> ncall" where
  "demo_call a = \<lparr>n_stream = a, n_fields = [], n_first = True, n_ch = None, n_awake = True\<rparr>"

definition demo_opens :: "(int \<times> unit cl_event) list" where
  "demo_opens = [(1, CFirst (Inl (SettingsFrame (demo_fh 4 0 6 0) [0, 3, 0, 0, 0, 2]))),
     (2, CStart demo_hdr []), (3, CTry (demo_call 0)), (4, CStart demo_hdr []), (5, CTry (demo_call 1))]"

lemma demo_client_start: "cl_reach demo_senv demo_client"
  unfolding demo_client_def by (rule cl_reach.Start)

section \<open>Properties\<close>

text \<open>C5. As long as the ids last (fewer than \<open>2 ^ 31\<close> were handed out), the streams that \<^verbatim>\<open>NewStream\<close> returned have odd,
  strictly increasing ids, and what the control buffer accepted for each of them is exactly one header block, then data,
  then at most one final data frame that ends the stream - in every interleaving of calls, frames, cancellations, shutdown
  and waiting writes.\<close>

theorem client_request_shape:
  assumes "cl_reach env t" "few_ids t"
  shows "sorted_wrt (<) (map (\<lambda>a. x_id (cl_obj t a)) (cl_opened t))
    \<and> (\<forall>a\<in>set (cl_opened t). x_id (cl_obj t a) mod 2 = 1
      \<and> (\<exists>n. rtags (x_id (cl_obj t a)) (cl_log t) \<in> {ReqHeader # replicate n ReqData, ReqHeader # replicate n ReqData @ [ReqEnd]}))"
proof -
  have i: "ids_inv t" and r: "req_inv t" using cl_reach_ok[OF assms(1)] assms(2) by (simp_all add: cl_ok_def)
  have "sorted_wrt (<) (map (\<lambda>a. x_id (cl_obj t a)) (cl_opened t))" using i by (simp add: ids_inv_def sorted_wrt_map)
  moreover have "x_id (cl_obj t a) mod 2 = 1
      \<and> (\<exists>n. rtags (x_id (cl_obj t a)) (cl_log t) \<in> {ReqHeader # replicate n ReqData, ReqHeader # replicate n ReqData @ [ReqEnd]})"
    if a: "a \<in> set (cl_opened t)" for a
  proof -
    have "req_at t a" using r a by (simp add: req_inv_def)
    then show ?thesis using i a by (cases "x_writing (cl_obj t a)") (auto simp: req_at_def Let_def ids_inv_def)
  qed
  ultimately show ?thesis by blast
qed

definition demo_writes :: "(int \<times> unit cl_event) list" where
  "demo_writes = demo_opens @ [(6, CWrite 0 (Some [0, 0, 0, 0, 1]) (Some [7]) False), (7, CWrite 1 None None True), (8, CWrite 0 None None True)]"

theorem client_request_shape_witness:
  "\<exists>t. cl_run demo_senv demo_writes demo_client = Some t \<and> sorted_wrt (<) (map (\<lambda>a. x_id (cl_obj t a)) (cl_opened t))
     \<and> (\<exists>n. rtags 1 (cl_log t) = ReqHeader # replicate n ReqData @ [ReqEnd])"
proof -
  have "case cl_run demo_senv demo_writes demo_client of Some t \<Rightarrow> length (cl_ids t) = 2 \<and> cl_opened t = [0, 1] \<and> x_id (cl_obj t 0) = 1
      \<and> rtags 1 (cl_log t) = [ReqHeader, ReqData, ReqEnd] | None \<Rightarrow> False" by code_simp
  then obtain t where t: "cl_run demo_senv demo_writes demo_client = Some t" "length (cl_ids t) = 2" "cl_opened t = [0, 1]"
    "x_id (cl_obj t 0) = 1" "rtags 1 (cl_log t) = [ReqHeader, ReqData, ReqEnd]" by (auto split: option.splits)
  have f: "few_ids t" by (simp add: few_ids_def t(2))
  note p = client_request_shape[OF cl_run_reach[OF demo_client_start t(1)] f]
  have "rtags 1 (cl_log t) \<noteq> ReqHeader # replicate n ReqData" for n unfolding t(5)
    by (rule notI, drule arg_cong[where f = set]) (auto split: if_splits)
  then show ?thesis using p t by auto
qed

text \<open>C6. While a client transport is in use, its stream quota is the server's limit on concurrent streams minus the number of
  streams it opened that are not done - also after the server raised or lowered the limit, after cancellations and after
  failed calls - and a call of \<^verbatim>\<open>NewStream\<close> opens a stream only when that keeps the number of open streams within the limit.\<close>

theorem client_stream_limit:
  assumes "cl_reach env t" "cl_accepts t" "cl_state t = reachable" "c \<in> set (cl_calls t)" "NewStream_try c t = (r, u)"
  shows "cl_streamQuota t = uint (cl_maxConcurrentStreams t) - int (length (open_streams t))
    \<and> (cl_opened u = cl_opened t \<or> cl_opened u = cl_opened t @ [n_stream c] \<and> length (open_streams u) = length (open_streams t) + 1
        \<and> length (open_streams u) \<le> unat (cl_maxConcurrentStreams u))"
proof -
  have ok: "cl_ok t" by (rule cl_reach_ok[OF assms(1)])
  have q: "cl_streamQuota t = uint (cl_maxConcurrentStreams t) - int (length (open_streams t))"
    using ok assms(2,3) by (simp add: cl_ok_def quota_inv_def)
  have "cl_opened u = cl_opened t @ [n_stream c] \<and> length (open_streams u) = length (open_streams t) + 1
        \<and> length (open_streams u) \<le> unat (cl_maxConcurrentStreams u)" if n: "cl_opened u \<noteq> cl_opened t"
  proof -
    have "opens (n_stream c) t u \<and> 0 < cl_streamQuota t" using NewStream_try_cases[OF ok, of c]
      by (elim disjE conjE exE) (use n assms(5) in \<open>auto simp: drop_call_def taken_sel dest: calm_opened\<close>)
    then have o: "opens (n_stream c) t u" "0 < cl_streamQuota t" by simp_all
    have "cl_ok u" by (rule opens_ok[OF o(1) ok assms(4) refl assms(2,3)])
    then have "cl_streamQuota u = uint (cl_maxConcurrentStreams u) - int (length (open_streams u))"
      using o(1) assms(2,3) by (simp add: cl_ok_def quota_inv_def opens_def)
    moreover have u: "cl_streamQuota u = cl_streamQuota t - 1" "cl_maxConcurrentStreams u = cl_maxConcurrentStreams t"
        "cl_opened u = cl_opened t @ [n_stream c]" using o(1) by (simp_all add: opens_def)
    ultimately have "length (open_streams u) = length (open_streams t) + 1" "int (length (open_streams u)) \<le> int (unat (cl_maxConcurrentStreams u))"
      using q o(2) by (simp_all only: uint_nat)
    then show ?thesis using u(3) by (simp only: of_nat_le_iff simp_thms)
  qed
  then show ?thesis using q by blast
qed

theorem client_stream_limit_witness:
  "\<exists>t. cl_run demo_senv (take 4 demo_opens) demo_client = Some t \<and> cl_streamQuota t = 1 \<and> length (open_streams t) = 1
     \<and> length (open_streams (snd (NewStream_try (demo_call 1) t))) = 2
     \<and> cl_opened (snd (NewStream_try (demo_call 1) t)) = [0, 1]"
proof -
  have "case cl_run demo_senv (take 4 demo_opens) demo_client of Some t \<Rightarrow> cl_accepts t \<and> cl_state t = reachable \<and> cl_maxConcurrentStreams t = 2
      \<and> length (open_streams t) = 1 \<and> demo_call 1 \<in> set (cl_calls t) \<and> cl_opened t = [0]
      \<and> cl_opened (snd (NewStream_try (demo_call 1) t)) = [0, 1] | None \<Rightarrow> False" by code_simp
  then obtain t where t: "cl_run demo_senv (take 4 demo_opens) demo_client = Some t" "cl_accepts t" "cl_state t = reachable"
    "cl_maxConcurrentStreams t = 2" "length (open_streams t) = 1" "demo_call 1 \<in> set (cl_calls t)" "cl_opened t = [0]"
    "cl_opened (snd (NewStream_try (demo_call 1) t)) = [0, 1]" by (auto split: option.splits)
  note p = client_stream_limit[OF cl_run_reach[OF demo_client_start t(1)] t(2,3,6) surjective_pairing]
  have "cl_streamQuota t = 1" using conjunct1[OF p] t(4,5) by simp
  moreover have "length (open_streams (snd (NewStream_try (demo_call 1) t))) = 2" using conjunct2[OF p] t(5,7,8) by simp
  ultimately show ?thesis using t(1,5,8) by blast
qed

text \<open>C9. No step of a client transport diverges, and the only input that panics one, in any interleaving of frames, calls,
  turns of the writer and timers, is a HEADERS frame that ends an open stream whose status or business status lies
  outside the range of \<^verbatim>\<open>int32\<close>; every such frame does. In particular no channel is closed twice and no nil
  condition variable is signalled.\<close>

theorem client_panics_iff:
  assumes "cl_reach env t" "cl_can ev t"
  shows "fst (cl_exec env now ev t) \<noteq> Diverge
    \<and> (fst (cl_exec env now ev t) = Panic \<longleftrightarrow>
      (\<exists>x fh p fs tr a d. ev = CRecv x (Inl (MetaHeadersFrame fh p fs tr)) \<and> Has (fh_Flags fh) FlagEndStream
        \<and> cl_getStream (fh_StreamID fh) t = Some a
        \<and> decodeHeader (v_henv env) tr fs (newDecodeState False (x_headerChanClosed (cl_obj t a))) = (Ok (), d) \<and> bad_trailer d))"
    (is "_ \<and> (_ \<longleftrightarrow> ?bad)")
proof -
  have "cl_bad env ev t \<longleftrightarrow> ?bad"
  proof (cases ev)
    case (CRecv x r)
    then show ?thesis by (cases "(env, r, t)" rule: bad_frame.cases) (auto simp: cl_bad_def bad_headers_def)
  qed (simp_all add: cl_bad_def)
  then show ?thesis using exec_cases[OF cl_reach_ok[OF assms(1)] assms(2), of env now] by (auto simp: fine_def split: if_splits)
qed

definition demo_status :: "u32 \<Rightarrow> (gostring \<times> gostring) list" where
  "demo_status code = trailer_fields (v_henv demo_senv) True [] (Status code [] []) None []"

definition demo_trailer :: "u32 \<Rightarrow> unit cl_event" where
  "demo_trailer code = CRecv False (Inl (MetaHeadersFrame (demo_fh 1 5 10 1) \<lparr>StreamDep = 0, Exclusive = False, Weight = 0\<rparr> (demo_status code) False))"

lemma demo_decoded:
  "\<exists>d. decodeHeader (v_henv demo_senv) False (demo_status code) (newDecodeState False False) = (Ok (), d)
     \<and> p_statusGen d = None \<and> p_bizStatusCode d = None \<and> p_rawStatusCode d = Some (uint code)"
proof -
  have "trailer_ok (v_henv demo_senv) (Status code [] []) None" by (simp add: trailer_ok_def)
  then show ?thesis unfolding decodeHeader_def Let_def demo_status_def
    using process_trailer_fields[of "v_henv demo_senv" "Status code [] []" None "[]" True "[]"]
    by (simp add: trailer_state_def newDecodeState_def)
qed

lemma demo_bad:
  assumes "cl_getStream 1 t = Some a" "\<not> x_headerChanClosed (cl_obj t a)"
  shows "(\<exists>x fh p fs tr a d. demo_trailer code = CRecv x (Inl (MetaHeadersFrame fh p fs tr)) \<and> Has (fh_Flags fh) FlagEndStream
        \<and> cl_getStream (fh_StreamID fh) t = Some a
        \<and> decodeHeader (v_henv demo_senv) tr fs (newDecodeState False (x_headerChanClosed (cl_obj t a))) = (Ok (), d) \<and> bad_trailer d)
    \<longleftrightarrow> out_of_int32 (uint code)"
proof -
  have "Has (fh_Flags (demo_fh 1 5 10 1)) FlagEndStream" "fh_StreamID (demo_fh 1 5 10 1) = 1" by code_simp+
  then show ?thesis using assms demo_decoded[of code] by (auto simp: demo_trailer_def bad_trailer_def)
qed

theorem client_panics_iff_witness:
  "\<exists>t. cl_run demo_senv demo_opens demo_client = Some t \<and> fst (cl_exec demo_senv 6 (demo_trailer 0x80000000) t) = Panic
     \<and> fst (cl_exec demo_senv 6 (demo_trailer 7) t) \<noteq> Panic"
proof -
  have "case cl_run demo_senv demo_opens demo_client of Some t \<Rightarrow> cl_getStream 1 t = Some 0 \<and> \<not> x_headerChanClosed (cl_obj t 0)
      | None \<Rightarrow> False" by code_simp
  then obtain t where t: "cl_run demo_senv demo_opens demo_client = Some t" "cl_getStream 1 t = Some 0" "\<not> x_headerChanClosed (cl_obj t 0)"
    by (auto split: option.splits)
  have "cl_can (demo_trailer code) t" for code by (simp add: demo_trailer_def)
  note p = client_panics_iff[OF cl_run_reach[OF demo_client_start t(1)] this]
  have "fst (cl_exec demo_senv 6 (demo_trailer code) t) = Panic \<longleftrightarrow> out_of_int32 (uint code)" for code
    by (rule trans[OF conjunct2[OF p] demo_bad[OF t(2,3)]])
  then show ?thesis using t(1) by (simp add: out_of_int32_def)
qed

text \<open>C7. A GOAWAY that is valid (an odd last id or 0, and not larger than that of an earlier GOAWAY) ends exactly the open
  streams the server will not process: those with a larger id that an earlier GOAWAY did not name. They are marked
  unprocessed, and their callers get the error that the connection is draining; every other stream is left as it is. The
  first GOAWAY puts the transport into the draining state.\<close>

theorem goaway_rejects_unprocessed:
  assumes "cl_reach env t" "cl_state t \<noteq> closing" "lastID = 0 \<or> lastID mod 2 = 1" "cl_goAway t \<longrightarrow> lastID \<le> cl_prevGoAwayID t"
    "(k, a) \<in> set (actives t)" "x_state (cl_obj t a) \<noteq> streamDone"
  shows "\<exists>u. handleGoAway lastID code debug t = (Ok (), u) \<and> (\<not> cl_goAway t \<longrightarrow> cl_state u = draining)
    \<and> (if lastID < k \<and> k \<le> (if cl_prevGoAwayID t = 0 then 0xFFFFFFFF else cl_prevGoAwayID t)
       then x_state (cl_obj u a) = streamDone \<and> x_unprocessed (cl_obj u a) \<and> getCloseStreamErr (cl_obj u a) = errStreamDrain
       else cl_obj u a = cl_obj t a)"
proof -
  have ok: "cl_ok t" by (rule cl_reach_ok[OF assms(1)])
  have odd: "\<not> (lastID > 0 \<and> lastID mod 2 \<noteq> 1)" using assms(3) by auto
  have rej: "x_state s' = streamDone \<and> x_unprocessed s' \<and> getCloseStreamErr s' = errStreamDrain"
    if "rejected ((cl_obj t a)\<lparr>x_unprocessed := True\<rparr>) s'" for s' using that assms(6) by (simp add: rejected_def getCloseStreamErr_def)
  show ?thesis
  proof (cases "cl_goAway t")
    case True
    obtain u where u: "goAway_streams lastID False t = (Ok (), u)"
      "if lastID < k \<and> k \<le> upper_limit t then rejected ((cl_obj t a)\<lparr>x_unprocessed := True\<rparr>) (cl_obj u a) else cl_obj u a = cl_obj t a"
      using goAway_streams_obj[OF ok assms(5)] by blast
    have "\<not> lastID > cl_prevGoAwayID t" using assms(4) True by (simp add: not_less)
    then have "handleGoAway lastID code debug t = (Ok (), u)"
      unfolding handleGoAway_def u(1)[symmetric] by (simp only: assms(2) odd True if_True if_False)
    then show ?thesis using True u(2) rej by (auto simp: upper_limit_def split: if_splits)
  next
    case False
    let ?v = "t\<lparr>cl_goAwayReason := setGoAwayReason code debug, cl_goAway := True, cl_state := draining\<rparr>"
    have "calm t (t\<lparr>cl_goAwayReason := setGoAwayReason code debug, cl_goAway := True\<rparr>)" by (intro calms) simp
    then have v: "cl_ok ?v" by (intro draining_ok calm_ok[OF _ ok]) (use assms(2) in simp_all)
    have k: "(k, a) \<in> set (actives ?v)" using assms(5) by (simp add: actives_def)
    have sel: "upper_limit ?v = upper_limit t" "cl_obj ?v = cl_obj t" "cl_state ?v = draining" by (simp_all add: upper_limit_def)
    obtain u where u: "goAway_streams lastID (cl_state t \<noteq> draining) ?v = (Ok (), u)" "cl_state u = draining"
      "if lastID < k \<and> k \<le> upper_limit t then rejected ((cl_obj t a)\<lparr>x_unprocessed := True\<rparr>) (cl_obj u a) else cl_obj u a = cl_obj t a"
      using goAway_streams_obj[OF v k, of lastID "cl_state t \<noteq> draining", unfolded sel] by blast
    have "handleGoAway lastID code debug t = (Ok (), cl_put CbIncomingGoAway u)"
      unfolding handleGoAway_def by (simp only: False assms(2) odd if_False Let_def bindP_def u(1) prod.case res.case)
    then show ?thesis using u(2,3) rej by (auto simp: upper_limit_def split: if_splits)
  qed
qed

theorem goaway_rejects_unprocessed_witness:
  "\<exists>t u. cl_run demo_senv demo_opens demo_client = Some t \<and> handleGoAway 1 0 [] t = (Ok (), u) \<and> cl_state u = draining
     \<and> cl_obj u 0 = cl_obj t 0 \<and> x_state (cl_obj u 1) = streamDone \<and> getCloseStreamErr (cl_obj u 1) = errStreamDrain"
proof -
  have "case cl_run demo_senv demo_opens demo_client of Some t \<Rightarrow> cl_state t = reachable \<and> \<not> cl_goAway t \<and> cl_prevGoAwayID t = 0
      \<and> actives t = [(3, 1), (1, 0)] \<and> x_state (cl_obj t 0) \<noteq> streamDone \<and> x_state (cl_obj t 1) \<noteq> streamDone | None \<Rightarrow> False" by code_simp
  then obtain t where t: "cl_run demo_senv demo_opens demo_client = Some t" "cl_state t = reachable" "\<not> cl_goAway t" "cl_prevGoAwayID t = 0"
    "actives t = [(3, 1), (1, 0)]" "x_state (cl_obj t 0) \<noteq> streamDone" "x_state (cl_obj t 1) \<noteq> streamDone" by (auto split: option.splits)
  note p = goaway_rejects_unprocessed[OF cl_run_reach[OF demo_client_start t(1)], where lastID = 1 and code = 0 and debug = "[]"]
  show ?thesis using p[of 1 0] p[of 3 1] t by auto
qed

text \<open>C37. A call of \<^verbatim>\<open>NewStream\<close> on a transport that drains because of \<^verbatim>\<open>GracefulClose\<close> is not refused: if there is quota, its
  first pass takes a unit of quota and a stream id, opens nothing, and waits on a channel that is nil, so that neither
  quota nor a closed stream ever wakes it. Only its context, a GOAWAY of the server or the end of the transport does.\<close>

theorem draining_call_waits:
  fixes t :: "('f, 'd) http2Client"
  assumes "cl_reach env t" "cl_accepts t" "cl_state t = draining" "header_ok (n_fields c) t" "0 < cl_streamQuota t"
    "c \<in> set (cl_calls t)" "n_first c" "n_ch c = None"
  shows "\<exists>u c'. NewStream_try c t = (Ok (), u) \<and> cl_opened u = cl_opened t \<and> cl_streamQuota u = cl_streamQuota t - 1
    \<and> cl_nextID u = cl_nextID t + 2 \<and> c' \<in> set (cl_calls u) \<and> n_stream c' = n_stream c \<and> \<not> n_awake c'
    \<and> (\<forall>v :: ('f, 'd) http2Client. \<not> can_wake c' v)"
proof -
  let ?c = "c\<lparr>n_first := False, n_ch := None, n_awake := False\<rparr>"
  let ?u = "(taken c t)\<lparr>cl_calls := map (\<lambda>c'. if n_stream c' = n_stream c then ?c else c') (cl_calls t)\<rparr>"
  have "NewStream_try c t = (Ok (), ?u)" using assms(2,4,8) check_draining[of t c] assms(3,5)
    by (simp add: NewStream_try_def cl_accepts_def Let_def taken_sel)
  moreover have "?c \<in> set (cl_calls ?u)" using assms(6) by force
  moreover have "\<not> can_wake ?c v" for v :: "('f, 'd) http2Client" by (simp add: can_wake_def)
  ultimately show ?thesis
    by (intro exI[of _ ?u] exI[of _ ?c]) (simp add: taken_sel)
qed

definition demo_drain :: "(int \<times> unit cl_event) list" where
  "demo_drain = take 3 demo_opens @ [(4, CGraceful), (5, CStart demo_hdr [])]"

theorem draining_call_waits_witness:
  "\<exists>t u c'. cl_run demo_senv demo_drain demo_client = Some t \<and> NewStream_try (demo_call 1) t = (Ok (), u) \<and> cl_opened u = [0]
     \<and> c' \<in> set (cl_calls u) \<and> n_stream c' = 1 \<and> (\<forall>v :: (unit, unit) http2Client. \<not> can_wake c' v)"
proof -
  have "case cl_run demo_senv demo_drain demo_client of Some t \<Rightarrow> cl_accepts t \<and> cl_state t = draining \<and> header_ok [] t
      \<and> 0 < cl_streamQuota t \<and> demo_call 1 \<in> set (cl_calls t) \<and> cl_opened t = [0] | None \<Rightarrow> False" by code_simp
  then obtain t where t: "cl_run demo_senv demo_drain demo_client = Some t" "cl_accepts t" "cl_state t = draining" "header_ok [] t"
    "0 < cl_streamQuota t" "demo_call 1 \<in> set (cl_calls t)" "cl_opened t = [0]" by (auto split: option.splits)
  have c: "n_fields (demo_call 1) = []" "n_first (demo_call 1)" "n_ch (demo_call 1) = None" "n_stream (demo_call 1) = 1" by (simp_all add: demo_call_def)
  have h: "header_ok (n_fields (demo_call 1)) t" using t(4) c(1) by simp
  obtain u c' where u: "NewStream_try (demo_call 1) t = (Ok (), u)" "cl_opened u = cl_opened t" "c' \<in> set (cl_calls u)"
    "n_stream c' = n_stream (demo_call 1)" "\<forall>v :: (unit, unit) http2Client. \<not> can_wake c' v"
    using draining_call_waits[OF cl_run_reach[OF demo_client_start t(1)] t(2,3) h t(5,6) c(2,3)] by blast
  show ?thesis by (rule exI[of _ t], rule exI[of _ u], rule exI[of _ c']) (use t(1,7) u c(4) in simp)
qed




end
