(* ===== verification/Spec2Isabelle.thy ===== *)
theory Spec2Isabelle
  imports CodecProps GrpcSafety LoopyProps HttpUtilProps Http2ServerProps Http2ClientProps
begin

text \<open>
  A verification library for the Kitex RPC framework (Go, under \<^verbatim>\<open>src/\<close>).
\<close>

end
